(* ===== verification/Acai_Prelude.thy ===== *)
theory Acai_Prelude
  imports Main "HOL-Library.Word"
begin

text \<open>
  Shared vocabulary of the development: machine integers at the width the C code uses, the
  outcome of a C function that may run into undefined behaviour, byte-addressed memory with
  little-endian loads and stores, page arithmetic, the two loop shapes that recur in the sources
  (a page-stepping \<open>for\<close> loop and an index loop), and the error numbers.
\<close>

unbundle bit_operations_syntax

subsection \<open>Machine integers, pages and error numbers\<close>

type_synonym u8 = "8 word"
type_synonym u32 = "32 word"
type_synonym u64 = "64 word"
type_synonym bytes = "u8 list"
type_synonym mem = "nat \<Rightarrow> u8"

abbreviation PAGE_SIZE :: "'a::numeral" where "PAGE_SIZE \<equiv> 4096"
abbreviation PAGE_SHIFT :: nat where "PAGE_SHIFT \<equiv> 12"

abbreviation ENXIO :: int where "ENXIO \<equiv> 6"
abbreviation ENOMEM :: int where "ENOMEM \<equiv> 12"
abbreviation EFAULT :: int where "EFAULT \<equiv> 14"
abbreviation EINVAL :: int where "EINVAL \<equiv> 22"

text \<open>
  Facts about the model collected for the simplifier: \<open>mem_simps\<close> moves loads over stores,
  \<open>outcome_simps\<close> sequences C functions.
\<close>

named_theorems mem_simps
named_theorems outcome_simps

subsection \<open>Outcomes of C functions\<close>

text \<open>
  A C function returns a value or does not return: it runs into undefined behaviour (a null
  dereference, an access outside an object, a read of an unset variable, a block freed twice or used afterwards) or ends the process (a failed \<open>assert\<close>, a call
  of \<open>exit\<close>, a lock taken twice). Nothing is claimed about what happens after \<open>Ub\<close>.
\<close>

datatype ub = NullDeref | OutOfBounds | Uninitialised | DoubleFree | UseAfterFree | Aborted | Deadlock

datatype 'a outcome = Ret 'a | Ub ub

primrec obind :: "'a outcome \<Rightarrow> ('a \<Rightarrow> 'b outcome) \<Rightarrow> 'b outcome" where
  "obind (Ret x) f = f x"
| "obind (Ub u) f = Ub u"

primrec is_ret :: "'a outcome \<Rightarrow> bool" where
  "is_ret (Ret _) = True"
| "is_ret (Ub _) = False"

declare obind.simps [outcome_simps]

lemma obind_eq_Ret [outcome_simps]: "obind x f = Ret y \<longleftrightarrow> (\<exists>v. x = Ret v \<and> f v = Ret y)"
  by (cases x) auto

lemma obind_assoc: "obind (obind x f) g = obind x (\<lambda>v. obind (f v) g)"
  by (cases x) auto

lemma obind_cong [fundef_cong]:
  "x = y \<Longrightarrow> (\<And>v. y = Ret v \<Longrightarrow> f v = g v) \<Longrightarrow> obind x f = obind y g"
  by (cases y) auto

text \<open>Folding a fallible step over a list: an index loop whose body may be undefined.\<close>

primrec ofold :: "('x \<Rightarrow> 's \<Rightarrow> 's outcome) \<Rightarrow> 'x list \<Rightarrow> 's \<Rightarrow> 's outcome" where
  "ofold f [] s = Ret s"
| "ofold f (x # xs) s = obind (f x s) (ofold f xs)"

lemma ofold_append: "ofold f (xs @ ys) s = obind (ofold f xs s) (ofold f ys)"
  by (induction xs arbitrary: s) (auto simp: obind_assoc intro: obind_cong)

lemma ofold_Ret_fold:
  assumes "\<And>x s. x \<in> set xs \<Longrightarrow> P s \<Longrightarrow> f x s = Ret (g x s)"
    and "\<And>x s. x \<in> set xs \<Longrightarrow> P s \<Longrightarrow> P (g x s)"
    and "P s"
  shows "ofold f xs s = Ret (fold g xs s)"
  using assms by (induction xs arbitrary: s) auto

subsection \<open>Signed readings\<close>

lemma sint_word_of_int:
  assumes "- (2 ^ (LENGTH('a::len) - 1)) \<le> v" "v < 2 ^ (LENGTH('a) - 1)"
  shows "sint (word_of_int v :: 'a word) = v"
  using assms by (simp add: sint_sbintrunc' signed_take_bit_int_eq_self)

lemma high_bits_zero:
  fixes p :: "'a::len word"
  assumes "unat p < 2 ^ n" "n \<le> k"
  shows "\<not> bit p k"
proof
  assume b: "bit p k"
  then have "bit (unat p) k" by (simp add: bit_unsigned_iff bit_imp_le_length)
  moreover have "take_bit n (unat p) = unat p" using assms(1) by (rule take_bit_nat_eq_self)
  ultimately show False using assms(2) by (metis bit_take_bit_iff not_less)
qed

lemma unat_take_bit_less: "unat (take_bit n (p :: 'a::len word)) < 2 ^ n"
  by (simp add: unsigned_take_bit_eq)

subsection \<open>Byte memory: little-endian loads and stores\<close>

text \<open>\<open>ld n m a\<close> is the \<open>n\<close>-byte little-endian value at \<open>a\<close>; \<open>st n m a v\<close> stores it.\<close>

primrec ld :: "nat \<Rightarrow> mem \<Rightarrow> nat \<Rightarrow> u64" where
  "ld 0 m a = 0"
| "ld (Suc n) m a = ucast (m a) OR push_bit 8 (ld n m (Suc a))"

definition st :: "nat \<Rightarrow> mem \<Rightarrow> nat \<Rightarrow> u64 \<Rightarrow> mem" where
  "st n m a v = (\<lambda>i. if a \<le> i \<and> i < a + n then ucast (drop_bit (8 * (i - a)) v) else m i)"

definition st_bytes :: "mem \<Rightarrow> nat \<Rightarrow> bytes \<Rightarrow> mem" where
  "st_bytes m a bs = (\<lambda>i. if a \<le> i \<and> i < a + length bs then bs ! (i - a) else m i)"

definition ld_bytes :: "mem \<Rightarrow> nat \<Rightarrow> nat \<Rightarrow> bytes" where
  "ld_bytes m a n = map (\<lambda>i. m (a + i)) [0..<n]"

text \<open>A signed 32-bit field, read and written as the C \<open>int\<close> it is.\<close>

definition ld_int :: "mem \<Rightarrow> nat \<Rightarrow> int" where
  "ld_int m a = sint (ucast (ld 4 m a) :: u32)"

definition st_int :: "mem \<Rightarrow> nat \<Rightarrow> int \<Rightarrow> mem" where
  "st_int m a v = st 4 m a (ucast (word_of_int v :: u32))"

text \<open>A signed 64-bit field (\<open>ssize_t\<close>, \<open>loff_t\<close>).\<close>

definition ld_long :: "mem \<Rightarrow> nat \<Rightarrow> int" where
  "ld_long m a = sint (ld 8 m a)"

definition st_long :: "mem \<Rightarrow> nat \<Rightarrow> int \<Rightarrow> mem" where
  "st_long m a v = st 8 m a (word_of_int v)"

lemma bit_ld:
  "n \<le> 8 \<Longrightarrow> bit (ld n m a) k \<longleftrightarrow> k < 8 * n \<and> bit (m (a + k div 8)) (k mod 8)"
proof (induction n arbitrary: a k)
  case 0
  then show ?case by simp
next
  case (Suc n)
  show ?case
  proof (cases "k < 8")
    case True
    then show ?thesis
      by (simp add: bit_simps)
  next
    case False
    then obtain j where j: "k = 8 + j"
      using le_Suc_ex [of 8 k] by auto
    have "(8 + j) div 8 = Suc (j div 8)" by simp
    moreover have "\<not> bit (m a) k"
      using False by (auto dest: bit_imp_le_length)
    ultimately show ?thesis
      using Suc.IH [of "Suc a" j] Suc.prems
      by (auto simp: bit_simps j dest: bit_imp_le_length)
  qed
qed

lemma ld_st_same [mem_simps]:
  assumes "n \<le> 8"
  shows "ld n (st n m a v) a = take_bit (8 * n) v"
proof (rule bit_word_eqI)
  fix k
  assume "k < LENGTH(64)"
  show "bit (ld n (st n m a v) a) k = bit (take_bit (8 * n) v) k"
  proof (cases "k < 8 * n")
    case True
    then have "bit (st n m a v (a + k div 8)) (k mod 8) = bit v k"
      by (simp add: st_def bit_simps div_less_iff_less_mult mult.commute)
    then show ?thesis
      using assms True \<open>k < LENGTH(64)\<close> by (simp add: bit_ld bit_simps)
  next
    case False
    then show ?thesis using assms by (simp add: bit_ld bit_simps)
  qed
qed

lemma ld_cong:
  "(\<And>i. a \<le> i \<Longrightarrow> i < a + n \<Longrightarrow> m i = m' i) \<Longrightarrow> ld n m a = ld n m' a"
proof (induction n arbitrary: a)
  case (Suc n)
  then have "ld n m (Suc a) = ld n m' (Suc a)" by (intro Suc.IH) auto
  moreover have "m a = m' a" using Suc.prems by simp
  ultimately show ?case by simp
qed simp

lemma ld_cong_shift:
  "(\<And>i. i < n \<Longrightarrow> m (a + i) = m' (b + i)) \<Longrightarrow> ld n m a = ld n m' b"
proof (induction n arbitrary: a b)
  case (Suc n)
  have "ld n m (Suc a) = ld n m' (Suc b)"
    using Suc.prems [of "Suc i" for i] by (intro Suc.IH) simp
  moreover have "m a = m' b" using Suc.prems [of 0] by simp
  ultimately show ?case by simp
qed simp

lemma st_outside [mem_simps]: "i < a \<or> a + n \<le> i \<Longrightarrow> st n m a v i = m i"
  by (auto simp: st_def)

lemma st_bytes_outside [mem_simps]: "i < a \<or> a + length bs \<le> i \<Longrightarrow> st_bytes m a bs i = m i"
  by (auto simp: st_bytes_def)

lemma ld_st_other [mem_simps]:
  "b + k \<le> a \<or> a + n \<le> b \<Longrightarrow> ld k (st n m a v) b = ld k m b"
  by (rule ld_cong) (auto simp: st_def)

lemma ld_st_bytes_other [mem_simps]:
  "b + k \<le> a \<or> a + length bs \<le> b \<Longrightarrow> ld k (st_bytes m a bs) b = ld k m b"
  by (rule ld_cong) (auto simp: st_bytes_def)

lemma length_ld_bytes [simp]: "length (ld_bytes m a n) = n"
  by (simp add: ld_bytes_def)

lemma nth_ld_bytes [simp]: "i < n \<Longrightarrow> ld_bytes m a n ! i = m (a + i)"
  by (simp add: ld_bytes_def)

lemma ld_bytes_append: "ld_bytes m a (j + k) = ld_bytes m a j @ ld_bytes m (a + j) k"
  by (rule nth_equalityI) (auto simp: nth_append)

lemma ld_bytes_st_bytes_before [mem_simps]: "b + k \<le> a \<Longrightarrow> ld_bytes (st_bytes m a bs) b k = ld_bytes m b k"
  by (rule nth_equalityI) (auto simp: st_bytes_outside)

lemma concat_nth:
  "\<forall>x \<in> set xs. length x = n \<Longrightarrow> j < length xs \<Longrightarrow> i < n \<Longrightarrow> concat xs ! (n * j + i) = xs ! j ! i"
proof (induction xs arbitrary: j)
  case (Cons x xs)
  then show ?case by (cases j) (auto simp: nth_append add.assoc)
qed simp

lemma length_concat_const: "\<forall>x \<in> set xs. length x = n \<Longrightarrow> length (concat xs) = n * length xs"
  by (induction xs) auto

lemma ld_bytes_eq_Nil [simp]: "ld_bytes m a n = [] \<longleftrightarrow> n = 0"
  by (simp add: ld_bytes_def)

lemma ld_bytes_0 [simp]: "ld_bytes m a 0 = []"
  by (simp add: ld_bytes_def)

lemma st_bytes_Nil [simp]: "st_bytes m a [] = m"
  by (rule ext) (auto simp: st_bytes_def)

lemma ld_bytes_st_bytes_same [mem_simps]:
  "n = length bs \<Longrightarrow> ld_bytes (st_bytes m a bs) a n = bs"
  by (rule nth_equalityI) (auto simp: ld_bytes_def st_bytes_def)

lemma ld_bytes_st_other [mem_simps]:
  "b + k \<le> a \<or> a + n \<le> b \<Longrightarrow> ld_bytes (st n m a v) b k = ld_bytes m b k"
  by (auto simp: ld_bytes_def st_def)

lemma take_bit_64 [simp]: "take_bit 64 (v :: u64) = v"
  by (rule take_bit_word_eq_self) simp

lemma ld_long_st_long_same [mem_simps]:
  "- (2 ^ 63) \<le> v \<Longrightarrow> v < 2 ^ 63 \<Longrightarrow> ld_long (st_long m a v) a = v"
  by (simp add: ld_long_def st_long_def ld_st_same sint_word_of_int)

lemma ld_int_st_int_same [mem_simps]:
  assumes "- (2 ^ 31) \<le> v" "v < 2 ^ 31"
  shows "ld_int (st_int m a v) a = v"
proof -
  have "ucast (take_bit 32 (ucast (word_of_int v :: u32) :: u64)) = (word_of_int v :: u32)"
    by (rule bit_word_eqI) (simp add: bit_simps)
  then show ?thesis
    using assms by (simp add: ld_int_def st_int_def ld_st_same sint_word_of_int)
qed

lemma unat_plus_1_less: "p < (hi :: u64) \<Longrightarrow> unat (p + 1) = unat p + 1"
  using unsigned_less [of hi, where ?'a = nat] by (simp add: unat_word_ariths word_less_nat_alt)

text \<open>Fields that do not overlap do not interfere.\<close>

lemma st_int_outside [mem_simps]: "i < a \<or> a + 4 \<le> i \<Longrightarrow> st_int m a v i = m i"
  by (simp add: st_int_def st_outside)

lemma st_long_outside [mem_simps]: "i < a \<or> a + 8 \<le> i \<Longrightarrow> st_long m a v i = m i"
  by (simp add: st_long_def st_outside)

lemma ld_st_int_other [mem_simps]: "b + k \<le> a \<or> a + 4 \<le> b \<Longrightarrow> ld k (st_int m a v) b = ld k m b"
  by (simp add: st_int_def ld_st_other)

lemma ld_st_long_other [mem_simps]: "b + k \<le> a \<or> a + 8 \<le> b \<Longrightarrow> ld k (st_long m a v) b = ld k m b"
  by (simp add: st_long_def ld_st_other)

lemma ld_int_other [mem_simps]:
  "b + 4 \<le> a \<or> a + n \<le> b \<Longrightarrow> ld_int (st n m a w) b = ld_int m b"
  "b + 4 \<le> a \<or> a + 4 \<le> b \<Longrightarrow> ld_int (st_int m a v) b = ld_int m b"
  "b + 4 \<le> a \<or> a + 8 \<le> b \<Longrightarrow> ld_int (st_long m a v) b = ld_int m b"
  "b + 4 \<le> a \<or> a + length bs \<le> b \<Longrightarrow> ld_int (st_bytes m a bs) b = ld_int m b"
  by (simp_all add: ld_int_def mem_simps)

lemma ld_long_other [mem_simps]:
  "b + 8 \<le> a \<or> a + n \<le> b \<Longrightarrow> ld_long (st n m a w) b = ld_long m b"
  "b + 8 \<le> a \<or> a + 4 \<le> b \<Longrightarrow> ld_long (st_int m a v) b = ld_long m b"
  "b + 8 \<le> a \<or> a + 8 \<le> b \<Longrightarrow> ld_long (st_long m a v) b = ld_long m b"
  "b + 8 \<le> a \<or> a + length bs \<le> b \<Longrightarrow> ld_long (st_bytes m a bs) b = ld_long m b"
  by (simp_all add: ld_long_def mem_simps)

lemma ld_bytes_other [mem_simps]:
  "b + k \<le> a \<or> a + 4 \<le> b \<Longrightarrow> ld_bytes (st_int m a v) b k = ld_bytes m b k"
  "b + k \<le> a \<or> a + 8 \<le> b \<Longrightarrow> ld_bytes (st_long m a v) b k = ld_bytes m b k"
  by (simp_all add: st_int_def st_long_def ld_bytes_st_other)

lemma ld_zero [simp]: "ld n (\<lambda>_. 0) a = 0"
  by (induction n arbitrary: a) simp_all

lemma ld_less: "n \<le> 8 \<Longrightarrow> unat (ld n m a) < 2 ^ (8 * n)"
proof -
  assume "n \<le> 8"
  then have "ld n m a = take_bit (8 * n) (ld n m a)"
    by (intro bit_word_eqI) (auto simp: bit_simps bit_ld)
  then show ?thesis by (metis unat_take_bit_less)
qed

lemma take_bit_small: "unat (v :: u64) < 2 ^ n \<Longrightarrow> take_bit n v = v"
  by (intro bit_word_eqI) (simp add: bit_simps, metis high_bits_zero not_less)

subsection \<open>The page-stepping loop\<close>

text \<open>
  \<open>for (addr = from; addr < to; addr += PAGE_SIZE) body\<close> on \<open>unsigned long\<close>. The counter
  wraps, so a bound within one page of \<open>2 ^ 64\<close> makes the C loop run for ever: the result
  is an option. A body that breaks out of the loop says so with the flag it returns.
\<close>

partial_function (option) for_pages ::
  "(u64 \<Rightarrow> 's \<Rightarrow> bool \<times> 's) \<Rightarrow> u64 \<Rightarrow> u64 \<Rightarrow> 's \<Rightarrow> 's option" where
  "for_pages body to addr s =
     (if addr < to
      then (case body addr s of
              (stop, s') \<Rightarrow> if stop then Some s' else for_pages body to (addr + PAGE_SIZE) s')
      else Some s)"

text \<open>The addresses the loop visits.\<close>

definition page_addrs :: "u64 \<Rightarrow> u64 \<Rightarrow> u64 list" where
  "page_addrs from to =
     map (\<lambda>i. from + of_nat i * PAGE_SIZE) [0..<(unat to - unat from + 4095) div 4096]"

text \<open>The loop as a recursion over a list of addresses, stopping at the first break.\<close>

primrec visit :: "(u64 \<Rightarrow> 's \<Rightarrow> bool \<times> 's) \<Rightarrow> u64 list \<Rightarrow> 's \<Rightarrow> 's" where
  "visit body [] s = s"
| "visit body (a # as) s = (case body a s of (stop, s') \<Rightarrow> if stop then s' else visit body as s')"

lemma page_addrs_done: "\<not> from < to \<Longrightarrow> page_addrs from to = []"
  by (simp add: page_addrs_def word_less_nat_alt not_less)

lemma pages_left_step:
  fixes f t :: nat
  assumes "f < t"
  shows "(t - f + 4095) div 4096 = Suc ((t - (f + 4096) + 4095) div 4096)"
proof (cases "t - f \<le> 4096")
  case True
  then have "t - f + 4095 = (t - f - 1) + 4096" "t - f - 1 < 4096"
    using assms by auto
  then have "(t - f + 4095) div 4096 = 1" by auto
  with True show ?thesis by simp
next
  case False
  define e where "e = t - (f + 4096) + 4095"
  have "t - f + 4095 = e + 4096" using False by (simp add: e_def)
  moreover have "(e + 4096) div 4096 = Suc (e div 4096)" by simp
  ultimately show ?thesis by (simp only: e_def)
qed

lemma page_addrs_step:
  assumes "from < to" "unat to \<le> 2 ^ 64 - 4096"
  shows "page_addrs from to = from # page_addrs (from + PAGE_SIZE) to"
proof -
  let ?k = "(unat to - unat (from + PAGE_SIZE) + 4095) div 4096"
  have lt: "unat from < unat to" using assms(1) by (simp add: word_less_nat_alt)
  then have "unat (from + PAGE_SIZE) = unat from + 4096"
    using assms(2) by (simp add: unat_word_ariths)
  then have "(unat to - unat from + 4095) div 4096 = Suc ?k"
    using pages_left_step [OF lt] by simp
  then have "page_addrs from to = map (\<lambda>i. from + of_nat i * PAGE_SIZE) [0..<Suc ?k]"
    by (simp only: page_addrs_def)
  also have "\<dots> = from # map (\<lambda>i. (from + PAGE_SIZE) + of_nat i * PAGE_SIZE) [0..<?k]"
    by (simp only: map_upt_Suc of_nat_Suc of_nat_0 distrib_right mult_1_left mult_zero_left
        add_0_right add.assoc) simp
  finally show ?thesis by (simp only: page_addrs_def)
qed

lemma for_pages_visit:
  assumes "unat to \<le> 2 ^ 64 - 4096"
  shows "for_pages body to from s = Some (visit body (page_addrs from to) s)"
proof (induction "page_addrs from to" arbitrary: "from" s)
  case Nil
  then have "\<not> from < to"
    using page_addrs_step [OF _ assms] by fastforce
  then show ?case
    using Nil by (simp add: for_pages.simps)
next
  case (Cons a as)
  then have "from < to" using page_addrs_done by fastforce
  note eq = page_addrs_step [OF this assms]
  show ?case
    using Cons.hyps \<open>from < to\<close>
    by (subst for_pages.simps) (auto simp: eq split: prod.splits)
qed

lemma visit_no_break:
  "(\<And>a s. a \<in> set as \<Longrightarrow> body a s = (False, g a s)) \<Longrightarrow> visit body as s = fold g as s"
  by (induction as arbitrary: s) auto

lemma set_page_addrs:
  assumes "unat to \<le> 2 ^ 64 - 4096" "from \<le> to"
  shows "a \<in> set (page_addrs from to) \<longleftrightarrow>
    from \<le> a \<and> a < to \<and> unat (a - from) mod 4096 = 0"
proof
  assume "a \<in> set (page_addrs from to)"
  then obtain i where a: "a = from + of_nat i * PAGE_SIZE"
    and "i \<in> {0..<(unat to - unat from + 4095) div 4096}"
    unfolding page_addrs_def set_map set_upt by (rule imageE)
  then have i: "i < (unat to - unat from + 4095) div 4096" by simp
  then have lt: "i * 4096 < unat to - unat from" by auto
  then have small: "i * 4096 < 2 ^ 64" "unat from + i * 4096 < 2 ^ 64"
    using unsigned_less [of to, where ?'a = nat] by auto
  then have "unat (of_nat i * PAGE_SIZE :: u64) = i * 4096"
    using unat_of_nat [of "i * 4096", where 'a = 64] by simp
  with small a lt show "from \<le> a \<and> a < to \<and> unat (a - from) mod 4096 = 0"
    by (auto simp: word_le_nat_alt word_less_nat_alt unat_word_ariths)
next
  assume r: "from \<le> a \<and> a < to \<and> unat (a - from) mod 4096 = 0"
  then have d: "unat (a - from) = unat a - unat from"
    by (simp add: unat_sub)
  let ?i = "unat (a - from) div 4096"
  have "?i * 4096 = unat (a - from)" using r by auto
  then have "(of_nat (?i * 4096) :: u64) = a - from" by simp
  then have "a = from + of_nat ?i * PAGE_SIZE" by (simp add: algebra_simps)
  moreover have "?i < (unat to - unat from + 4095) div 4096"
    using r d by (auto simp: word_less_nat_alt word_le_nat_alt)
  ultimately show "a \<in> set (page_addrs from to)"
    unfolding page_addrs_def by (metis (mono_tags, lifting) atLeast0LessThan image_eqI lessThan_iff
        set_map set_upt)
qed

end
