(* ===== verification/Ptedit.thy ===== *)
theory Ptedit
  imports Acai_Prelude
begin

text \<open>
  The page-table editor header \<open>src/fpga_driver/fh_host/ptedit_header.h\<close>, x86-64 branch:
  the entry structure, bit fields, the user-space page walk and its inverse update, frame-number
  and memory-type accessors, and single-bit edits. Physical memory is a map from the physical
  address of an entry to the 64-bit entry stored there; reading it with \<open>pread\<close> or through
  the \<open>/proc/umem\<close> mapping is the same look-up.
\<close>

subsection \<open>Structures\<close>

type_synonym phys = "u64 \<Rightarrow> u64"

record ptedit_entry_t =
  e_pid :: u64
  e_vaddr :: u64
  e_pgd :: u64
  e_p4d :: u64
  e_pud :: u64
  e_pmd :: u64
  e_pte :: u64
  e_valid :: u64

definition PTEDIT_VALID_MASK_PGD :: u64 where "PTEDIT_VALID_MASK_PGD = 1"
definition PTEDIT_VALID_MASK_P4D :: u64 where "PTEDIT_VALID_MASK_P4D = 2"
definition PTEDIT_VALID_MASK_PUD :: u64 where "PTEDIT_VALID_MASK_PUD = 4"
definition PTEDIT_VALID_MASK_PMD :: u64 where "PTEDIT_VALID_MASK_PMD = 8"
definition PTEDIT_VALID_MASK_PTE :: u64 where "PTEDIT_VALID_MASK_PTE = 16"

lemmas valid_masks = PTEDIT_VALID_MASK_PGD_def PTEDIT_VALID_MASK_P4D_def
  PTEDIT_VALID_MASK_PUD_def PTEDIT_VALID_MASK_PMD_def PTEDIT_VALID_MASK_PTE_def

abbreviation PTEDIT_PAGE_BIT_PWT :: nat where "PTEDIT_PAGE_BIT_PWT \<equiv> 3"
abbreviation PTEDIT_PAGE_BIT_PCD :: nat where "PTEDIT_PAGE_BIT_PCD \<equiv> 4"
abbreviation PTEDIT_PAGE_BIT_PAT :: nat where "PTEDIT_PAGE_BIT_PAT \<equiv> 7"
abbreviation PTEDIT_PAGE_BIT_PAT_LARGE :: nat where "PTEDIT_PAGE_BIT_PAT_LARGE \<equiv> 12"

text \<open>
  The bit fields of \<open>ptedit_pgd_t\<close> (and the p4d, pud, pmd aliases of it) and
  \<open>ptedit_pte_t\<close>: \<open>present\<close> is bit 0, \<open>size\<close> bit 7, \<open>pfn\<close> the 28 bits from bit 12.
\<close>

definition pgd_present :: "u64 \<Rightarrow> bool" where "pgd_present e \<longleftrightarrow> bit e 0"
definition pgd_size :: "u64 \<Rightarrow> bool" where "pgd_size e \<longleftrightarrow> bit e 7"
definition pgd_pfn :: "u64 \<Rightarrow> u64" where "pgd_pfn e = take_bit 28 (drop_bit 12 e)"

record ptedit_paging_definition_t =
  has_pgd :: bool
  has_p4d :: bool
  has_pud :: bool
  has_pmd :: bool
  has_pt :: bool
  pgd_entries :: nat
  p4d_entries :: nat
  pud_entries :: nat
  pmd_entries :: nat
  pt_entries :: nat
  page_offset :: nat

text \<open>The geometry \<open>ptedit_init\<close> installs on x86-64.\<close>

definition ptedit_paging_definition :: ptedit_paging_definition_t where
  "ptedit_paging_definition =
     \<lparr>has_pgd = True, has_p4d = False, has_pud = True, has_pmd = True, has_pt = True,
      pgd_entries = 9, p4d_entries = 0, pud_entries = 9, pmd_entries = 9, pt_entries = 9,
      page_offset = 12\<rparr>"

subsection \<open>The page walk\<close>

text \<open>Index of an address in the table of a level: the entry bits above the lower levels.\<close>

definition pti :: "ptedit_paging_definition_t \<Rightarrow> u64 \<Rightarrow> u64" where
  "pti d addr = take_bit (pt_entries d) (drop_bit (page_offset d) addr)"

definition pmdi :: "ptedit_paging_definition_t \<Rightarrow> u64 \<Rightarrow> u64" where
  "pmdi d addr = take_bit (pmd_entries d) (drop_bit (page_offset d + pt_entries d) addr)"

definition pudi :: "ptedit_paging_definition_t \<Rightarrow> u64 \<Rightarrow> u64" where
  "pudi d addr =
     take_bit (pud_entries d) (drop_bit (page_offset d + pt_entries d + pmd_entries d) addr)"

definition p4di :: "ptedit_paging_definition_t \<Rightarrow> u64 \<Rightarrow> u64" where
  "p4di d addr =
     take_bit (p4d_entries d)
       (drop_bit (page_offset d + pt_entries d + pmd_entries d + pud_entries d) addr)"

definition pgdi :: "ptedit_paging_definition_t \<Rightarrow> u64 \<Rightarrow> u64" where
  "pgdi d addr =
     take_bit (pgd_entries d)
       (drop_bit (page_offset d + pt_entries d + pmd_entries d + pud_entries d + p4d_entries d)
          addr)"

text \<open>Physical address of entry \<open>i\<close> of the table in frame \<open>pfn\<close>.\<close>

definition slot :: "u64 \<Rightarrow> u64 \<Rightarrow> u64" where
  "slot pfn i = pfn * 4096 + i * 8"

text \<open>\<open>root & ~1\<close>.\<close>

definition root_of :: "u64 \<Rightarrow> u64" where
  "root_of root = root AND NOT 1"

definition resolved0 :: "u64 \<Rightarrow> u64 \<Rightarrow> ptedit_entry_t" where
  "resolved0 addr pid = \<lparr>e_pid = pid, e_vaddr = addr, e_pgd = 0, e_p4d = 0, e_pud = 0,
     e_pmd = 0, e_pte = 0, e_valid = 0\<rparr>"

text \<open>
  \<open>ptedit_resolve_user_ext\<close>. The caller's \<open>paging_root\<close> gives the root of a process
  (\<open>ptedit_paging_root\<close> for pid 0, the kernel module's answer otherwise).
\<close>

definition ptedit_resolve_user_ext ::
  "ptedit_paging_definition_t \<Rightarrow> (u64 \<Rightarrow> u64) \<Rightarrow> phys \<Rightarrow> u64 \<Rightarrow> u64 \<Rightarrow> ptedit_entry_t" where
  "ptedit_resolve_user_ext d paging_root deref addr pid =
    (let root = root_of (paging_root pid);
         r0 = resolved0 addr pid
     in if root = 0 then r0
     else let pgd_entry = deref (root + pgdi d addr * 8)
     in if \<not> pgd_present pgd_entry then r0
     else let r1 = r0\<lparr>e_pgd := pgd_entry, e_valid := e_valid r0 OR PTEDIT_VALID_MASK_PGD\<rparr>;
          p4d_entry = (if has_p4d d then deref (slot (pgd_pfn pgd_entry) (p4di d addr))
                       else pgd_entry);
          r2 = (if has_p4d d then r1\<lparr>e_valid := e_valid r1 OR PTEDIT_VALID_MASK_P4D\<rparr> else r1)
               \<lparr>e_p4d := p4d_entry\<rparr>
     in if \<not> pgd_present p4d_entry then r2
     else let pud_entry = (if has_pud d then deref (slot (pgd_pfn p4d_entry) (pudi d addr))
                           else p4d_entry);
          r3 = (if has_pud d then r2\<lparr>e_valid := e_valid r2 OR PTEDIT_VALID_MASK_PUD\<rparr> else r2)
               \<lparr>e_pud := pud_entry\<rparr>
     in if \<not> pgd_present pud_entry then r3
     else let pmd_entry = (if has_pmd d then deref (slot (pgd_pfn pud_entry) (pmdi d addr))
                           else pud_entry);
          r4 = (if has_pmd d then r3\<lparr>e_valid := e_valid r3 OR PTEDIT_VALID_MASK_PMD\<rparr> else r3)
               \<lparr>e_pmd := pmd_entry\<rparr>
     in if \<not> pgd_present pmd_entry then r4
     else if pgd_size pmd_entry then r4
     else let pt_entry = deref (slot (pgd_pfn pmd_entry) (pti d addr))
     in r4\<lparr>e_pte := pt_entry, e_valid := e_valid r4 OR PTEDIT_VALID_MASK_PTE\<rparr>)"

text \<open>
  \<open>ptedit_update_user_ext\<close>: writes the levels valid in both \<open>vm\<close> and the current
  translation, bottom up. The TLB invalidation that follows has no effect on memory.
\<close>

definition pset_if :: "bool \<Rightarrow> u64 \<Rightarrow> u64 \<Rightarrow> phys \<Rightarrow> phys" where
  "pset_if c a v m = (if c then m(a := v) else m)"

definition both_valid :: "ptedit_entry_t \<Rightarrow> ptedit_entry_t \<Rightarrow> u64 \<Rightarrow> bool" where
  "both_valid vm cur lvl \<longleftrightarrow> e_valid vm AND lvl \<noteq> 0 \<and> e_valid cur AND lvl \<noteq> 0"

definition ptedit_update_user_ext ::
  "ptedit_paging_definition_t \<Rightarrow> (u64 \<Rightarrow> u64) \<Rightarrow> phys \<Rightarrow> u64 \<Rightarrow> u64 \<Rightarrow> ptedit_entry_t \<Rightarrow> phys" where
  "ptedit_update_user_ext d paging_root m addr pid vm =
    (let current = ptedit_resolve_user_ext d paging_root m addr pid;
         root = root_of (paging_root pid)
     in if root = 0 then m
     else let
       m1 = pset_if (both_valid vm current PTEDIT_VALID_MASK_PTE)
              (slot (pgd_pfn (e_pmd current)) (pti d addr)) (e_pte vm) m;
       m2 = pset_if (both_valid vm current PTEDIT_VALID_MASK_PMD \<and> has_pmd d)
              (slot (pgd_pfn (e_pud current)) (pmdi d addr)) (e_pmd vm) m1;
       m3 = pset_if (both_valid vm current PTEDIT_VALID_MASK_PUD \<and> has_pud d)
              (slot (pgd_pfn (e_p4d current)) (pudi d addr)) (e_pud vm) m2;
       m4 = pset_if (both_valid vm current PTEDIT_VALID_MASK_P4D \<and> has_p4d d)
              (slot (pgd_pfn (e_pgd current)) (p4di d addr)) (e_p4d vm) m3
     in pset_if (both_valid vm current PTEDIT_VALID_MASK_PGD \<and> has_pgd d)
              (root + pgdi d addr * 8) (e_pgd vm) m4)"

subsection \<open>Frame numbers\<close>

definition pfn_mask :: u64 where
  "pfn_mask = push_bit 12 (mask 40)"

definition ptedit_set_pfn :: "u64 \<Rightarrow> u64 \<Rightarrow> u64" where
  "ptedit_set_pfn pte pfn = (pte AND NOT pfn_mask) OR push_bit 12 pfn"

definition ptedit_get_pfn :: "u64 \<Rightarrow> u64" where
  "ptedit_get_pfn pte = drop_bit 12 (pte AND pfn_mask)"

subsection \<open>Memory types\<close>

text \<open>\<open>(mts >> (i * 8)) & 7\<close> for the eight PAT slots; \<open>found\<close> has bit \<open>i\<close> for a match.\<close>

definition ptedit_find_mt :: "u64 \<Rightarrow> u8 \<Rightarrow> u8" where
  "ptedit_find_mt mts type =
     fold (\<lambda>i found. if drop_bit (i * 8) mts AND 7 = ucast type then found OR push_bit i 1 else found)
       [0..<8] 0"

definition apply_mt_bits :: "nat \<Rightarrow> u64 \<Rightarrow> u8 \<Rightarrow> u64" where
  "apply_mt_bits pat entry mt =
    (let e0 = entry AND NOT (push_bit PTEDIT_PAGE_BIT_PWT 1 OR push_bit PTEDIT_PAGE_BIT_PCD 1
                             OR push_bit pat 1);
         e1 = (if mt AND 1 \<noteq> 0 then e0 OR push_bit PTEDIT_PAGE_BIT_PWT 1 else e0);
         e2 = (if mt AND 2 \<noteq> 0 then e1 OR push_bit PTEDIT_PAGE_BIT_PCD 1 else e1)
     in if mt AND 4 \<noteq> 0 then e2 OR push_bit pat 1 else e2)"

definition ptedit_apply_mt :: "u64 \<Rightarrow> u8 \<Rightarrow> u64" where
  "ptedit_apply_mt = apply_mt_bits PTEDIT_PAGE_BIT_PAT"

definition ptedit_apply_mt_huge :: "u64 \<Rightarrow> u8 \<Rightarrow> u64" where
  "ptedit_apply_mt_huge = apply_mt_bits PTEDIT_PAGE_BIT_PAT_LARGE"

definition extract_mt_bits :: "nat \<Rightarrow> u64 \<Rightarrow> u8" where
  "extract_mt_bits pat entry =
     of_bool (bit entry PTEDIT_PAGE_BIT_PWT)
     OR push_bit 1 (of_bool (bit entry PTEDIT_PAGE_BIT_PCD))
     OR push_bit 2 (of_bool (bit entry pat))"

definition ptedit_extract_mt :: "u64 \<Rightarrow> u8" where
  "ptedit_extract_mt = extract_mt_bits PTEDIT_PAGE_BIT_PAT"

definition ptedit_extract_mt_huge :: "u64 \<Rightarrow> u8" where
  "ptedit_extract_mt_huge = extract_mt_bits PTEDIT_PAGE_BIT_PAT_LARGE"

subsection \<open>Edits through a resolve and an update\<close>

text \<open>
  The remaining functions go through the installed implementation pair \<open>ptedit_resolve\<close>,
  \<open>ptedit_update\<close>, here the arguments \<open>resolve\<close> and \<open>update\<close>.
\<close>

type_synonym resolve_t = "phys \<Rightarrow> u64 \<Rightarrow> u64 \<Rightarrow> ptedit_entry_t"
type_synonym update_t = "phys \<Rightarrow> u64 \<Rightarrow> u64 \<Rightarrow> ptedit_entry_t \<Rightarrow> phys"

definition pte_edit :: "resolve_t \<Rightarrow> update_t \<Rightarrow> (u64 \<Rightarrow> u64) \<Rightarrow> phys \<Rightarrow> u64 \<Rightarrow> u64 \<Rightarrow> phys" where
  "pte_edit resolve update f m addr pid =
    (let vm = resolve m addr pid
     in if e_valid vm AND PTEDIT_VALID_MASK_PTE = 0 then m
        else update m addr pid (vm\<lparr>e_pte := f (e_pte vm), e_valid := PTEDIT_VALID_MASK_PTE\<rparr>))"

definition ptedit_pte_set_bit :: "resolve_t \<Rightarrow> update_t \<Rightarrow> phys \<Rightarrow> u64 \<Rightarrow> u64 \<Rightarrow> nat \<Rightarrow> phys" where
  "ptedit_pte_set_bit resolve update m addr pid b =
     pte_edit resolve update (\<lambda>e. e OR push_bit b 1) m addr pid"

definition ptedit_pte_clear_bit :: "resolve_t \<Rightarrow> update_t \<Rightarrow> phys \<Rightarrow> u64 \<Rightarrow> u64 \<Rightarrow> nat \<Rightarrow> phys" where
  "ptedit_pte_clear_bit resolve update m addr pid b =
     pte_edit resolve update (\<lambda>e. e AND NOT (push_bit b 1)) m addr pid"

definition ptedit_pte_get_bit :: "resolve_t \<Rightarrow> phys \<Rightarrow> u64 \<Rightarrow> u64 \<Rightarrow> nat \<Rightarrow> bool" where
  "ptedit_pte_get_bit resolve m addr pid b \<longleftrightarrow> e_pte (resolve m addr pid) AND push_bit b 1 \<noteq> 0"

definition ptedit_pte_get_pfn :: "resolve_t \<Rightarrow> phys \<Rightarrow> u64 \<Rightarrow> u64 \<Rightarrow> u64" where
  "ptedit_pte_get_pfn resolve m addr pid =
    (let vm = resolve m addr pid
     in if e_valid vm AND PTEDIT_VALID_MASK_PTE = 0 then 0 else ptedit_get_pfn (e_pte vm))"

definition ptedit_pte_set_pfn :: "resolve_t \<Rightarrow> update_t \<Rightarrow> phys \<Rightarrow> u64 \<Rightarrow> u64 \<Rightarrow> u64 \<Rightarrow> phys" where
  "ptedit_pte_set_pfn resolve update m addr pid pfn =
     pte_edit resolve update (\<lambda>e. ptedit_set_pfn e pfn) m addr pid"

text \<open>
  \<open>ptedit_set_bit\<close> and \<open>ptedit_clear_bit\<close> edit every level named in
  \<open>paging_affected_levels\<close>; \<open>f\<close> sets or clears the bit of one entry.
\<close>

definition levels_edit ::
  "(u64 \<Rightarrow> u64) \<Rightarrow> ptedit_paging_definition_t \<Rightarrow> u64 \<Rightarrow> ptedit_entry_t \<Rightarrow> ptedit_entry_t" where
  "levels_edit f d levels vm =
    (let hit = (\<lambda>v lvl. e_valid v AND lvl \<noteq> 0 \<and> levels AND lvl \<noteq> 0);
         v1 = (if hit vm PTEDIT_VALID_MASK_PTE then
                 vm\<lparr>e_pte := f (e_pte vm), e_valid := e_valid vm OR PTEDIT_VALID_MASK_PTE\<rparr> else vm);
         v2 = (if hit v1 PTEDIT_VALID_MASK_PMD \<and> has_pmd d then
                 v1\<lparr>e_pmd := f (e_pmd v1), e_valid := e_valid v1 OR PTEDIT_VALID_MASK_PMD\<rparr> else v1);
         v3 = (if hit v2 PTEDIT_VALID_MASK_PUD \<and> has_pud d then
                 v2\<lparr>e_pud := f (e_pud v2), e_valid := e_valid v2 OR PTEDIT_VALID_MASK_PUD\<rparr> else v2);
         v4 = (if hit v3 PTEDIT_VALID_MASK_P4D \<and> has_p4d d then
                 v3\<lparr>e_p4d := f (e_p4d v3), e_valid := e_valid v3 OR PTEDIT_VALID_MASK_P4D\<rparr> else v3)
     in if hit v4 PTEDIT_VALID_MASK_PGD \<and> has_pgd d then
          v4\<lparr>e_pgd := f (e_pgd v4), e_valid := e_valid v4 OR PTEDIT_VALID_MASK_PGD\<rparr> else v4)"

definition ptedit_set_bit ::
  "resolve_t \<Rightarrow> update_t \<Rightarrow> ptedit_paging_definition_t \<Rightarrow> phys \<Rightarrow> u64 \<Rightarrow> u64 \<Rightarrow> nat \<Rightarrow> u64 \<Rightarrow> phys" where
  "ptedit_set_bit resolve update d m addr pid b levels =
     update m addr pid (levels_edit (\<lambda>e. e OR push_bit b 1) d levels (resolve m addr pid))"

definition ptedit_clear_bit ::
  "resolve_t \<Rightarrow> update_t \<Rightarrow> ptedit_paging_definition_t \<Rightarrow> phys \<Rightarrow> u64 \<Rightarrow> u64 \<Rightarrow> nat \<Rightarrow> u64 \<Rightarrow> phys" where
  "ptedit_clear_bit resolve update d m addr pid b levels =
     update m addr pid (levels_edit (\<lambda>e. e AND NOT (push_bit b 1)) d levels (resolve m addr pid))"

subsection \<open>Frame-number and memory-type round trips\<close>

lemma bit_pfn_mask: "bit pfn_mask k \<longleftrightarrow> 12 \<le> k \<and> k < 52"
  by (auto simp: pfn_mask_def bit_simps)

lemma get_pfn_set_pfn: "ptedit_get_pfn (ptedit_set_pfn pte pfn) = take_bit 40 pfn"
  by (rule bit_word_eqI)
    (auto simp: ptedit_get_pfn_def ptedit_set_pfn_def bit_simps bit_pfn_mask)

lemma pfn_high_zero: "unat p < 1099511627776 \<Longrightarrow> \<not> n < 52 \<Longrightarrow> \<not> bit (p :: u64) (n - 12)"
  using high_bits_zero [of p 40 "n - 12"] by simp

lemma set_pfn_set_pfn:
  "unat p < 2 ^ 40 \<Longrightarrow> ptedit_set_pfn (ptedit_set_pfn pte p) q = ptedit_set_pfn pte q"
  by (intro bit_word_eqI)
    (auto simp: ptedit_set_pfn_def bit_simps bit_pfn_mask dest: pfn_high_zero)

lemma set_pfn_get_pfn: "ptedit_set_pfn pte (ptedit_get_pfn pte) = pte"
  by (rule bit_word_eqI)
    (auto simp: ptedit_get_pfn_def ptedit_set_pfn_def bit_simps bit_pfn_mask)

lemma get_pfn_small: "unat (ptedit_get_pfn pte) < 2 ^ 40"
proof -
  have "ptedit_get_pfn pte = take_bit 40 (drop_bit 12 pte)"
    by (rule bit_word_eqI) (auto simp: ptedit_get_pfn_def bit_simps bit_pfn_mask)
  then show ?thesis by (simp only: unat_take_bit_less)
qed

lemma take_bit_get_pfn [simp]: "take_bit 40 (ptedit_get_pfn pte) = ptedit_get_pfn pte"
  by (rule bit_word_eqI) (auto simp: ptedit_get_pfn_def bit_simps bit_pfn_mask)

text \<open>Everything outside bits 12 to 51 survives a frame-number update.\<close>

lemma set_pfn_flags:
  assumes "unat pfn < 2 ^ 40"
  shows "ptedit_set_pfn pte pfn AND NOT pfn_mask = pte AND NOT pfn_mask"
  using assms by (intro bit_word_eqI)
    (auto simp: ptedit_set_pfn_def bit_simps bit_pfn_mask dest: pfn_high_zero)

lemma bit_and_pow2: "(x :: 'a::len word) AND push_bit k 1 \<noteq> 0 \<longleftrightarrow> bit x k"
  by (simp add: and_exp_eq_0_iff_not_bit)

lemma bit_pow2_consts:
  "bit (8 :: int) k \<longleftrightarrow> k = 3" "bit (16 :: int) k \<longleftrightarrow> k = 4"
  "bit (128 :: int) k \<longleftrightarrow> k = 7" "bit (4096 :: int) k \<longleftrightarrow> k = 12"
  using bit_exp_iff [of 3 k, where 'a = int] bit_exp_iff [of 4 k, where 'a = int]
    bit_exp_iff [of 7 k, where 'a = int] bit_exp_iff [of 12 k, where 'a = int]
  by auto

lemma bit_apply_mt_bits:
  assumes "pat = 7 \<or> pat = 12"
  shows "bit (apply_mt_bits pat e mt) k \<longleftrightarrow>
    (if k = 3 then bit mt 0 else if k = 4 then bit mt 1 else if k = pat then bit mt 2 else bit e k)"
proof -
  have m: "mt AND 1 \<noteq> 0 \<longleftrightarrow> bit mt 0" "mt AND 2 \<noteq> 0 \<longleftrightarrow> bit mt 1" "mt AND 4 \<noteq> 0 \<longleftrightarrow> bit mt 2"
    using bit_and_pow2 [of mt 0] bit_and_pow2 [of mt 1] bit_and_pow2 [of mt 2] by simp_all
  show ?thesis
    using assms unfolding apply_mt_bits_def Let_def m
    by (auto simp: bit_simps bit_pow2_consts dest: bit_imp_le_length)
qed

lemma extract_apply_mt_bits:
  assumes "pat = 7 \<or> pat = 12"
  shows "extract_mt_bits pat (apply_mt_bits pat e mt) = mt AND 7"
proof (rule bit_word_eqI)
  fix n
  assume "n < LENGTH(8)"
  then have "bit (7 :: u8) n \<longleftrightarrow> n < 3"
    using bit_mask_iff [of 3 n, where 'a = u8] by (simp add: mask_eq_exp_minus_1)
  then show "bit (extract_mt_bits pat (apply_mt_bits pat e mt)) n = bit (mt AND 7) n"
    using assms \<open>n < LENGTH(8)\<close>
    by (auto simp: extract_mt_bits_def bit_apply_mt_bits bit_simps less_Suc_eq numeral_eq_Suc)
qed

lemma ptedit_find_mt_bits:
  "bit (ptedit_find_mt mts type) i \<longleftrightarrow> i < 8 \<and> drop_bit (i * 8) mts AND 7 = ucast type"
proof -
  have step: "bit (fold (\<lambda>i found. if P i then found OR push_bit i (1 :: u8) else found) xs s) i \<longleftrightarrow>
      bit s i \<or> (i < 8 \<and> i \<in> set xs \<and> P i)" for P xs s
    by (induction xs arbitrary: s) (auto simp: bit_simps bit_exp_iff)
  show ?thesis
    unfolding ptedit_find_mt_def step by auto
qed

subsection \<open>Walking again after an edit of the last level\<close>

text \<open>
  Physical addresses the walk reads above the last level, and the slot of the last-level entry.
  An edit of the last level is seen by the next walk, and by nothing else of it, when the slot is
  not one of the entries read on the way down.
\<close>

definition w_pgd :: "ptedit_paging_definition_t \<Rightarrow> u64 \<Rightarrow> phys \<Rightarrow> u64 \<Rightarrow> u64" where
  "w_pgd d root m addr = m (root + pgdi d addr * 8)"

definition w_p4d :: "ptedit_paging_definition_t \<Rightarrow> u64 \<Rightarrow> phys \<Rightarrow> u64 \<Rightarrow> u64" where
  "w_p4d d root m addr =
     (if has_p4d d then m (slot (pgd_pfn (w_pgd d root m addr)) (p4di d addr))
      else w_pgd d root m addr)"

definition w_pud :: "ptedit_paging_definition_t \<Rightarrow> u64 \<Rightarrow> phys \<Rightarrow> u64 \<Rightarrow> u64" where
  "w_pud d root m addr =
     (if has_pud d then m (slot (pgd_pfn (w_p4d d root m addr)) (pudi d addr))
      else w_p4d d root m addr)"

definition w_pmd :: "ptedit_paging_definition_t \<Rightarrow> u64 \<Rightarrow> phys \<Rightarrow> u64 \<Rightarrow> u64" where
  "w_pmd d root m addr =
     (if has_pmd d then m (slot (pgd_pfn (w_pud d root m addr)) (pmdi d addr))
      else w_pud d root m addr)"

definition pte_slot :: "ptedit_paging_definition_t \<Rightarrow> u64 \<Rightarrow> phys \<Rightarrow> u64 \<Rightarrow> u64" where
  "pte_slot d root m addr = slot (pgd_pfn (w_pmd d root m addr)) (pti d addr)"

definition walk_above :: "ptedit_paging_definition_t \<Rightarrow> u64 \<Rightarrow> phys \<Rightarrow> u64 \<Rightarrow> u64 set" where
  "walk_above d root m addr =
     {root + pgdi d addr * 8}
     \<union> (if has_p4d d then {slot (pgd_pfn (w_pgd d root m addr)) (p4di d addr)} else {})
     \<union> (if has_pud d then {slot (pgd_pfn (w_p4d d root m addr)) (pudi d addr)} else {})
     \<union> (if has_pmd d then {slot (pgd_pfn (w_pud d root m addr)) (pmdi d addr)} else {})"

definition walk_complete :: "ptedit_paging_definition_t \<Rightarrow> u64 \<Rightarrow> phys \<Rightarrow> u64 \<Rightarrow> bool" where
  "walk_complete d root m addr \<longleftrightarrow> root \<noteq> 0 \<and> pgd_present (w_pgd d root m addr)
     \<and> pgd_present (w_p4d d root m addr) \<and> pgd_present (w_pud d root m addr)
     \<and> pgd_present (w_pmd d root m addr) \<and> \<not> pgd_size (w_pmd d root m addr)"

definition has_pte :: "ptedit_entry_t \<Rightarrow> bool" where
  "has_pte r \<longleftrightarrow> e_valid r AND PTEDIT_VALID_MASK_PTE \<noteq> 0"

definition level_bits :: "ptedit_paging_definition_t \<Rightarrow> u64" where
  "level_bits d = (((1 OR (if has_p4d d then 2 else 0)) OR (if has_pud d then 4 else 0))
     OR (if has_pmd d then 8 else 0)) OR 16"

lemma resolve_complete:
  assumes "walk_complete d (root_of (rt pid)) m addr"
  shows "ptedit_resolve_user_ext d rt m addr pid =
    \<lparr>e_pid = pid, e_vaddr = addr, e_pgd = w_pgd d (root_of (rt pid)) m addr,
     e_p4d = w_p4d d (root_of (rt pid)) m addr, e_pud = w_pud d (root_of (rt pid)) m addr,
     e_pmd = w_pmd d (root_of (rt pid)) m addr,
     e_pte = m (pte_slot d (root_of (rt pid)) m addr), e_valid = level_bits d\<rparr>"
  using assms unfolding walk_complete_def
  by (simp add: ptedit_resolve_user_ext_def w_pgd_def [symmetric] w_p4d_def [symmetric]
      w_pud_def [symmetric] w_pmd_def [symmetric] pte_slot_def [symmetric] resolved0_def
      valid_masks level_bits_def Let_def)

lemma resolve_incomplete:
  assumes "\<not> walk_complete d (root_of (rt pid)) m addr"
  shows "\<not> has_pte (ptedit_resolve_user_ext d rt m addr pid)"
  using assms unfolding walk_complete_def has_pte_def
  by (auto simp: ptedit_resolve_user_ext_def w_pgd_def [symmetric] w_p4d_def [symmetric]
      w_pud_def [symmetric] w_pmd_def [symmetric] resolved0_def valid_masks Let_def)

lemma level_bits_16: "level_bits d AND 16 = 16"
  by (simp add: level_bits_def)

lemma has_pte_iff:
  "has_pte (ptedit_resolve_user_ext d rt m addr pid) \<longleftrightarrow> walk_complete d (root_of (rt pid)) m addr"
proof
  assume "walk_complete d (root_of (rt pid)) m addr"
  from resolve_complete [of d rt pid m addr, OF this] show "has_pte (ptedit_resolve_user_ext d rt m addr pid)"
    by (simp add: has_pte_def valid_masks level_bits_16)
qed (use resolve_incomplete in blast)

text \<open>A store outside the entries read above the last level leaves those entries alone.\<close>

lemma walk_store:
  assumes "a \<notin> walk_above d root m addr"
  shows "w_pgd d root (m(a := v)) addr = w_pgd d root m addr"
    and "w_p4d d root (m(a := v)) addr = w_p4d d root m addr"
    and "w_pud d root (m(a := v)) addr = w_pud d root m addr"
    and "w_pmd d root (m(a := v)) addr = w_pmd d root m addr"
    and "pte_slot d root (m(a := v)) addr = pte_slot d root m addr"
    and "walk_complete d root (m(a := v)) addr = walk_complete d root m addr"
    and "walk_above d root (m(a := v)) addr = walk_above d root m addr"
proof -
  show 1: "w_pgd d root (m(a := v)) addr = w_pgd d root m addr"
    using assms by (auto simp: w_pgd_def walk_above_def)
  show 2: "w_p4d d root (m(a := v)) addr = w_p4d d root m addr"
    using assms by (auto simp: w_p4d_def walk_above_def 1)
  show 3: "w_pud d root (m(a := v)) addr = w_pud d root m addr"
    using assms by (auto simp: w_pud_def walk_above_def 2)
  show 4: "w_pmd d root (m(a := v)) addr = w_pmd d root m addr"
    using assms by (auto simp: w_pmd_def walk_above_def 3)
  show "pte_slot d root (m(a := v)) addr = pte_slot d root m addr"
    by (simp add: pte_slot_def 4)
  show "walk_complete d root (m(a := v)) addr = walk_complete d root m addr"
    by (simp add: walk_complete_def 1 2 3 4)
  show "walk_above d root (m(a := v)) addr = walk_above d root m addr"
    by (simp add: walk_above_def 1 2 3)
qed

text \<open>The walk reads only those entries and the slot of the last level.\<close>

lemma walk_agree:
  assumes "\<And>a. a \<in> walk_above d root m addr \<Longrightarrow> m' a = m a"
  shows "w_pgd d root m' addr = w_pgd d root m addr"
    and "w_p4d d root m' addr = w_p4d d root m addr"
    and "w_pud d root m' addr = w_pud d root m addr"
    and "w_pmd d root m' addr = w_pmd d root m addr"
proof -
  show 1: "w_pgd d root m' addr = w_pgd d root m addr"
    using assms by (auto simp: w_pgd_def walk_above_def)
  show 2: "w_p4d d root m' addr = w_p4d d root m addr"
    using assms by (auto simp: w_p4d_def walk_above_def 1)
  show 3: "w_pud d root m' addr = w_pud d root m addr"
    using assms by (auto simp: w_pud_def walk_above_def 2)
  show 4: "w_pmd d root m' addr = w_pmd d root m addr"
    using assms by (auto simp: w_pmd_def walk_above_def 3)
qed

lemma resolve_agree:
  assumes "\<And>a. a \<in> walk_above d (root_of (rt pid)) m addr \<Longrightarrow> m' a = m a"
    and "walk_complete d (root_of (rt pid)) m addr"
  shows "ptedit_resolve_user_ext d rt m' addr pid =
    (ptedit_resolve_user_ext d rt m addr pid)
      \<lparr>e_pte := m' (pte_slot d (root_of (rt pid)) m addr)\<rparr>"
proof -
  note w = walk_agree [OF assms(1)]
  have "walk_complete d (root_of (rt pid)) m' addr"
    using assms(2) by (simp add: walk_complete_def w)
  from resolve_complete [of d rt pid m' addr, OF this]
    resolve_complete [of d rt pid m addr, OF assms(2)] show ?thesis
    by (simp add: w pte_slot_def)
qed

lemma update_pte_only:
  assumes "has_pte (ptedit_resolve_user_ext d rt m addr pid)" "e_valid vm = PTEDIT_VALID_MASK_PTE"
  shows "ptedit_update_user_ext d rt m addr pid vm =
    m(pte_slot d (root_of (rt pid)) m addr := e_pte vm)"
proof -
  have c: "walk_complete d (root_of (rt pid)) m addr"
    using assms(1) by (simp only: has_pte_iff)
  show ?thesis
    using c assms(2) resolve_complete [of d rt pid m addr, OF c]
    by (simp add: ptedit_update_user_ext_def Let_def both_valid_def valid_masks level_bits_16
        pset_if_def pte_slot_def walk_complete_def)
qed

subsection \<open>The contract of a page-table implementation\<close>

text \<open>
  What the clients of the editor rely on: the last-level entry of a resolved address sits in a
  slot of physical memory (the entry of the address in the table the middle entry points to); a
  store to that slot changes the last-level entry and nothing else of the translation; an update
  restricted to the last level is that store. \<open>stable\<close> says that the slot of an address is not
  itself one of the entries its own walk goes through.
\<close>

locale page_tables =
  fixes resolve :: resolve_t
    and update :: update_t
    and stable :: "phys \<Rightarrow> u64 \<Rightarrow> u64 \<Rightarrow> bool"
    and pte_at :: "phys \<Rightarrow> u64 \<Rightarrow> u64 \<Rightarrow> u64"
  assumes stable_has_pte: "stable m addr pid \<Longrightarrow> has_pte (resolve m addr pid)"
    and pte_at_slot: "stable m addr pid \<Longrightarrow>
      pte_at m addr pid = slot (pgd_pfn (e_pmd (resolve m addr pid))) (take_bit 9 (drop_bit 12 addr))"
    and pte_read: "stable m addr pid \<Longrightarrow> e_pte (resolve m addr pid) = m (pte_at m addr pid)"
    and resolve_store: "stable m addr pid \<Longrightarrow>
      resolve (m(pte_at m addr pid := v)) addr pid = (resolve m addr pid)\<lparr>e_pte := v\<rparr>"
    and stable_store: "stable m addr pid \<Longrightarrow> stable (m(pte_at m addr pid := v)) addr pid"
    and update_store: "stable m addr pid \<Longrightarrow> e_valid vm = PTEDIT_VALID_MASK_PTE \<Longrightarrow>
      update m addr pid vm = m(pte_at m addr pid := e_pte vm)"
begin

lemma pte_edit_store:
  "stable m addr pid \<Longrightarrow>
   pte_edit resolve update f m addr pid = m(pte_at m addr pid := f (m (pte_at m addr pid)))"
  using stable_has_pte [of m addr pid] pte_read [of m addr pid]
    update_store [of m addr pid "(resolve m addr pid)\<lparr>e_pte := f (e_pte (resolve m addr pid)),
      e_valid := PTEDIT_VALID_MASK_PTE\<rparr>"]
  by (simp add: pte_edit_def Let_def has_pte_def)

lemma resolve_pte_edit:
  "stable m addr pid \<Longrightarrow>
   resolve (pte_edit resolve update f m addr pid) addr pid =
     (resolve m addr pid)\<lparr>e_pte := f (e_pte (resolve m addr pid))\<rparr>"
  by (simp add: pte_edit_store resolve_store pte_read)

lemma get_pfn_after_set_pfn:
  assumes "stable m addr pid"
  shows "ptedit_pte_get_pfn resolve (ptedit_pte_set_pfn resolve update m addr pid pfn) addr pid
    = take_bit 40 pfn"
  using stable_has_pte [OF assms]
  by (simp add: ptedit_pte_get_pfn_def ptedit_pte_set_pfn_def resolve_pte_edit [OF assms]
      has_pte_def get_pfn_set_pfn)

lemma get_bit_after_set_bit:
  assumes "stable m addr pid" "b < 64" "c < 64"
  shows "ptedit_pte_get_bit resolve (ptedit_pte_set_bit resolve update m addr pid b) addr pid c
    \<longleftrightarrow> c = b \<or> ptedit_pte_get_bit resolve m addr pid c"
  using assms(2,3)
  by (auto simp add: ptedit_pte_get_bit_def ptedit_pte_set_bit_def resolve_pte_edit [OF assms(1)]
      and_exp_eq_0_iff_not_bit bit_simps bit_exp_iff)

lemma get_bit_after_clear_bit:
  assumes "stable m addr pid" "b < 64" "c < 64"
  shows "ptedit_pte_get_bit resolve (ptedit_pte_clear_bit resolve update m addr pid b) addr pid c
    \<longleftrightarrow> c \<noteq> b \<and> ptedit_pte_get_bit resolve m addr pid c"
  using assms(2,3)
  by (auto simp add: ptedit_pte_get_bit_def ptedit_pte_clear_bit_def resolve_pte_edit [OF assms(1)]
      and_exp_eq_0_iff_not_bit bit_simps bit_exp_iff)

end

text \<open>The user-space walk of the header meets the contract on x86-64.\<close>

abbreviation x86_resolve :: "(u64 \<Rightarrow> u64) \<Rightarrow> resolve_t" where
  "x86_resolve rt \<equiv> ptedit_resolve_user_ext ptedit_paging_definition rt"

abbreviation x86_update :: "(u64 \<Rightarrow> u64) \<Rightarrow> update_t" where
  "x86_update rt \<equiv> ptedit_update_user_ext ptedit_paging_definition rt"

definition x86_pte_at :: "(u64 \<Rightarrow> u64) \<Rightarrow> phys \<Rightarrow> u64 \<Rightarrow> u64 \<Rightarrow> u64" where
  "x86_pte_at rt m addr pid = pte_slot ptedit_paging_definition (root_of (rt pid)) m addr"

definition x86_stable :: "(u64 \<Rightarrow> u64) \<Rightarrow> phys \<Rightarrow> u64 \<Rightarrow> u64 \<Rightarrow> bool" where
  "x86_stable rt m addr pid \<longleftrightarrow>
     walk_complete ptedit_paging_definition (root_of (rt pid)) m addr
     \<and> x86_pte_at rt m addr pid
         \<notin> walk_above ptedit_paging_definition (root_of (rt pid)) m addr"

lemma x86_pti: "pti ptedit_paging_definition addr = take_bit 9 (drop_bit 12 addr)"
  by (simp add: pti_def ptedit_paging_definition_def)

interpretation x86: page_tables "x86_resolve rt" "x86_update rt" "x86_stable rt" "x86_pte_at rt" for rt
proof
  fix m addr pid v and vm :: ptedit_entry_t
  let ?d = ptedit_paging_definition and ?root = "root_of (rt pid)"
  assume s: "x86_stable rt m addr pid"
  then have c: "walk_complete ?d ?root m addr"
    and a: "pte_slot ?d ?root m addr \<notin> walk_above ?d ?root m addr"
    by (auto simp: x86_stable_def x86_pte_at_def)
  note r = resolve_complete [of ?d rt pid m addr, OF c]
  note w = walk_store [OF a]
  show "has_pte (x86_resolve rt m addr pid)"
    using c by (simp only: has_pte_iff)
  show "x86_pte_at rt m addr pid =
      slot (pgd_pfn (e_pmd (x86_resolve rt m addr pid))) (take_bit 9 (drop_bit 12 addr))"
    by (simp add: r x86_pte_at_def pte_slot_def x86_pti)
  show "e_pte (x86_resolve rt m addr pid) = m (x86_pte_at rt m addr pid)"
    by (simp add: r x86_pte_at_def)
  have c': "walk_complete ?d ?root (m(pte_slot ?d ?root m addr := v)) addr"
    using c w by simp
  show "x86_resolve rt (m(x86_pte_at rt m addr pid := v)) addr pid =
      (x86_resolve rt m addr pid)\<lparr>e_pte := v\<rparr>"
    by (simp add: x86_pte_at_def r resolve_complete [of ?d rt pid _ addr, OF c'] w)
  show "x86_stable rt (m(x86_pte_at rt m addr pid := v)) addr pid"
    using a c by (simp add: x86_stable_def x86_pte_at_def w)
  assume "e_valid vm = PTEDIT_VALID_MASK_PTE"
  then show "x86_update rt m addr pid vm = m(x86_pte_at rt m addr pid := e_pte vm)"
    unfolding x86_pte_at_def using c by (intro update_pte_only) (simp_all only: has_pte_iff)
qed

subsection \<open>Properties of the editor\<close>

text \<open>C13: Setting a frame number. On a translated address whose last-level entry is not part of its own
  walk, \<open>ptedit_pte_set_pfn\<close> makes the next walk return an entry with the new frame number (its
  40 bits), all flag bits and all other levels unchanged, and touches no other entry of memory.\<close>

theorem ptedit_pte_set_pfn_round_trip:
  assumes "x86_stable rt m addr pid" "unat pfn < 2 ^ 40"
    and "m' = ptedit_pte_set_pfn (x86_resolve rt) (x86_update rt) m addr pid pfn"
  shows "ptedit_pte_get_pfn (x86_resolve rt) m' addr pid = pfn
    \<and> e_pte (x86_resolve rt m' addr pid) AND NOT pfn_mask = e_pte (x86_resolve rt m addr pid) AND NOT pfn_mask
    \<and> (x86_resolve rt m' addr pid)\<lparr>e_pte := 0\<rparr> = (x86_resolve rt m addr pid)\<lparr>e_pte := 0\<rparr>
    \<and> (\<forall>a. a \<noteq> x86_pte_at rt m addr pid \<longrightarrow> m' a = m a)"
proof -
  have "take_bit 40 pfn = pfn"
    using assms(2) by (rule take_bit_small)
  then have "ptedit_pte_get_pfn (x86_resolve rt) m' addr pid = pfn"
    using x86.get_pfn_after_set_pfn [OF assms(1), of pfn] assms(3) by simp
  moreover have "x86_resolve rt m' addr pid =
      (x86_resolve rt m addr pid)\<lparr>e_pte := ptedit_set_pfn (e_pte (x86_resolve rt m addr pid)) pfn\<rparr>"
    using x86.resolve_pte_edit [OF assms(1)] by (simp add: assms(3) ptedit_pte_set_pfn_def)
  ultimately show ?thesis
    using set_pfn_flags [OF assms(2)] x86.pte_edit_store [OF assms(1)]
    by (simp add: assms(3) ptedit_pte_set_pfn_def)
qed

text \<open>Setting and clearing single bits of the last-level entry: the edited bit reads back as set
  (or cleared), every other bit as before.\<close>

theorem ptedit_bit_edits:
  assumes "x86_stable rt m addr pid" "b < 64" "c < 64"
  shows "(ptedit_pte_get_bit (x86_resolve rt) (ptedit_pte_set_bit (x86_resolve rt) (x86_update rt) m addr pid b) addr pid c
      \<longleftrightarrow> c = b \<or> ptedit_pte_get_bit (x86_resolve rt) m addr pid c)
    \<and> (ptedit_pte_get_bit (x86_resolve rt) (ptedit_pte_clear_bit (x86_resolve rt) (x86_update rt) m addr pid b) addr pid c
      \<longleftrightarrow> c \<noteq> b \<and> ptedit_pte_get_bit (x86_resolve rt) m addr pid c)"
  using x86.get_bit_after_set_bit [OF assms] x86.get_bit_after_clear_bit [OF assms] by blast

lemma bits_outside_pat:
  assumes "pat = 7 \<or> pat = 12" "M = push_bit 3 1 OR push_bit 4 1 OR (push_bit pat 1 :: u64)"
  shows "apply_mt_bits pat e mt AND NOT M = e AND NOT M"
  using assms by (intro bit_word_eqI) (auto simp: bit_simps bit_apply_mt_bits bit_pow2_consts)

text \<open>Memory types. Applying a memory type to an entry of a small or of a large page and
  extracting it again gives the three bits of the type, and no bit other than write-through,
  cache-disable and the attribute bit of that page size changes.\<close>

theorem ptedit_memory_type_round_trip:
  "ptedit_extract_mt (ptedit_apply_mt e mt) = mt AND 7
    \<and> ptedit_extract_mt_huge (ptedit_apply_mt_huge e mt) = mt AND 7
    \<and> ptedit_apply_mt e mt AND NOT (push_bit 3 1 OR push_bit 4 1 OR push_bit 7 1)
        = e AND NOT (push_bit 3 1 OR push_bit 4 1 OR push_bit 7 1)
    \<and> ptedit_apply_mt_huge e mt AND NOT (push_bit 3 1 OR push_bit 4 1 OR push_bit 12 1)
        = e AND NOT (push_bit 3 1 OR push_bit 4 1 OR push_bit 12 1)"
  unfolding ptedit_extract_mt_def ptedit_apply_mt_def ptedit_extract_mt_huge_def ptedit_apply_mt_huge_def
  by (intro conjI extract_apply_mt_bits bits_outside_pat refl) simp_all

text \<open>Two small address spaces, one page each, to run the editor on.\<close>

definition demo_roots :: "u64 \<Rightarrow> u64" where
  "demo_roots pid = (if pid = 0 then 0x1000 else if pid = 7 then 0x5000 else 0)"

definition demo_phys :: phys where
  "demo_phys = (\<lambda>a. if a = 0x1000 then 0x2001 else if a = 0x2000 then 0x3001
     else if a = 0x3000 then 0x4001 else if a = 0x4008 then 0x7A067
     else if a = 0x5000 then 0x6001 else if a = 0x6000 then 0x7001
     else if a = 0x7000 then 0x8001 else if a = 0x8010 then 0x9B067 else 0)"

lemma demo_stable: "x86_stable demo_roots demo_phys 0x1000 0"
  by code_simp

theorem ptedit_pte_set_pfn_round_trip_witness:
  "ptedit_pte_get_pfn (x86_resolve demo_roots)
     (ptedit_pte_set_pfn (x86_resolve demo_roots) (x86_update demo_roots) demo_phys 0x1000 0 0x9B) 0x1000 0 = 0x9B"
  using ptedit_pte_set_pfn_round_trip [OF demo_stable, of "0x9B"] by simp

theorem ptedit_bit_edits_witness:
  "ptedit_pte_get_bit (x86_resolve demo_roots)
     (ptedit_pte_set_bit (x86_resolve demo_roots) (x86_update demo_roots) demo_phys 0x1000 0 63) 0x1000 0 63
   \<and> \<not> ptedit_pte_get_bit (x86_resolve demo_roots)
     (ptedit_pte_clear_bit (x86_resolve demo_roots) (x86_update demo_roots) demo_phys 0x1000 0 0) 0x1000 0 0"
  using ptedit_bit_edits [OF demo_stable, of 63 63] ptedit_bit_edits [OF demo_stable, of 0 0] by simp

end
