(* ===== verification/Fh_Host.thy ===== *)
theory Fh_Host
  imports Ptedit
begin

text \<open>
  The host library \<open>src/fpga_driver/fh_host/fh_host.c\<close>: it aliases pages of the simulator
  process into the manager by rewriting the manager's own page-table entries, switches the
  faulthook on and off, and runs the listener loop that answers faults. Physical memory is the
  \<open>phys\<close> of the page-table editor; the installed \<open>ptedit_resolve\<close> is an argument.
\<close>

subsection \<open>Mapping one page\<close>

record fh_memory_map_ctx =
  mm_pid :: u64
  mm_addr :: u64
  host_mem :: u64
  mm_len :: u64
  host_pt :: ptedit_entry_t
  host_pt_entry :: u64

definition fh_memory_unmap :: "fh_memory_map_ctx \<Rightarrow> phys \<Rightarrow> phys" where
  "fh_memory_unmap req m =
     (if host_mem req = 0 then m else m(host_pt_entry req := e_pte (host_pt req)))"

text \<open>
  \<open>mapped_entry\<close> points at entry \<open>(host_mem >> 12) & 0x1ff\<close> of the page table that the
  middle-level entry of the host translation names; the table is mapped by physical address.
\<close>

definition mapped_entry :: "ptedit_entry_t \<Rightarrow> u64 \<Rightarrow> u64" where
  "mapped_entry host_entry hm = slot (pgd_pfn (e_pmd host_entry)) (drop_bit 12 hm AND 0x1ff)"

definition fh_memory_map ::
  "resolve_t \<Rightarrow> fh_memory_map_ctx \<Rightarrow> phys \<Rightarrow> int \<times> phys \<times> fh_memory_map_ctx" where
  "fh_memory_map resolve req m =
    (let victim = resolve m (mm_addr req) (mm_pid req);
         host_entry = resolve m (host_mem req) 0;
         me = mapped_entry host_entry (host_mem req)
     in if m me \<noteq> e_pte host_entry then (- 1, m, req)
        else (0, m(me := ptedit_set_pfn (m me) (ptedit_get_pfn (e_pte victim))),
              req\<lparr>host_pt := host_entry, host_pt_entry := me\<rparr>))"

subsection \<open>Mapping a region\<close>

text \<open>The requests of the loop in \<open>fh_mmap_region\<close>: page \<open>i\<close> of the target, page \<open>i\<close> of the host.\<close>

definition region_req :: "u64 \<Rightarrow> u64 \<Rightarrow> u64 \<Rightarrow> nat \<Rightarrow> fh_memory_map_ctx" where
  "region_req pid target_addr hm i =
     \<lparr>mm_pid = pid, mm_addr = (target_addr AND NOT 0xFFF) + of_nat i * PAGE_SIZE,
      host_mem = hm + of_nat i * PAGE_SIZE, mm_len = PAGE_SIZE,
      host_pt = resolved0 0 0, host_pt_entry = 0\<rparr>"

primrec fh_mmap_loop ::
  "resolve_t \<Rightarrow> fh_memory_map_ctx list \<Rightarrow> phys \<Rightarrow> fh_memory_map_ctx list
     \<Rightarrow> int \<times> phys \<times> fh_memory_map_ctx list" where
  "fh_mmap_loop resolve [] m done = (0, m, done)"
| "fh_mmap_loop resolve (r # rs) m done =
     (case fh_memory_map resolve r m of
        (ret, m', r') \<Rightarrow>
          if ret \<noteq> 0 then (ret, m', done) else fh_mmap_loop resolve rs m' (done @ [r']))"

text \<open>
  The error path \<open>for (j = 0; i < i; j += 1) fh_memory_unmap(entries + j)\<close>: its condition
  compares \<open>i\<close> with itself.
\<close>

definition fh_mmap_clean_up :: "nat \<Rightarrow> fh_memory_map_ctx list \<Rightarrow> phys \<Rightarrow> phys" where
  "fh_mmap_clean_up i entries m = (if i < i then fold fh_memory_unmap entries m else m)"

record fh_mmap_region_ctx =
  region_len :: u64
  region_entries :: "fh_memory_map_ctx list option"

definition fh_mmap_region ::
  "resolve_t \<Rightarrow> bool \<Rightarrow> bool \<Rightarrow> u64 \<Rightarrow> u64 \<Rightarrow> u64 \<Rightarrow> u64 \<Rightarrow> fh_mmap_region_ctx \<Rightarrow> phys
     \<Rightarrow> (int \<times> phys \<times> fh_mmap_region_ctx) outcome" where
  "fh_mmap_region resolve pedit_init calloc_ok pid target_addr len hm ret_ctx m =
    (if len mod 4096 \<noteq> 0 \<or> hm = 0 \<or> \<not> pedit_init then Ub Aborted
     else let count = len div 4096
     in if \<not> calloc_ok then Ret (- 1, m, ret_ctx)
     else case fh_mmap_loop resolve (map (region_req pid target_addr hm) [0..<unat count]) m [] of
       (ret, m', entries) \<Rightarrow>
         if ret \<noteq> 0 then Ret (ret, fh_mmap_clean_up (length entries) entries m', ret_ctx)
         else Ret (0, m', \<lparr>region_len = count, region_entries = Some entries\<rparr>))"

definition fh_unmmap_region :: "fh_mmap_region_ctx \<Rightarrow> phys \<Rightarrow> phys \<times> fh_mmap_region_ctx" where
  "fh_unmmap_region ctx m =
    (case region_entries ctx of
       None \<Rightarrow> (m, ctx)
     | Some es \<Rightarrow> (fold fh_memory_unmap es m, \<lparr>region_len = 0, region_entries = None\<rparr>))"

subsection \<open>The faulthook switch and the library context\<close>

record fh_host_context =
  hook_enabled :: bool
  pedit_init :: bool
  fd_hook :: int
  victim_pid :: u64
  victim_addr :: u64
  has_listener :: bool
  has_clean_up_hook :: bool

definition fh_ctx0 :: fh_host_context where
  "fh_ctx0 = \<lparr>hook_enabled = False, pedit_init = False, fd_hook = 0, victim_pid = 0,
     victim_addr = 0, has_listener = False, has_clean_up_hook = False\<rparr>"

record faulthook_ctrl =
  ctrl_active :: bool
  ctrl_pid :: u64
  ctrl_address :: u64

text \<open>
  \<open>status_ioctl\<close> stands for the kernel's answer to \<open>FAULTHOOK_IOCTL_CMD_STATUS\<close>. The
  \<open>len\<close> field is passed by \<open>fh_enable_trace\<close> only.
\<close>

definition fh_enable_trace ::
  "(faulthook_ctrl \<Rightarrow> u64 \<Rightarrow> int) \<Rightarrow> u64 \<Rightarrow> u64 \<Rightarrow> u64 \<Rightarrow> fh_host_context \<Rightarrow> int \<times> fh_host_context" where
  "fh_enable_trace status_ioctl address len pid c =
    (let ret = status_ioctl \<lparr>ctrl_active = True, ctrl_pid = pid, ctrl_address = address\<rparr> len
     in (ret, if ret < 0 then c
              else c\<lparr>hook_enabled := True, victim_pid := pid, victim_addr := address\<rparr>))"

definition fh_disable_trace ::
  "(faulthook_ctrl \<Rightarrow> u64 \<Rightarrow> int) \<Rightarrow> u64 \<Rightarrow> fh_host_context \<Rightarrow> int \<times> fh_host_context" where
  "fh_disable_trace status_ioctl stale_len c =
    (if \<not> hook_enabled c then (0, c)
     else let ret = status_ioctl \<lparr>ctrl_active = False, ctrl_pid = 0, ctrl_address = 0\<rparr> stale_len
     in (ret, if ret < 0 then c
              else c\<lparr>hook_enabled := False, victim_pid := 0, victim_addr := 0\<rparr>))"

definition fh_clean_up :: "fh_host_context \<Rightarrow> int \<times> fh_host_context" where
  "fh_clean_up c = (0, fh_ctx0)"

definition fh_clean_up_hook :: "bool \<Rightarrow> fh_host_context \<Rightarrow> fh_host_context" where
  "fh_clean_up_hook hook c = c\<lparr>has_clean_up_hook := hook\<rparr>"

definition run_thread :: "bool \<Rightarrow> fh_host_context \<Rightarrow> fh_host_context" where
  "run_thread fn c = c\<lparr>has_listener := fn\<rparr>"

definition fh_init_pedit :: "int \<Rightarrow> fh_host_context \<Rightarrow> int \<times> fh_host_context" where
  "fh_init_pedit ptedit_ret c =
     (if ptedit_ret \<noteq> 0 then (- 1, c) else (0, c\<lparr>pedit_init := True\<rparr>))"

text \<open>\<open>ptedit_ret\<close> is what \<open>ptedit_init\<close> returns, \<open>fd\<close> what \<open>open\<close> returns.\<close>

definition fh_init :: "int \<Rightarrow> int \<Rightarrow> fh_host_context \<Rightarrow> int \<times> fh_host_context" where
  "fh_init ptedit_ret fd c =
    (case fh_init_pedit ptedit_ret fh_ctx0 of
       (ret, c1) \<Rightarrow>
         if ret \<noteq> 0 then (ret, c1)
         else if fd < 0 then (fd, c1)
         else (0, c1\<lparr>fd_hook := fd\<rparr>))"

text \<open>
  The crash handler: switch the hook off, run the registered hook (which undoes the page-table
  edits), forget the context, exit. The outcome lists what was done, in order.
\<close>

datatype crash_action = TraceOff faulthook_ctrl | RunHook | CloseAll

definition fh_crash_handler :: "(faulthook_ctrl \<Rightarrow> u64 \<Rightarrow> int) \<Rightarrow> u64 \<Rightarrow> fh_host_context \<Rightarrow> crash_action list" where
  "fh_crash_handler status_ioctl stale_len c =
    (if hook_enabled c then [TraceOff \<lparr>ctrl_active = False, ctrl_pid = 0, ctrl_address = 0\<rparr>] else [])
    @ (if has_clean_up_hook (snd (fh_disable_trace status_ioctl stale_len c)) then [RunHook] else [])
    @ [CloseAll]"

subsection \<open>The listener loop\<close>

text \<open>
  One iteration of \<open>_fh_fault_handler\<close> per event that \<open>poll\<close> reports: \<open>PollErr\<close> for a
  failing \<open>poll\<close>, \<open>PollEv b\<close> for a return with \<open>POLLIN\<close> set or not. The loop ends the
  thread on a \<open>poll\<close> error, on a listener that returns non-zero (without completing the hook)
  and on a failing completion \<open>ioctl\<close>. \<open>Running\<close> means the loop waits for the next event.
\<close>

datatype poll_event = PollErr | PollEv bool

datatype loop_end = Running | PollFailed | ListenerFailed int | CompleteFailed int

primrec fh_fault_handler ::
  "bool \<Rightarrow> ('s \<Rightarrow> int \<times> 's) \<Rightarrow> ('s \<Rightarrow> int \<times> 's) \<Rightarrow> poll_event list \<Rightarrow> 's \<Rightarrow> loop_end \<times> 's" where
  "fh_fault_handler has_fn listener complete [] s = (Running, s)"
| "fh_fault_handler has_fn listener complete (e # es) s =
    (case e of
       PollErr \<Rightarrow> (PollFailed, s)
     | PollEv False \<Rightarrow> fh_fault_handler has_fn listener complete es s
     | PollEv True \<Rightarrow>
        (case (if has_fn then listener s else (0, s)) of
           (ret, s1) \<Rightarrow>
             if ret \<noteq> 0 then (ListenerFailed ret, s1)
             else case complete s1 of
               (r, s2) \<Rightarrow> if r < 0 then (CompleteFailed r, s2)
                           else fh_fault_handler has_fn listener complete es s2))"

subsection \<open>One page: aliasing and undoing it\<close>

lemma and_511: "(x :: u64) AND 0x1ff = take_bit 9 x"
  by (simp add: take_bit_eq_mask mask_eq_exp_minus_1)

lemma map_undo:
  assumes "fh_memory_map resolve req m = (0, m', req')" "host_mem req \<noteq> 0"
  shows "fh_memory_unmap req' m' = m"
  using assms
  by (auto simp: fh_memory_map_def fh_memory_unmap_def Let_def fun_upd_idem split: if_splits)

context page_tables
begin

lemma mapped_entry_pte_at:
  "stable m hm 0 \<Longrightarrow> mapped_entry (resolve m hm 0) hm = pte_at m hm 0"
  by (simp add: mapped_entry_def pte_at_slot and_511)

lemma memory_map_succeeds:
  assumes "stable m (host_mem req) 0"
  shows "fst (fh_memory_map resolve req m) = 0"
  using assms by (simp add: fh_memory_map_def Let_def mapped_entry_pte_at pte_read)

lemma memory_map_aliases:
  assumes "stable m (host_mem req) 0" "fh_memory_map resolve req m = (0, m', req')"
  shows "resolve m' (host_mem req) 0 = (resolve m (host_mem req) 0)
    \<lparr>e_pte := ptedit_set_pfn (e_pte (resolve m (host_mem req) 0))
                (ptedit_get_pfn (e_pte (resolve m (mm_addr req) (mm_pid req))))\<rparr>"
  using assms
  by (auto simp: fh_memory_map_def Let_def mapped_entry_pte_at pte_read resolve_store
      split: if_splits)

end

subsection \<open>Regions\<close>

lemma fh_mmap_loop_acc:
  "fh_mmap_loop resolve rs m acc =
    (case fh_mmap_loop resolve rs m [] of (ret, m', es) \<Rightarrow> (ret, m', acc @ es))"
proof (induction rs arbitrary: m acc)
  case (Cons r rs)
  show ?case
  proof (cases "fh_memory_map resolve r m")
    case (fields ret m' r')
    show ?thesis
      using Cons.IH [of m' "acc @ [r']"] Cons.IH [of m' "[r']"] fields
      by (auto split: prod.splits)
  qed
qed simp

lemma fh_mmap_loop_Cons:
  "fh_mmap_loop resolve (r # rs) m [] = (0, m'', es) \<longleftrightarrow>
    (\<exists>m' r' es'. fh_memory_map resolve r m = (0, m', r')
      \<and> fh_mmap_loop resolve rs m' [] = (0, m'', es') \<and> es = r' # es')"
  by (cases "fh_memory_map resolve r m") (auto simp: fh_mmap_loop_acc [of _ _ _ "[_]"] split: prod.splits)

lemma fh_memory_map_shape:
  assumes "fh_memory_map resolve r m = (0, m', r')"
  shows "host_mem r' = host_mem r"
    and "m (host_pt_entry r') = e_pte (host_pt r')"
    and "\<exists>v. m' = m(host_pt_entry r' := v)"
  using assms by (auto simp: fh_memory_map_def Let_def split: if_splits)

lemma fh_mmap_loop_frame:
  assumes "fh_mmap_loop resolve rs m [] = (0, m', es)" "a \<notin> host_pt_entry ` set es"
  shows "m' a = m a"
  using assms
proof (induction rs arbitrary: m es)
  case (Cons r rs)
  then obtain m1 r' es' where 1: "fh_memory_map resolve r m = (0, m1, r')"
    "fh_mmap_loop resolve rs m1 [] = (0, m', es')" "es = r' # es'"
    unfolding fh_mmap_loop_Cons by blast
  obtain v where "m1 = m(host_pt_entry r' := v)"
    using fh_memory_map_shape(3) [OF 1(1)] by blast
  then show ?case
    using Cons.IH [OF 1(2)] Cons.prems(2) 1(3) by auto
qed simp

lemma fold_unmap_outside:
  "a \<notin> host_pt_entry ` set es \<Longrightarrow> fold fh_memory_unmap es m a = m a"
  by (induction es arbitrary: m) (auto simp: fh_memory_unmap_def)

lemma fold_unmap_upd:
  assumes "a \<notin> host_pt_entry ` set es"
  shows "fold fh_memory_unmap es (m(a := v)) = (fold fh_memory_unmap es m)(a := v)"
  using assms
proof (induction es arbitrary: m)
  case (Cons e es)
  have "fh_memory_unmap e (m(a := v)) = (fh_memory_unmap e m)(a := v)"
    using Cons.prems by (auto simp: fh_memory_unmap_def fun_upd_twist)
  moreover have "a \<notin> host_pt_entry ` set es" using Cons.prems by simp
  ultimately show ?case unfolding fold_Cons comp_apply using Cons.IH by metis
qed simp

lemma fh_mmap_loop_undo:
  assumes "fh_mmap_loop resolve rs m [] = (0, m', es)"
    and "distinct (map host_pt_entry es)" "\<forall>r \<in> set rs. host_mem r \<noteq> 0"
  shows "fold fh_memory_unmap es m' = m"
  using assms
proof (induction rs arbitrary: m es)
  case (Cons r rs)
  then obtain m1 r' es' where 1: "fh_memory_map resolve r m = (0, m1, r')"
    "fh_mmap_loop resolve rs m1 [] = (0, m', es')" "es = r' # es'"
    unfolding fh_mmap_loop_Cons by blast
  have IH: "fold fh_memory_unmap es' m' = m1"
    using Cons 1 by auto
  have hm: "host_mem r' \<noteq> 0"
    using Cons.prems(3) fh_memory_map_shape(1) [OF 1(1)] by simp
  have "fh_memory_unmap r' m1 = m"
    using map_undo [OF 1(1)] Cons.prems(3) by simp
  moreover have "fold fh_memory_unmap es' (fh_memory_unmap r' m') = fh_memory_unmap r' m1"
    using hm Cons.prems(2) 1(3) by (simp add: fh_memory_unmap_def fold_unmap_upd IH)
  ultimately show ?case using 1(3) by simp
qed simp

lemma fh_mmap_loop_snoc:
  "fh_mmap_loop resolve rs m [] = (0, m', es) \<Longrightarrow> fh_memory_map resolve r m' = (0, m'', r') \<Longrightarrow>
   fh_mmap_loop resolve (rs @ [r]) m [] = (0, m'', es @ [r'])"
proof (induction rs arbitrary: m es)
  case (Cons q rs)
  then obtain m1 q' es' where 1: "fh_memory_map resolve q m = (0, m1, q')"
    "fh_mmap_loop resolve rs m1 [] = (0, m', es')" "es = q' # es'"
    unfolding fh_mmap_loop_Cons by blast
  have "fh_mmap_loop resolve (rs @ [r]) m1 [] = (0, m'', es' @ [r'])"
    using Cons.IH [OF 1(2) Cons.prems(2)] .
  then have "fh_mmap_loop resolve (q # (rs @ [r])) m [] = (0, m'', q' # (es' @ [r']))"
    unfolding fh_mmap_loop_Cons using 1(1) by blast
  then show ?case using 1(3) by simp
qed simp

text \<open>
  The page tables of manager and simulator do not overlap in the entries that matter: the slots
  rewritten for the \<open>n\<close> host pages are distinct, no walk passes through one of them, and
  both sides of every pair are mapped.
\<close>

abbreviation host_addr :: "u64 \<Rightarrow> nat \<Rightarrow> u64" where
  "host_addr hm i \<equiv> hm + of_nat i * PAGE_SIZE"

abbreviation target_page :: "u64 \<Rightarrow> nat \<Rightarrow> u64" where
  "target_page t i \<equiv> (t AND NOT 0xFFF) + of_nat i * PAGE_SIZE"

definition host_slots :: "(u64 \<Rightarrow> u64) \<Rightarrow> phys \<Rightarrow> u64 \<Rightarrow> nat \<Rightarrow> u64 list" where
  "host_slots rt m hm n = map (\<lambda>i. x86_pte_at rt m (host_addr hm i) 0) [0..<n]"

definition region_isolated :: "(u64 \<Rightarrow> u64) \<Rightarrow> phys \<Rightarrow> u64 \<Rightarrow> u64 \<Rightarrow> u64 \<Rightarrow> nat \<Rightarrow> bool" where
  "region_isolated rt m pid t hm n \<longleftrightarrow>
     distinct (host_slots rt m hm n)
     \<and> list_all (\<lambda>i.
         walk_complete ptedit_paging_definition (root_of (rt 0)) m (host_addr hm i)
         \<and> walk_above ptedit_paging_definition (root_of (rt 0)) m (host_addr hm i)
              \<inter> set (host_slots rt m hm n) = {}
         \<and> walk_complete ptedit_paging_definition (root_of (rt pid)) m (target_page t i)
         \<and> (walk_above ptedit_paging_definition (root_of (rt pid)) m (target_page t i)
              \<union> {x86_pte_at rt m (target_page t i) pid}) \<inter> set (host_slots rt m hm n) = {})
       [0..<n]"

text \<open>Memory after \<open>k\<close> pages, in closed form.\<close>

definition mapped_mem :: "(u64 \<Rightarrow> u64) \<Rightarrow> phys \<Rightarrow> u64 \<Rightarrow> u64 \<Rightarrow> u64 \<Rightarrow> nat \<Rightarrow> phys" where
  "mapped_mem rt m pid t hm k =
     fold (\<lambda>i m'. m'(x86_pte_at rt m (host_addr hm i) 0 :=
             ptedit_set_pfn (m (x86_pte_at rt m (host_addr hm i) 0))
               (ptedit_get_pfn (e_pte (x86_resolve rt m (target_page t i) pid)))))
       [0..<k] m"

lemma mapped_mem_Suc:
  "mapped_mem rt m pid t hm (Suc k) = (mapped_mem rt m pid t hm k)
     (x86_pte_at rt m (host_addr hm k) 0 :=
        ptedit_set_pfn (m (x86_pte_at rt m (host_addr hm k) 0))
          (ptedit_get_pfn (e_pte (x86_resolve rt m (target_page t k) pid))))"
  by (simp add: mapped_mem_def)

lemma mapped_mem_outside:
  "a \<notin> set (host_slots rt m hm k) \<Longrightarrow> mapped_mem rt m pid t hm k a = m a"
proof (induction k)
  case 0
  then show ?case by (simp add: mapped_mem_def)
next
  case (Suc k)
  then show ?case
    unfolding mapped_mem_Suc by (auto simp: host_slots_def)
qed

lemma mapped_mem_slot:
  assumes "i < k" "distinct (host_slots rt m hm k)"
  shows "mapped_mem rt m pid t hm k (x86_pte_at rt m (host_addr hm i) 0) =
    ptedit_set_pfn (m (x86_pte_at rt m (host_addr hm i) 0))
      (ptedit_get_pfn (e_pte (x86_resolve rt m (target_page t i) pid)))"
  using assms
proof (induction k)
  case (Suc k)
  show ?case
  proof (cases "i = k")
    case True
    then show ?thesis by (simp add: mapped_mem_Suc)
  next
    case False
    then have "x86_pte_at rt m (host_addr hm i) 0 \<in> set (host_slots rt m hm k)"
      using Suc.prems by (simp add: host_slots_def)
    moreover have "x86_pte_at rt m (host_addr hm k) 0 \<notin> set (host_slots rt m hm k)"
      using Suc.prems by (simp add: host_slots_def)
    ultimately have "x86_pte_at rt m (host_addr hm i) 0 \<noteq> x86_pte_at rt m (host_addr hm k) 0"
      by metis
    moreover have "distinct (host_slots rt m hm k)"
      using Suc.prems by (simp add: host_slots_def)
    ultimately show ?thesis
      using Suc False unfolding mapped_mem_Suc by simp
  qed
qed simp

lemma isolated_facts:
  assumes "region_isolated rt m pid t hm n" "i < n"
  shows "walk_complete ptedit_paging_definition (root_of (rt 0)) m (host_addr hm i)"
    and "\<And>a. a \<in> walk_above ptedit_paging_definition (root_of (rt 0)) m (host_addr hm i) \<Longrightarrow>
      a \<notin> set (host_slots rt m hm n)"
    and "walk_complete ptedit_paging_definition (root_of (rt pid)) m (target_page t i)"
    and "\<And>a. a \<in> walk_above ptedit_paging_definition (root_of (rt pid)) m (target_page t i) \<Longrightarrow>
      a \<notin> set (host_slots rt m hm n)"
    and "x86_pte_at rt m (target_page t i) pid \<notin> set (host_slots rt m hm n)"
    and "x86_stable rt m (host_addr hm i) 0"
proof -
  note iso = assms(1) [unfolded region_isolated_def list_all_iff]
  from iso assms(2) show "walk_complete ptedit_paging_definition (root_of (rt 0)) m (host_addr hm i)"
    and "walk_complete ptedit_paging_definition (root_of (rt pid)) m (target_page t i)"
    and "x86_pte_at rt m (target_page t i) pid \<notin> set (host_slots rt m hm n)"
    by auto
  show h: "a \<notin> set (host_slots rt m hm n)"
    if "a \<in> walk_above ptedit_paging_definition (root_of (rt 0)) m (host_addr hm i)" for a
    using iso assms(2) that by auto
  show "a \<notin> set (host_slots rt m hm n)"
    if "a \<in> walk_above ptedit_paging_definition (root_of (rt pid)) m (target_page t i)" for a
    using iso assms(2) that by auto
  have "x86_pte_at rt m (host_addr hm i) 0 \<in> set (host_slots rt m hm n)"
    using assms(2) by (auto simp: host_slots_def)
  then show "x86_stable rt m (host_addr hm i) 0"
    using h \<open>walk_complete _ (root_of (rt 0)) m (host_addr hm i)\<close>
    by (auto simp: x86_stable_def)
qed

lemma host_slots_mono: "k \<le> n \<Longrightarrow> a \<in> set (host_slots rt m hm k) \<Longrightarrow> a \<in> set (host_slots rt m hm n)"
  by (auto simp: host_slots_def)

lemma host_translation:
  assumes "region_isolated rt m pid t hm n" "i < n" "k \<le> n"
  shows "x86_resolve rt (mapped_mem rt m pid t hm k) (host_addr hm i) 0 =
    (x86_resolve rt m (host_addr hm i) 0)
      \<lparr>e_pte := mapped_mem rt m pid t hm k (x86_pte_at rt m (host_addr hm i) 0)\<rparr>"
  unfolding x86_pte_at_def
  using isolated_facts(1,2) [OF assms(1,2)] host_slots_mono [OF assms(3)]
  by (intro resolve_agree) (blast intro: mapped_mem_outside)+

lemma target_translation:
  assumes "region_isolated rt m pid t hm n" "i < n" "k \<le> n"
  shows "x86_resolve rt (mapped_mem rt m pid t hm k) (target_page t i) pid =
    x86_resolve rt m (target_page t i) pid"
proof -
  have "x86_resolve rt (mapped_mem rt m pid t hm k) (target_page t i) pid =
    (x86_resolve rt m (target_page t i) pid)
      \<lparr>e_pte := mapped_mem rt m pid t hm k (x86_pte_at rt m (target_page t i) pid)\<rparr>"
    unfolding x86_pte_at_def
    using isolated_facts(3,4) [OF assms(1,2)] host_slots_mono [OF assms(3)]
    by (intro resolve_agree) (blast intro: mapped_mem_outside)+
  moreover have "mapped_mem rt m pid t hm k (x86_pte_at rt m (target_page t i) pid) =
      e_pte (x86_resolve rt m (target_page t i) pid)"
    using isolated_facts(3,5) [OF assms(1,2)] host_slots_mono [OF assms(3)]
      resolve_complete [of ptedit_paging_definition rt pid m "target_page t i"]
    by (subst mapped_mem_outside) (auto simp: x86_pte_at_def)
  ultimately show ?thesis by simp
qed

lemma host_slots_take: "k \<le> n \<Longrightarrow> host_slots rt m hm k = take k (host_slots rt m hm n)"
  by (simp add: host_slots_def take_map)

lemma region_loop:
  assumes "region_isolated rt m pid t hm n" "k \<le> n"
  shows "\<exists>es. fh_mmap_loop (x86_resolve rt) (map (region_req pid t hm) [0..<k]) m [] =
      (0, mapped_mem rt m pid t hm k, es)
    \<and> map host_pt_entry es = host_slots rt m hm k"
  using assms(2)
proof (induction k)
  case 0
  then show ?case by (simp add: mapped_mem_def host_slots_def)
next
  case (Suc k)
  let ?mk = "mapped_mem rt m pid t hm k" and ?s = "x86_pte_at rt m (host_addr hm k) 0"
  have k: "k < n" "k \<le> n" using Suc.prems by auto
  obtain es where es: "fh_mmap_loop (x86_resolve rt) (map (region_req pid t hm) [0..<k]) m [] =
      (0, ?mk, es)" "map host_pt_entry es = host_slots rt m hm k"
    using Suc.IH k by blast
  have "distinct (host_slots rt m hm n)" using assms(1) by (simp add: region_isolated_def)
  then have "distinct (host_slots rt m hm (Suc k))"
    using Suc.prems by (simp only: host_slots_take [of "Suc k" n] distinct_take)
  then have "?s \<notin> set (host_slots rt m hm k)"
    by (simp add: host_slots_def)
  then have sk: "?mk ?s = m ?s" by (rule mapped_mem_outside)
  note st = isolated_facts(6) [OF assms(1) k(1)]
  have host: "x86_resolve rt ?mk (host_addr hm k) 0 = x86_resolve rt m (host_addr hm k) 0"
    using host_translation [OF assms(1) k] sk x86.pte_read [OF st] by simp
  note tgt = target_translation [OF assms(1) k]
  have "fh_memory_map (x86_resolve rt) (region_req pid t hm k) ?mk =
      (0, mapped_mem rt m pid t hm (Suc k),
       (region_req pid t hm k)\<lparr>host_pt := x86_resolve rt m (host_addr hm k) 0, host_pt_entry := ?s\<rparr>)"
    using x86.mapped_entry_pte_at [OF st] x86.pte_read [OF st] sk tgt
    unfolding fh_memory_map_def mapped_mem_Suc
    by (simp add: region_req_def host Let_def)
  from fh_mmap_loop_snoc [OF es(1) this] es(2) show ?case
    by (simp add: host_slots_def)
qed

subsection \<open>Properties\<close>

text \<open>C11: Mapping a region of the simulator into the manager. When the page tables of the two
  processes do not overlap, \<open>fh_mmap_region\<close> succeeds, afterwards every host page \<open>i\<close>
  translates to the physical frame of page \<open>i\<close> of the (page-aligned) target with the flag bits
  of its old entry, and \<open>fh_unmmap_region\<close> on the returned context restores physical memory
  exactly.\<close>

theorem fh_mmap_region_aliases_and_restores:
  assumes "region_isolated rt m pid t hm (unat (len div 4096))"
    and "len mod 4096 = 0" "hm \<noteq> 0"
    and "\<forall>i < unat (len div 4096). host_addr hm i \<noteq> 0"
  shows "\<exists>m' ctx. fh_mmap_region (x86_resolve rt) True True pid t len hm ctx0 m = Ret (0, m', ctx)
    \<and> (\<forall>i < unat (len div 4096).
         ptedit_get_pfn (e_pte (x86_resolve rt m' (host_addr hm i) 0)) =
           ptedit_get_pfn (e_pte (x86_resolve rt m (target_page t i) pid))
       \<and> e_pte (x86_resolve rt m' (host_addr hm i) 0) AND NOT pfn_mask =
           e_pte (x86_resolve rt m (host_addr hm i) 0) AND NOT pfn_mask)
    \<and> fst (fh_unmmap_region ctx m') = m"
proof -
  let ?n = "unat (len div 4096)"
  let ?m' = "mapped_mem rt m pid t hm ?n"
  obtain es where es: "fh_mmap_loop (x86_resolve rt) (map (region_req pid t hm) [0..<?n]) m [] =
      (0, ?m', es)" "map host_pt_entry es = host_slots rt m hm ?n"
    using region_loop [OF assms(1) order_refl] by blast
  have d: "distinct (host_slots rt m hm ?n)" using assms(1) by (simp add: region_isolated_def)
  have ret: "fh_mmap_region (x86_resolve rt) True True pid t len hm ctx0 m =
      Ret (0, ?m', \<lparr>region_len = len div 4096, region_entries = Some es\<rparr>)"
    using assms(2,3) es(1) by (simp add: fh_mmap_region_def Let_def)
  have "fold fh_memory_unmap es ?m' = m"
    using es d assms(4) by (intro fh_mmap_loop_undo [OF es(1)]) (auto simp: region_req_def)
  moreover have "ptedit_get_pfn (e_pte (x86_resolve rt ?m' (host_addr hm i) 0)) =
        ptedit_get_pfn (e_pte (x86_resolve rt m (target_page t i) pid))
      \<and> e_pte (x86_resolve rt ?m' (host_addr hm i) 0) AND NOT pfn_mask =
        e_pte (x86_resolve rt m (host_addr hm i) 0) AND NOT pfn_mask" if "i < ?n" for i
    using host_translation [OF assms(1) that order_refl] mapped_mem_slot [OF that d]
      x86.pte_read [OF isolated_facts(6) [OF assms(1) that]]
    by (simp add: get_pfn_set_pfn set_pfn_flags [OF get_pfn_small])
  ultimately show ?thesis
    using ret by (auto simp: fh_unmmap_region_def)
qed

lemma demo_isolated: "region_isolated demo_roots demo_phys 7 0x2000 0x1000 1"
  by code_simp

theorem fh_mmap_region_aliases_and_restores_witness:
  "\<exists>m' ctx. fh_mmap_region (x86_resolve demo_roots) True True 7 0x2000 0x1000 0x1000
       \<lparr>region_len = 0, region_entries = None\<rparr> demo_phys = Ret (0, m', ctx)
    \<and> (\<forall>i < 1. ptedit_get_pfn (e_pte (x86_resolve demo_roots m' (host_addr 0x1000 i) 0)) =
           ptedit_get_pfn (e_pte (x86_resolve demo_roots demo_phys (target_page 0x2000 i) 7))
       \<and> e_pte (x86_resolve demo_roots m' (host_addr 0x1000 i) 0) AND NOT pfn_mask =
           e_pte (x86_resolve demo_roots demo_phys (host_addr 0x1000 i) 0) AND NOT pfn_mask)
    \<and> fst (fh_unmmap_region ctx m') = demo_phys"
proof -
  have n: "unat ((0x1000 :: u64) div 4096) = 1" by simp
  have "\<forall>i < (1::nat). host_addr 0x1000 i \<noteq> 0" by simp
  then show ?thesis
    using fh_mmap_region_aliases_and_restores [of demo_roots demo_phys 7 "0x2000" "0x1000" "0x1000",
      unfolded n] demo_isolated by simp
qed

text \<open>The effect of one event: the listener, then the completion of the hook.\<close>

definition serve_event :: "('s \<Rightarrow> int \<times> 's) \<Rightarrow> ('s \<Rightarrow> int \<times> 's) \<Rightarrow> 's \<Rightarrow> 's" where
  "serve_event listener complete s = snd (complete (snd (listener s)))"

lemma fh_fault_handler_step:
  assumes "fst (listener s) = 0" "fst (complete (snd (listener s))) \<ge> 0"
  shows "fh_fault_handler True listener complete (PollEv True # es) s =
    fh_fault_handler True listener complete es (serve_event listener complete s)"
  using assms by (cases "listener s"; cases "complete (snd (listener s))") (simp add: serve_event_def)

lemma fh_fault_handler_running:
  assumes "\<And>s. fst (complete s) \<ge> 0" "PollErr \<notin> set es"
    and "\<And>j. j < length (filter (\<lambda>e. e = PollEv True) es) \<Longrightarrow>
      fst (listener ((serve_event listener complete ^^ j) s)) = 0"
  shows "fh_fault_handler True listener complete es s =
    (Running, (serve_event listener complete ^^ length (filter (\<lambda>e. e = PollEv True) es)) s)"
  using assms(2,3)
proof (induction es arbitrary: s)
  case (Cons e es)
  let ?step = "serve_event listener complete"
  show ?case
  proof (cases "e = PollEv True")
    case True
    have "fst (listener s) = 0" using Cons.prems(2) [of 0] True by simp
    moreover have "fst (listener ((?step ^^ j) (?step s))) = 0"
      if "j < length (filter (\<lambda>e. e = PollEv True) es)" for j
      using Cons.prems(2) [of "Suc j"] that True by (simp add: funpow_swap1)
    ultimately show ?thesis
      using Cons.IH [of "?step s"] Cons.prems(1) True assms(1)
      by (simp add: fh_fault_handler_step funpow_swap1 del: fh_fault_handler.simps)
  next
    case False
    then have "e = PollEv False" using Cons.prems(1) by (cases e) auto
    then show ?thesis using Cons.IH [of s] Cons.prems by simp
  qed
qed simp

text \<open>C32: The listener loop. As long as \<open>poll\<close> reports no error and the listener returns 0, the loop
  keeps running and has called the listener and completed the hook exactly once for every event
  with \<open>POLLIN\<close>; the first listener that returns a value other than 0 ends the loop before the hook
  is completed, whatever events follow.\<close>

theorem fh_fault_handler_serves_events:
  assumes "\<And>s. fst (complete s) \<ge> 0" "PollErr \<notin> set es"
    and "\<And>j. j < length (filter (\<lambda>e. e = PollEv True) es) \<Longrightarrow>
      fst (listener ((serve_event listener complete ^^ j) s)) = 0"
  shows "fh_fault_handler True listener complete es s =
      (Running, (serve_event listener complete ^^ length (filter (\<lambda>e. e = PollEv True) es)) s)
    \<and> (fst (listener s') \<noteq> 0 \<longrightarrow>
        fh_fault_handler True listener complete (PollEv True # rest) s' =
          (ListenerFailed (fst (listener s')), snd (listener s')))"
  using fh_fault_handler_running [where complete = complete and listener = listener and es = es and s = s, OF assms]
  by (cases "listener s'") simp

theorem fh_fault_handler_serves_events_witness:
  "fh_fault_handler True (\<lambda>n. (0, n + 1)) (\<lambda>n. (0, n)) [PollEv True, PollEv False, PollEv True] (0 :: nat) = (Running, 2)
    \<and> fh_fault_handler True (\<lambda>n. (- 1, n)) (\<lambda>n. (0, n)) [PollEv True, PollEv True] (0 :: nat) = (ListenerFailed (- 1), 0)"
  using fh_fault_handler_serves_events [of "\<lambda>n. (0, n)" "[PollEv True, PollEv False, PollEv True]" "\<lambda>n. (0, n + 1)" 0]
    fh_fault_handler_serves_events [of "\<lambda>n. (0, n)" "[]" "\<lambda>n. (- 1, n)" 0 "0 :: nat" "[PollEv True]"]
  by (simp add: numeral_2_eq_2 serve_event_def)

end
