(* ===== verification/Usr_Manager.thy ===== *)
theory Usr_Manager
  imports Fh_Host
begin

text \<open>
  The user-space manager \<open>src/fpga_driver/fpga_escape_libhook/usr_manager.c\<close> up to its main
  program: the table that maps page-frame numbers of the simulated machine to virtual addresses
  of the simulator process, the scans of the simulator's memory that fill it, and the settings
  and mapping files that let a restarted manager pick the table up again. Messages are not
  modelled; \<open>exit\<close> is the outcome \<open>Aborted\<close>.
\<close>

subsection \<open>State\<close>

definition ESCAPE_PAGE_SIZE :: u64 where "ESCAPE_PAGE_SIZE = 3000 * PAGE_SIZE"

text \<open>\<open>unsigned long *addr_map\<close>: null, the failure value of \<open>mmap\<close>, or an array.\<close>

datatype map_ptr = MapNull | MapFailed | MapAt "u64 list"

record ctx_struct =
  target_mem_fd :: int
  target_pid :: u32
  target_from :: u64
  target_to :: u64
  escape_page :: u64
  escape_page_mmap_ctx :: fh_mmap_region_ctx
  escape_page_pfn :: u64
  escape_vaddr :: u64
  escape_page_reserve_size :: u64
  addr_map :: map_ptr
  addr_map_pfn_min :: u64
  addr_map_pfn_max :: u64
  addr_map_size :: u64
  checksum_vaddrs_saved :: u64

definition get_mapped_escape_buffer_size :: "ctx_struct \<Rightarrow> u64" where
  "get_mapped_escape_buffer_size ctx = ESCAPE_PAGE_SIZE"

subsection \<open>The table of frame numbers\<close>

text \<open>
  An anonymous \<open>mmap\<close> of \<open>n\<close> bytes fails for \<open>n = 0\<close> and otherwise provides whole
  pages of zeros, 512 table entries each; \<open>mmap_ok\<close> says whether the system grants it.
\<close>

definition mmap_entries :: "u64 \<Rightarrow> nat" where
  "mmap_entries map_size = 512 * ((unat map_size + 4095) div 4096)"

definition init_addr_map :: "(u64 \<Rightarrow> bool) \<Rightarrow> ctx_struct \<Rightarrow> u64 \<Rightarrow> u64 \<Rightarrow> int \<times> ctx_struct" where
  "init_addr_map mmap_ok ctx min_pfn max_pfn =
    (let size = max_pfn - min_pfn; map_size = 8 * size
     in if map_size = 0 \<or> \<not> mmap_ok map_size then (- 1, ctx\<lparr>addr_map := MapFailed\<rparr>)
        else (0, ctx\<lparr>addr_map := MapAt (replicate (mmap_entries map_size) 0),
                 addr_map_pfn_max := max_pfn, addr_map_pfn_min := min_pfn,
                 addr_map_size := map_size\<rparr>))"

definition free_addr_map :: "ctx_struct \<Rightarrow> ctx_struct" where
  "free_addr_map ctx =
    (if addr_map ctx \<noteq> MapNull
     then ctx\<lparr>addr_map := MapNull, addr_map_pfn_min := 0, addr_map_pfn_max := 0,
              addr_map_size := 0\<rparr>
     else ctx)"

text \<open>\<open>*(ctx->addr_map + i)\<close>, read and written.\<close>

definition map_read :: "map_ptr \<Rightarrow> nat \<Rightarrow> u64 outcome" where
  "map_read p i =
    (case p of MapAt xs \<Rightarrow> if i < length xs then Ret (xs ! i) else Ub OutOfBounds
     | _ \<Rightarrow> Ub NullDeref)"

definition map_write :: "map_ptr \<Rightarrow> nat \<Rightarrow> u64 \<Rightarrow> map_ptr outcome" where
  "map_write p i v =
    (case p of MapAt xs \<Rightarrow> if i < length xs then Ret (MapAt (xs[i := v])) else Ub OutOfBounds
     | _ \<Rightarrow> Ub NullDeref)"

definition in_pfn_range :: "ctx_struct \<Rightarrow> u64 \<Rightarrow> bool" where
  "in_pfn_range ctx pfn \<longleftrightarrow> addr_map_pfn_min ctx \<le> pfn \<and> pfn \<le> addr_map_pfn_max ctx"

text \<open>The flag \<open>complain\<close> only selects a message.\<close>

definition get_addr_map_vaddr_verify :: "ctx_struct \<Rightarrow> u64 \<Rightarrow> bool \<Rightarrow> u64 outcome" where
  "get_addr_map_vaddr_verify ctx pfn complain =
    (if addr_map_pfn_min ctx \<le> pfn \<and> pfn \<le> addr_map_pfn_max ctx
     then map_read (addr_map ctx) (unat (pfn - addr_map_pfn_min ctx))
     else Ret 0)"

definition get_addr_map_vaddr :: "ctx_struct \<Rightarrow> u64 \<Rightarrow> u64 outcome" where
  "get_addr_map_vaddr ctx pfn = get_addr_map_vaddr_verify ctx pfn True"

definition get_addr_map_dims :: "ctx_struct \<Rightarrow> u64 \<times> u64" where
  "get_addr_map_dims ctx = (addr_map_pfn_min ctx, addr_map_pfn_max ctx)"

definition set_addr_map_vaddr :: "ctx_struct \<Rightarrow> u64 \<Rightarrow> u64 \<Rightarrow> ctx_struct outcome" where
  "set_addr_map_vaddr ctx pfn vaddr =
    (if addr_map_pfn_min ctx \<le> pfn \<and> pfn \<le> addr_map_pfn_max ctx
     then obind (map_write (addr_map ctx) (unat (pfn - addr_map_pfn_min ctx)) vaddr)
            (\<lambda>p. Ret (ctx\<lparr>addr_map := p\<rparr>))
     else Ret ctx)"

subsection \<open>Scanning the simulator's memory\<close>

record fvp_escape_scan_struct =
  ctrl_magic :: u64
  addr_tag :: u64
  escape_magic :: u64

definition FVP_CONTROL_MAGIC :: u64 where "FVP_CONTROL_MAGIC = 0xCAFECAFECAFECA00"
definition FVP_ESCAPE_MAGIC :: u64 where "FVP_ESCAPE_MAGIC = 0xCAFECAFECAFECA01"

text \<open>
  \<open>lseek\<close> and \<open>read\<close> on \<open>/proc/pid/mem\<close>: the value \<open>read\<close> returns and the buffer
  afterwards, given the buffer before (a failing or short read leaves stale bytes in it).
\<close>

type_synonym mem_read = "u64 \<Rightarrow> fvp_escape_scan_struct \<Rightarrow> int \<times> fvp_escape_scan_struct"

definition find_step ::
  "mem_read \<Rightarrow> u64 \<Rightarrow> fvp_escape_scan_struct \<times> u64 \<times> u64 \<Rightarrow> bool \<times> fvp_escape_scan_struct \<times> u64 \<times> u64" where
  "find_step rd addr s =
    (case s of (escape, vaddr, pfn) \<Rightarrow>
      case rd addr escape of (ret, escape') \<Rightarrow>
        if ret < 0 then (False, escape', vaddr, pfn)
        else if ctrl_magic escape' = FVP_CONTROL_MAGIC \<and> escape_magic escape' = FVP_ESCAPE_MAGIC
        then (True, escape', addr, addr_tag escape')
        else (False, escape', vaddr, pfn))"

text \<open>
  \<open>fvpmem_find_escape_page\<close> scans again and again until a page is found; the memory it reads
  changes while the guest boots, so attempt \<open>k\<close> has its own reader. The result is the address
  of the page and its frame number.
\<close>

partial_function (option) fvpmem_find_escape_page ::
  "(nat \<Rightarrow> mem_read) \<Rightarrow> u64 \<Rightarrow> u64 \<Rightarrow> nat \<Rightarrow> fvp_escape_scan_struct \<times> u64 \<times> u64 \<Rightarrow> (u64 \<times> u64) option" where
  "fvpmem_find_escape_page rds from to k s =
    (case s of (escape, vaddr, pfn) \<Rightarrow>
      if vaddr = 0 then
        Option.bind (for_pages (find_step (rds k)) to from s)
          (fvpmem_find_escape_page rds from to (Suc k))
      else Some (vaddr, pfn))"

definition dims_step ::
  "mem_read \<Rightarrow> u64 \<Rightarrow> fvp_escape_scan_struct \<times> u64 \<times> u64 \<Rightarrow> fvp_escape_scan_struct \<times> u64 \<times> u64" where
  "dims_step rd addr s =
    (case s of (escape, min_pfn, max_pfn) \<Rightarrow>
      case rd addr escape of (ret, escape') \<Rightarrow>
        if ret < 0 then (escape', min_pfn, max_pfn)
        else if ctrl_magic escape' = FVP_CONTROL_MAGIC
        then (escape', (if min_pfn < addr_tag escape' then min_pfn else addr_tag escape'),
                       (if max_pfn > addr_tag escape' then max_pfn else addr_tag escape'))
        else (escape', min_pfn, max_pfn))"

definition fvpmem_find_dimensions ::
  "mem_read \<Rightarrow> fvp_escape_scan_struct \<Rightarrow> ctx_struct \<Rightarrow> (u64 \<times> u64) option" where
  "fvpmem_find_dimensions rd escape0 ctx =
     map_option snd
       (for_pages (\<lambda>addr s. (False, dims_step rd addr s)) (target_to ctx) (target_from ctx)
          (escape0, 0x7FFFFFFFFFFFFFFF, 0))"

definition scan_step ::
  "mem_read \<Rightarrow> u64 \<Rightarrow> (fvp_escape_scan_struct \<times> ctx_struct) outcome
     \<Rightarrow> bool \<times> (fvp_escape_scan_struct \<times> ctx_struct) outcome" where
  "scan_step rd addr s =
    (case s of
       Ub u \<Rightarrow> (True, Ub u)
     | Ret (escape, ctx) \<Rightarrow>
        (case rd addr escape of (ret, escape') \<Rightarrow>
          if ret < 0 then (False, Ret (escape', ctx))
          else if ctrl_magic escape' = FVP_CONTROL_MAGIC
          then (False, obind (set_addr_map_vaddr ctx (addr_tag escape') addr)
                         (\<lambda>ctx'. Ret (escape', ctx')))
          else (False, Ret (escape', ctx))))"

definition fvpmem_scan_addresses ::
  "mem_read \<Rightarrow> fvp_escape_scan_struct \<Rightarrow> ctx_struct \<Rightarrow> ctx_struct outcome option" where
  "fvpmem_scan_addresses rd escape0 ctx =
     map_option (\<lambda>r. obind r (\<lambda>p. Ret (snd p)))
       (for_pages (scan_step rd) (target_to ctx) (target_from ctx) (Ret (escape0, ctx)))"

subsection \<open>The contract of the table\<close>

text \<open>
  What the fault handler and the two fillers of the table (the scan and the mapping file) rely
  on: a look-up always returns, frames the table does not cover read as 0, a store keeps the
  covered frames and changes the value of its own frame only.
\<close>

locale pfn_table =
  fixes lookup :: "'c \<Rightarrow> u64 \<Rightarrow> u64 outcome"
    and store :: "'c \<Rightarrow> u64 \<Rightarrow> u64 \<Rightarrow> 'c outcome"
    and ok :: "'c \<Rightarrow> bool"
    and covers :: "'c \<Rightarrow> u64 \<Rightarrow> bool"
  assumes lookup_ret: "ok c \<Longrightarrow> \<exists>v. lookup c p = Ret v"
    and lookup_outside: "ok c \<Longrightarrow> \<not> covers c p \<Longrightarrow> lookup c p = Ret 0"
    and store_ret: "ok c \<Longrightarrow> \<exists>c'. store c p v = Ret c' \<and> ok c' \<and> covers c' = covers c"
    and lookup_store: "ok c \<Longrightarrow> store c p v = Ret c' \<Longrightarrow>
      lookup c' q = (if q = p \<and> covers c p then Ret v else lookup c q)"
begin

lemma store_all:
  assumes "ok c"
  shows "\<exists>c'. ofold (\<lambda>(p, v) c. store c p v) kvs c = Ret c' \<and> ok c' \<and> covers c' = covers c
    \<and> (\<forall>q. lookup c' q =
          (case map_of (rev kvs) q of Some v \<Rightarrow> if covers c q then Ret v else lookup c q
           | None \<Rightarrow> lookup c q))"
  using assms
proof (induction kvs arbitrary: c)
  case Nil
  then show ?case by simp
next
  case (Cons kv kvs)
  obtain p v where kv: "kv = (p, v)" by force
  obtain c1 where c1: "store c p v = Ret c1" "ok c1" "covers c1 = covers c"
    using store_ret [OF Cons.prems] by blast
  obtain c' where c': "ofold (\<lambda>(p, v) c. store c p v) kvs c1 = Ret c'" "ok c'" "covers c' = covers c1"
    "\<forall>q. lookup c' q = (case map_of (rev kvs) q of Some v \<Rightarrow> if covers c1 q then Ret v else lookup c1 q
      | None \<Rightarrow> lookup c1 q)"
    using Cons.IH [OF c1(2)] by blast
  have "lookup c' q = (case map_of (rev (kv # kvs)) q of
      Some v \<Rightarrow> if covers c q then Ret v else lookup c q | None \<Rightarrow> lookup c q)" for q
    using c'(4) lookup_store [OF Cons.prems c1(1)] c1(3)
    by (auto simp: kv map_add_def split: option.splits)
  then show ?case using c1 c' kv by auto
qed

end

text \<open>
  The array implements the contract as long as the entry of the largest frame number lies in it.
\<close>

definition addr_map_ok :: "ctx_struct \<Rightarrow> bool" where
  "addr_map_ok ctx \<longleftrightarrow>
    (case addr_map ctx of MapAt xs \<Rightarrow>
       addr_map_pfn_max ctx < addr_map_pfn_min ctx
       \<or> unat (addr_map_pfn_max ctx - addr_map_pfn_min ctx) < length xs
     | _ \<Rightarrow> False)"

abbreviation lookup_pfn :: "ctx_struct \<Rightarrow> u64 \<Rightarrow> u64 outcome" where
  "lookup_pfn ctx pfn \<equiv> get_addr_map_vaddr_verify ctx pfn False"

lemma complain_irrelevant: "get_addr_map_vaddr_verify ctx pfn b = lookup_pfn ctx pfn"
  by (simp add: get_addr_map_vaddr_verify_def)

lemma range_index:
  fixes lo hi p :: u64
  assumes "lo \<le> p" "p \<le> hi"
  shows "unat (p - lo) \<le> unat (hi - lo)"
proof -
  have "lo \<le> hi" using assms by simp
  then show ?thesis using assms by (simp add: unat_sub word_le_nat_alt)
qed

lemma range_index_inj:
  fixes lo p q :: u64
  shows "unat (p - lo) = unat (q - lo) \<longleftrightarrow> p = q"
  by (metis diff_add_cancel word_unat_eq_iff)

interpretation mgr: pfn_table lookup_pfn set_addr_map_vaddr addr_map_ok in_pfn_range
proof
  fix c p v c' q
  assume ok: "addr_map_ok c"
  then obtain xs where xs: "addr_map c = MapAt xs"
    by (auto simp: addr_map_ok_def split: map_ptr.splits)
  have idx: "unat (r - addr_map_pfn_min c) < length xs" if "in_pfn_range c r" for r
    using ok xs that range_index [of "addr_map_pfn_min c" r "addr_map_pfn_max c"]
    by (auto simp: addr_map_ok_def in_pfn_range_def)
  show "\<exists>v. lookup_pfn c p = Ret v"
    using idx [of p] by (auto simp: get_addr_map_vaddr_verify_def map_read_def xs in_pfn_range_def)
  show "\<not> in_pfn_range c p \<Longrightarrow> lookup_pfn c p = Ret 0"
    by (auto simp: get_addr_map_vaddr_verify_def in_pfn_range_def)
  show "\<exists>c'. set_addr_map_vaddr c p v = Ret c' \<and> addr_map_ok c' \<and> in_pfn_range c' = in_pfn_range c"
    using idx [of p] ok
    by (auto simp: set_addr_map_vaddr_def map_write_def xs in_pfn_range_def addr_map_ok_def fun_eq_iff)
  assume "set_addr_map_vaddr c p v = Ret c'"
  then show "lookup_pfn c' q = (if q = p \<and> in_pfn_range c p then Ret v else lookup_pfn c q)"
    using idx [of p] idx [of q] range_index_inj [of p "addr_map_pfn_min c" q] xs
    by (auto simp: set_addr_map_vaddr_def map_write_def map_read_def get_addr_map_vaddr_verify_def
        in_pfn_range_def nth_list_update split: if_splits)
qed

lemma get_vaddr_lookup: "get_addr_map_vaddr ctx pfn = lookup_pfn ctx pfn"
  by (simp only: get_addr_map_vaddr_def get_addr_map_vaddr_verify_def)

text \<open>The address the table holds for a frame, 0 for none.\<close>

definition vaddr_of :: "ctx_struct \<Rightarrow> u64 \<Rightarrow> u64" where
  "vaddr_of ctx p = (case lookup_pfn ctx p of Ret v \<Rightarrow> v | Ub _ \<Rightarrow> 0)"

lemma lookup_vaddr_of: "addr_map_ok ctx \<Longrightarrow> lookup_pfn ctx p = Ret (vaddr_of ctx p)"
  using mgr.lookup_ret [of ctx p] by (auto simp: vaddr_of_def)

lemma mmap_entries_bounds:
  assumes "unat sz < 2 ^ 61"
  shows "unat sz \<le> mmap_entries (8 * sz)"
    and "unat sz < mmap_entries (8 * sz) \<longleftrightarrow> unat sz mod 512 \<noteq> 0"
proof -
  have u: "unat (8 * sz) = 8 * unat sz"
    using assms by (simp add: unat_word_ariths)
  have e: "(8 * unat sz + 4095) div 4096 = (unat sz + 511) div 512"
  proof -
    have "(8 * unat sz + 4095) div 4096 = ((8 * unat sz + 4095) div 8) div 512"
      by (simp add: div_mult2_eq [symmetric])
    also have "(8 * unat sz + 4095) div 8 = unat sz + 511" by simp
    finally show ?thesis .
  qed
  define q r where "q = unat sz div 512" and "r = unat sz mod 512"
  have n: "unat sz = 512 * q + r" "r < 512" by (simp_all add: q_def r_def)
  have "(unat sz + 511) div 512 = q + (if r = 0 then 0 else 1)"
    using n by auto
  then have me: "mmap_entries (8 * sz) = 512 * q + (if r = 0 then 0 else 512)"
    by (simp add: mmap_entries_def u e)
  show "unat sz \<le> mmap_entries (8 * sz)" using n me by auto
  show "unat sz < mmap_entries (8 * sz) \<longleftrightarrow> unat sz mod 512 \<noteq> 0"
    using n me by (auto simp: r_def [symmetric])
qed

subsection \<open>Scans as folds over the visited pages\<close>

text \<open>
  Documented behaviour of a 24-byte read at a page-aligned address of a live process: it fails,
  or it delivers the whole structure. \<open>tm\<close> is what the page at an address starts with.
\<close>

definition reads_pages :: "mem_read \<Rightarrow> (u64 \<rightharpoonup> fvp_escape_scan_struct) \<Rightarrow> bool" where
  "reads_pages rd tm \<longleftrightarrow>
     (\<forall>a e. rd a e = (case tm a of None \<Rightarrow> (- 1, e) | Some s \<Rightarrow> (24, s)))"

definition tagged :: "(u64 \<rightharpoonup> fvp_escape_scan_struct) \<Rightarrow> u64 \<Rightarrow> bool" where
  "tagged tm a \<longleftrightarrow> (case tm a of None \<Rightarrow> False | Some s \<Rightarrow> ctrl_magic s = FVP_CONTROL_MAGIC)"

definition tag_at :: "(u64 \<rightharpoonup> fvp_escape_scan_struct) \<Rightarrow> u64 \<Rightarrow> u64" where
  "tag_at tm a = (case tm a of None \<Rightarrow> 0 | Some s \<Rightarrow> addr_tag s)"

definition scan_pairs :: "(u64 \<rightharpoonup> fvp_escape_scan_struct) \<Rightarrow> u64 list \<Rightarrow> (u64 \<times> u64) list" where
  "scan_pairs tm as = map (\<lambda>a. (tag_at tm a, a)) (filter (tagged tm) as)"

lemma dims_step_fold:
  assumes "reads_pages rd tm"
  shows "snd (fold (dims_step rd) as (e, lo, hi)) =
    (fold min (map (tag_at tm) (filter (tagged tm) as)) lo,
     fold max (map (tag_at tm) (filter (tagged tm) as)) hi)"
proof (induction as arbitrary: e lo hi)
  case (Cons a as)
  have "\<exists>e'. dims_step rd a (e, lo, hi) =
      (e', if tagged tm a then (min (tag_at tm a) lo, max (tag_at tm a) hi) else (lo, hi))"
    using assms by (auto simp: dims_step_def reads_pages_def tagged_def tag_at_def min_def max_def
        split: option.splits)
  then obtain e' where "dims_step rd a (e, lo, hi) =
      (e', if tagged tm a then (min (tag_at tm a) lo, max (tag_at tm a) hi) else (lo, hi))" by blast
  then show ?case using Cons.IH by simp
qed simp

lemma scan_step_cases:
  assumes "reads_pages rd tm"
  shows "\<not> tagged tm a \<Longrightarrow> \<exists>e'. scan_step rd a (Ret (e, ctx)) = (False, Ret (e', ctx))"
    and "tagged tm a \<Longrightarrow> \<exists>e'. scan_step rd a (Ret (e, ctx)) =
      (False, obind (set_addr_map_vaddr ctx (tag_at tm a) a) (\<lambda>ctx'. Ret (e', ctx')))"
  using assms by (auto simp: scan_step_def reads_pages_def tagged_def tag_at_def split: option.splits)

lemma visit_scan_stop: "visit (scan_step rd) as (Ub u) = Ub u"
  by (cases as) (simp_all add: scan_step_def)

lemma visit_scan:
  assumes "reads_pages rd tm"
  shows "obind (visit (scan_step rd) as (Ret (e, ctx))) (\<lambda>p. Ret (snd p)) =
    ofold (\<lambda>(p, v) c. set_addr_map_vaddr c p v) (scan_pairs tm as) ctx"
proof (induction as arbitrary: e ctx)
  case (Cons a as)
  show ?case
  proof (cases "tagged tm a")
    case False
    then obtain e' where "scan_step rd a (Ret (e, ctx)) = (False, Ret (e', ctx))"
      using scan_step_cases(1) [OF assms] by blast
    then show ?thesis using False Cons.IH by (simp add: scan_pairs_def)
  next
    case True
    then obtain e' where "scan_step rd a (Ret (e, ctx)) =
        (False, obind (set_addr_map_vaddr ctx (tag_at tm a) a) (\<lambda>ctx'. Ret (e', ctx')))"
      using scan_step_cases(2) [OF assms] by blast
    then show ?thesis
      using True Cons.IH
      by (cases "set_addr_map_vaddr ctx (tag_at tm a) a") (simp_all add: scan_pairs_def visit_scan_stop)
  qed
qed (simp add: scan_pairs_def)

lemma fvpmem_scan_eq:
  assumes "reads_pages rd tm" "unat (target_to ctx) \<le> 2 ^ 64 - 4096"
  shows "fvpmem_scan_addresses rd e ctx =
    Some (ofold (\<lambda>(p, v) c. set_addr_map_vaddr c p v)
            (scan_pairs tm (page_addrs (target_from ctx) (target_to ctx))) ctx)"
  using visit_scan [OF assms(1)] assms(2) by (simp add: fvpmem_scan_addresses_def for_pages_visit)

lemma find_step_visit:
  assumes "reads_pages rd tm"
    and "\<And>a. a \<in> set as \<Longrightarrow> a \<noteq> 0"
  shows "\<exists>e'. visit (find_step rd) as (e, 0, pfn) =
    (case find (\<lambda>a. case tm a of None \<Rightarrow> False
        | Some s \<Rightarrow> ctrl_magic s = FVP_CONTROL_MAGIC \<and> escape_magic s = FVP_ESCAPE_MAGIC) as of
       None \<Rightarrow> (e', 0, pfn) | Some a \<Rightarrow> (e', a, tag_at tm a))"
  using assms(2)
proof (induction as arbitrary: e)
  case (Cons a as)
  then show ?case
    using assms(1)
    by (cases "tm a") (auto simp: find_step_def reads_pages_def tag_at_def)
qed simp

lemma fold_min_le: "fold min xs (lo :: u64) \<le> lo" "x \<in> set xs \<Longrightarrow> fold min xs lo \<le> x"
proof -
  have "fold min xs lo \<le> lo \<and> (\<forall>x \<in> set xs. fold min xs lo \<le> x)"
  proof (induction xs arbitrary: lo)
    case (Cons a xs)
    then have "fold min xs (min a lo) \<le> min a lo" by blast
    with Cons show ?case by auto
  qed simp
  then show "fold min xs lo \<le> lo" "x \<in> set xs \<Longrightarrow> fold min xs lo \<le> x" by auto
qed

lemma fold_max_ge: "hi \<le> fold max xs (hi :: u64)" "x \<in> set xs \<Longrightarrow> x \<le> fold max xs hi"
proof -
  have "hi \<le> fold max xs hi \<and> (\<forall>x \<in> set xs. x \<le> fold max xs hi)"
  proof (induction xs arbitrary: hi)
    case (Cons a xs)
    then have "max a hi \<le> fold max xs (max a hi)" by blast
    then have "a \<le> fold max xs (max a hi)" "hi \<le> fold max xs (max a hi)"
      by (simp_all only: max.bounded_iff)
    with Cons show ?case by auto
  qed simp
  then show "hi \<le> fold max xs hi" "x \<in> set xs \<Longrightarrow> x \<le> fold max xs hi" by auto
qed

lemma find_dimensions_eq:
  assumes "reads_pages rd tm" "unat (target_to ctx) \<le> 2 ^ 64 - 4096"
  shows "fvpmem_find_dimensions rd e ctx =
    (let tags = map (tag_at tm) (filter (tagged tm) (page_addrs (target_from ctx) (target_to ctx)))
     in Some (fold min tags 0x7FFFFFFFFFFFFFFF, fold max tags 0))"
  using assms(2)
  by (simp add: fvpmem_find_dimensions_def for_pages_visit Let_def
      visit_no_break [where g = "dims_step rd"] dims_step_fold [OF assms(1)])

lemma dimensions_bound_tags:
  assumes "reads_pages rd tm" "unat (target_to ctx) \<le> 2 ^ 64 - 4096"
    and "fvpmem_find_dimensions rd e ctx = Some (lo, hi)"
    and "a \<in> set (page_addrs (target_from ctx) (target_to ctx))" "tagged tm a"
  shows "lo \<le> tag_at tm a" "tag_at tm a \<le> hi"
proof -
  let ?tags = "map (tag_at tm) (filter (tagged tm) (page_addrs (target_from ctx) (target_to ctx)))"
  have "lo = fold min ?tags 0x7FFFFFFFFFFFFFFF" "hi = fold max ?tags 0"
    using assms(3) by (simp_all add: find_dimensions_eq [OF assms(1,2)] Let_def)
  moreover have "tag_at tm a \<in> set ?tags" using assms(4,5) by auto
  ultimately show "lo \<le> tag_at tm a" "tag_at tm a \<le> hi"
    using fold_min_le(2) fold_max_ge(2) by metis+
qed

text \<open>The fresh table: all zero, and sound unless the number of entries is a multiple of 512.\<close>

lemma init_addr_map_fresh:
  assumes "init_addr_map mmap_ok ctx lo hi = (0, ctx')"
  shows "addr_map ctx' = MapAt (replicate (mmap_entries (8 * (hi - lo))) 0)"
    and "addr_map_pfn_min ctx' = lo" "addr_map_pfn_max ctx' = hi"
    and "target_from ctx' = target_from ctx" "target_to ctx' = target_to ctx"
  using assms by (auto simp: init_addr_map_def Let_def split: if_splits)

lemma init_addr_map_ok:
  assumes "init_addr_map mmap_ok ctx lo hi = (0, ctx')" "unat (hi - lo) < 2 ^ 61"
    and "unat (hi - lo) mod 512 \<noteq> 0"
  shows "addr_map_ok ctx'"
  using mmap_entries_bounds(2) [OF assms(2)] assms(3)
  by (simp add: addr_map_ok_def init_addr_map_fresh [OF assms(1)])

lemma fresh_lookup:
  assumes "init_addr_map mmap_ok ctx lo hi = (0, ctx')" "addr_map_ok ctx'"
  shows "lookup_pfn ctx' p = Ret 0"
proof (cases "in_pfn_range ctx' p")
  case True
  note f = init_addr_map_fresh [OF assms(1)]
  have "unat (p - lo) < mmap_entries (8 * (hi - lo))"
    using True assms(2) range_index [of lo p hi] by (auto simp: addr_map_ok_def in_pfn_range_def f)
  then show ?thesis
    by (simp add: get_addr_map_vaddr_verify_def map_read_def f)
qed (simp add: mgr.lookup_outside assms(2))

lemma scan_pairs_lookup:
  assumes "distinct (map fst (scan_pairs tm as))" "a \<in> set as" "tagged tm a"
  shows "map_of (rev (scan_pairs tm as)) (tag_at tm a) = Some a"
proof -
  have "(tag_at tm a, a) \<in> set (rev (scan_pairs tm as))"
    using assms(2,3) by (auto simp: scan_pairs_def)
  moreover have "distinct (map fst (rev (scan_pairs tm as)))"
    using assms(1) by (metis distinct_rev rev_map)
  ultimately show ?thesis by (simp add: map_of_is_SomeI)
qed

subsection \<open>Properties: the table after boot\<close>

text \<open>The two scans of a boot, one after the other.\<close>

lemma boot_table:
  assumes "reads_pages rd tm" "unat (target_to ctx) \<le> 2 ^ 64 - 4096"
    and "as = page_addrs (target_from ctx) (target_to ctx)"
    and "distinct (map (tag_at tm) (filter (tagged tm) as))"
    and "fvpmem_find_dimensions rd e ctx = Some (lo, hi)"
    and "unat (hi - lo) < 2 ^ 61" "unat (hi - lo) mod 512 \<noteq> 0"
    and "init_addr_map mmap_ok ctx lo hi = (0, ctx1)"
  shows "\<exists>ctx2. fvpmem_scan_addresses rd e' ctx1 = Some (Ret ctx2) \<and> addr_map_ok ctx2
    \<and> (\<forall>a \<in> set as. tagged tm a \<longrightarrow> lookup_pfn ctx2 (tag_at tm a) = Ret a)
    \<and> (\<forall>p. p \<notin> tag_at tm ` {a \<in> set as. tagged tm a} \<longrightarrow> lookup_pfn ctx2 p = Ret 0)"
proof -
  note f = init_addr_map_fresh [OF assms(8)]
  have ok: "addr_map_ok ctx1" using init_addr_map_ok [OF assms(8,6,7)] .
  obtain ctx2 where c: "ofold (\<lambda>(p, v) c. set_addr_map_vaddr c p v) (scan_pairs tm as) ctx1 = Ret ctx2"
    "addr_map_ok ctx2" "\<forall>q. lookup_pfn ctx2 q = (case map_of (rev (scan_pairs tm as)) q of
        Some v \<Rightarrow> if in_pfn_range ctx1 q then Ret v else lookup_pfn ctx1 q | None \<Rightarrow> lookup_pfn ctx1 q)"
    using mgr.store_all [OF ok] by blast
  have d: "distinct (map fst (scan_pairs tm as))"
    using assms(4) by (simp add: scan_pairs_def comp_def)
  have "lookup_pfn ctx2 (tag_at tm a) = Ret a" if "a \<in> set as" "tagged tm a" for a
    using c(3) scan_pairs_lookup [OF d that] dimensions_bound_tags [OF assms(1,2,5)] that
    by (simp add: in_pfn_range_def f assms(3))
  moreover have "lookup_pfn ctx2 p = Ret 0" if "p \<notin> tag_at tm ` {a \<in> set as. tagged tm a}" for p
  proof -
    have "map_of (rev (scan_pairs tm as)) p = None"
      using that by (auto simp: map_of_eq_None_iff scan_pairs_def)
    then show ?thesis using c(3) fresh_lookup [OF assms(8) ok] by simp
  qed
  ultimately show ?thesis
    using c fvpmem_scan_eq [OF assms(1), of ctx1 e'] assms(2,3) by (auto simp: f)
qed

text \<open>C7: The table of a freshly booted guest. After the two scans of
  \<open>map_memory_fvp_boot\<close>, when the tagged pages of the simulator carry distinct frame numbers
  and the number of frames between smallest and largest is not a multiple of 512, every tagged
  frame looks up the address of its page and every other frame looks up 0.\<close>

theorem boot_table_complete:
  assumes "reads_pages rd tm" "unat (target_to ctx) \<le> 2 ^ 64 - 4096"
    and "as = page_addrs (target_from ctx) (target_to ctx)"
    and "distinct (map (tag_at tm) (filter (tagged tm) as))"
    and "fvpmem_find_dimensions rd e ctx = Some (lo, hi)"
    and "unat (hi - lo) < 2 ^ 61" "unat (hi - lo) mod 512 \<noteq> 0"
    and "init_addr_map mmap_ok ctx lo hi = (0, ctx1)"
  shows "\<exists>ctx2. fvpmem_scan_addresses rd e' ctx1 = Some (Ret ctx2) \<and> addr_map_ok ctx2
    \<and> (\<forall>a \<in> set as. tagged tm a \<longrightarrow> lookup_pfn ctx2 (tag_at tm a) = Ret a)
    \<and> (\<forall>p. p \<notin> tag_at tm ` {a \<in> set as. tagged tm a} \<longrightarrow> lookup_pfn ctx2 p = Ret 0)"
  using boot_table [OF assms] .

text \<open>The table is one entry short. \<open>init_addr_map\<close> allocates entries for the frames from
  \<open>min\<close> up to but not including \<open>max\<close>, while the accessors accept \<open>max\<close> itself. The
  access for \<open>max\<close> stays inside the pages \<open>mmap\<close> returns unless the number of entries is a
  multiple of 512; then it is out of bounds. All frames below \<open>max\<close> are in bounds.\<close>

theorem addr_map_last_entry:
  assumes "init_addr_map mmap_ok ctx lo hi = (0, ctx')" "lo \<le> hi" "unat (hi - lo) < 2 ^ 61"
  shows "(\<forall>p. lo \<le> p \<and> p < hi \<longrightarrow> lookup_pfn ctx' p = Ret 0)
    \<and> lookup_pfn ctx' hi = (if unat (hi - lo) mod 512 = 0 then Ub OutOfBounds else Ret 0)
    \<and> (unat (hi - lo) mod 512 = 0 \<longrightarrow> set_addr_map_vaddr ctx' hi v = Ub OutOfBounds)"
proof -
  note f = init_addr_map_fresh [OF assms(1)]
  note b = mmap_entries_bounds [OF assms(3)]
  have "lookup_pfn ctx' p = Ret 0" if "lo \<le> p" "p < hi" for p
  proof -
    have "unat (p - lo) < unat (hi - lo)"
      using that by (simp add: unat_sub word_less_nat_alt word_le_nat_alt)
    with b(1) that show ?thesis
      by (simp add: get_addr_map_vaddr_verify_def map_read_def f)
  qed
  moreover have "lookup_pfn ctx' hi = (if unat (hi - lo) mod 512 = 0 then Ub OutOfBounds else Ret 0)"
    using b(2) assms(2) by (simp add: get_addr_map_vaddr_verify_def map_read_def f)
  moreover have "unat (hi - lo) mod 512 = 0 \<Longrightarrow> set_addr_map_vaddr ctx' hi v = Ub OutOfBounds"
    using b(2) assms(2) by (simp add: set_addr_map_vaddr_def map_write_def f)
  ultimately show ?thesis by blast
qed

text \<open>A simulator with two tagged pages.\<close>

definition demo_ctx :: ctx_struct where
  "demo_ctx = \<lparr>target_mem_fd = 3, target_pid = 77, target_from = 0x10000, target_to = 0x12000,
     escape_page = 0, escape_page_mmap_ctx = \<lparr>region_len = 0, region_entries = None\<rparr>,
     escape_page_pfn = 5, escape_vaddr = 0x10000, escape_page_reserve_size = 0x1000,
     addr_map = MapNull, addr_map_pfn_min = 0, addr_map_pfn_max = 0, addr_map_size = 0,
     checksum_vaddrs_saved = 0\<rparr>"

definition demo_tm :: "u64 \<rightharpoonup> fvp_escape_scan_struct" where
  "demo_tm a =
    (if a = 0x10000 then
       Some \<lparr>ctrl_magic = FVP_CONTROL_MAGIC, addr_tag = 5, escape_magic = FVP_ESCAPE_MAGIC\<rparr>
     else if a = 0x11000 then
       Some \<lparr>ctrl_magic = FVP_CONTROL_MAGIC, addr_tag = 9, escape_magic = 0\<rparr>
     else None)"

definition demo_rd :: mem_read where
  "demo_rd a e = (case demo_tm a of None \<Rightarrow> (- 1, e) | Some s \<Rightarrow> (24, s))"

lemma demo_reads: "reads_pages demo_rd demo_tm"
  by (simp add: reads_pages_def demo_rd_def)

lemma demo_pages: "page_addrs (target_from demo_ctx) (target_to demo_ctx) = [0x10000, 0x11000]"
  by (simp add: demo_ctx_def page_addrs_step page_addrs_done)

lemma demo_init: "init_addr_map (\<lambda>_. True) demo_ctx 5 9 =
    (0, snd (init_addr_map (\<lambda>_. True) demo_ctx 5 9))"
  by (simp add: init_addr_map_def Let_def)

lemma demo_tags: "map (tag_at demo_tm) (filter (tagged demo_tm) [0x10000, 0x11000]) = [5, 9]"
  by code_simp

lemma demo_bound: "unat (target_to demo_ctx) \<le> 2 ^ 64 - 4096"
  by (simp add: demo_ctx_def)

lemma demo_dims: "fvpmem_find_dimensions demo_rd e demo_ctx = Some (5, 9)"
  by (simp add: find_dimensions_eq [OF demo_reads demo_bound, unfolded demo_pages demo_tags])

theorem boot_table_complete_witness:
  "\<exists>ctx2. fvpmem_scan_addresses demo_rd \<lparr>ctrl_magic = 0, addr_tag = 0, escape_magic = 0\<rparr>
       (snd (init_addr_map (\<lambda>_. True) demo_ctx 5 9)) = Some (Ret ctx2)
    \<and> addr_map_ok ctx2
    \<and> (\<forall>a \<in> set [0x10000, 0x11000]. tagged demo_tm a \<longrightarrow> lookup_pfn ctx2 (tag_at demo_tm a) = Ret a)
    \<and> (\<forall>p. p \<notin> tag_at demo_tm ` {a \<in> set [0x10000, 0x11000]. tagged demo_tm a} \<longrightarrow>
          lookup_pfn ctx2 p = Ret 0)"
proof -
  have "distinct (map (tag_at demo_tm) (filter (tagged demo_tm) [0x10000, 0x11000]))"
    unfolding demo_tags by simp
  then show ?thesis
    using boot_table_complete [OF demo_reads demo_bound demo_pages [symmetric] _ demo_dims _ _ demo_init]
    by simp
qed

theorem addr_map_last_entry_witness:
  "lookup_pfn (snd (init_addr_map (\<lambda>_. True) demo_ctx 5 9)) 7 = Ret 0
    \<and> lookup_pfn (snd (init_addr_map (\<lambda>_. True) demo_ctx 5 9)) 9 = Ret 0
    \<and> lookup_pfn (snd (init_addr_map (\<lambda>_. True) demo_ctx 0 512)) 512 = Ub OutOfBounds"
proof -
  have big: "init_addr_map (\<lambda>_. True) demo_ctx 0 512 =
      (0, snd (init_addr_map (\<lambda>_. True) demo_ctx 0 512))"
    by (simp add: init_addr_map_def Let_def)
  show ?thesis
    using addr_map_last_entry [OF demo_init] addr_map_last_entry [OF big] by simp
qed

text \<open>A table for the frames 5 to 9 with two pages in it.\<close>

definition demo_table :: ctx_struct where
  "demo_table = demo_ctx\<lparr>addr_map := MapAt ([0x10000, 0, 0x12000, 0, 0x14000] @ replicate 507 0),
     addr_map_pfn_min := 5, addr_map_pfn_max := 9, addr_map_size := 32\<rparr>"

lemma demo_table_ok: "addr_map_ok demo_table"
  by (simp add: addr_map_ok_def demo_table_def)

lemma demo_table_lookup:
  "lookup_pfn demo_table 5 = Ret 0x10000" "lookup_pfn demo_table 6 = Ret 0"
  "lookup_pfn demo_table 7 = Ret 0x12000"
  by (simp_all add: get_addr_map_vaddr_verify_def map_read_def demo_table_def)

lemma demo_vaddr: "vaddr_of demo_table 5 = 0x10000" "vaddr_of demo_table 6 = 0" "vaddr_of demo_table 7 = 0x12000"
  by (simp_all add: vaddr_of_def demo_table_lookup)

end
