(* ===== verification/Hex_Text.thy ===== *)
theory Hex_Text
  imports Acai_Prelude
begin

text \<open>
  The conversions of \<open>printf\<close> and \<open>scanf\<close> the programs exchange addresses with: \<open>%lx\<close> written and read
  back, on strings.
\<close>

subsection \<open>Hexadecimal text\<close>

definition hex_digits :: string where "hex_digits = ''0123456789abcdef''"

definition hex_digit :: "nat \<Rightarrow> char" where "hex_digit n = hex_digits ! (n mod 16)"

fun hex_nat :: "nat \<Rightarrow> string" where
  "hex_nat n = (if n < 16 then [hex_digit n] else hex_nat (n div 16) @ [hex_digit (n mod 16)])"

declare hex_nat.simps [simp del]

definition is_hex :: "char \<Rightarrow> bool" where "is_hex c \<longleftrightarrow> c \<in> set hex_digits"

fun index_of :: "char \<Rightarrow> string \<Rightarrow> nat" where
  "index_of c [] = 0"
| "index_of c (x # xs) = (if c = x then 0 else Suc (index_of c xs))"

definition hex_value :: "string \<Rightarrow> nat" where
  "hex_value = foldl (\<lambda>n c. 16 * n + index_of c hex_digits) 0"

text \<open>
  \<open>sscanf(line, "<prefix>%lx", &v)\<close> on lines the manager wrote: the literal prefix, then the
  longest run of (lower-case) hexadecimal digits; an overlong number saturates.
\<close>

definition scan_hex :: "string \<Rightarrow> (u64 \<times> string) option" where
  "scan_hex s =
    (let ds = takeWhile is_hex s
     in if ds = [] then None
        else Some (of_nat (min (hex_value ds) (2 ^ 64 - 1)), dropWhile is_hex s))"

definition strip :: "string \<Rightarrow> string \<Rightarrow> string option" where
  "strip p s = (if take (length p) s = p then Some (drop (length p) s) else None)"

subsection \<open>Reading back what was written\<close>

lemma hex_digit_index: "n < 16 \<Longrightarrow> index_of (hex_digit n) hex_digits = n \<and> is_hex (hex_digit n)"
proof -
  have "\<forall>n < 16. index_of (hex_digit n) hex_digits = n \<and> is_hex (hex_digit n)"
    by code_simp
  then show "n < 16 \<Longrightarrow> index_of (hex_digit n) hex_digits = n \<and> is_hex (hex_digit n)" by blast
qed

lemma hex_nat_props: "hex_value (hex_nat n) = n" "list_all is_hex (hex_nat n)" "hex_nat n \<noteq> []"
proof -
  have "hex_value (hex_nat n) = n \<and> list_all is_hex (hex_nat n) \<and> hex_nat n \<noteq> []"
  proof (induction n rule: hex_nat.induct)
    case (1 n)
    then show ?case
      using hex_digit_index [of n] hex_digit_index [of "n mod 16"]
      by (subst (1 2 3) hex_nat.simps) (auto simp: hex_value_def)
  qed
  then show "hex_value (hex_nat n) = n" "list_all is_hex (hex_nat n)" "hex_nat n \<noteq> []" by auto
qed

lemma scan_hex_nat:
  assumes "rest = [] \<or> \<not> is_hex (hd rest)"
  shows "scan_hex (hex_nat (unat (v :: u64)) @ rest) = Some (v, rest)"
proof -
  let ?h = "hex_nat (unat v)"
  have t: "takeWhile is_hex (?h @ rest) = ?h" "dropWhile is_hex (?h @ rest) = rest"
    using hex_nat_props(2) [of "unat v"] assms
    by (cases rest; simp add: list_all_iff takeWhile_append dropWhile_append)+
  have "unat v \<le> 2 ^ 64 - 1" using unsigned_less [of v, where ?'a = nat] by simp
  then show ?thesis
    using hex_nat_props(1,3) [of "unat v"] by (simp add: scan_hex_def t Let_def min_def)
qed

end
