(* ===== verification/Manager_Files.thy ===== *)
theory Manager_Files
  imports Usr_Manager Hex_Text
begin

text \<open>
  The settings and mapping files of the manager (\<open>usr_manager.c\<close>): checksums, writing,
  reading back, and the restart from file. A file is the list of its lines without the newline;
  \<open>fprintf\<close> with \<open>%lx\<close> and the matching \<open>sscanf\<close> conversions are those of \<open>Hex_Text\<close>.
\<close>

subsection \<open>Lines of the two files\<close>

definition sscanf_field :: "string \<Rightarrow> string \<Rightarrow> u64 option" where
  "sscanf_field name line =
     map_option fst (Option.bind (strip (name @ ''=0x'') line) scan_hex)"

definition field_line :: "string \<Rightarrow> u64 \<Rightarrow> string" where
  "field_line name v = name @ ''=0x'' @ hex_nat (unat v)"

definition mapping_line :: "u64 \<Rightarrow> u64 \<Rightarrow> string" where
  "mapping_line k v = ''0x'' @ hex_nat (unat k) @ ''=0x'' @ hex_nat (unat v)"

text \<open>\<open>sscanf(line, "0x%lx=0x%lx", &key, &val)\<close>, \<open>None\<close> unless both are converted.\<close>

definition sscanf_mapping :: "string \<Rightarrow> (u64 \<times> u64) option" where
  "sscanf_mapping line =
    Option.bind (strip ''0x'' line) (\<lambda>r.
    Option.bind (scan_hex r) (\<lambda>(k, r1).
    Option.bind (strip ''=0x'' r1) (\<lambda>r2.
    map_option (\<lambda>(v, _). (k, v)) (scan_hex r2))))"

subsection \<open>Checksums and writing\<close>

definition checksum_settings :: "ctx_struct \<Rightarrow> u64" where
  "checksum_settings ctx =
     scast (target_pid ctx) + target_from ctx + target_to ctx + escape_page_pfn ctx
     + escape_vaddr ctx + escape_page_reserve_size ctx + addr_map_pfn_min ctx
     + addr_map_pfn_max ctx + addr_map_size ctx"

text \<open>\<open>for (i = addr_map_pfn_min; i < addr_map_pfn_max; i ++)\<close>.\<close>

definition table_pfns :: "ctx_struct \<Rightarrow> u64 list" where
  "table_pfns ctx = map of_nat [unat (addr_map_pfn_min ctx)..<unat (addr_map_pfn_max ctx)]"

definition checksum_vaddrs :: "ctx_struct \<Rightarrow> u64 outcome" where
  "checksum_vaddrs ctx =
     ofold (\<lambda>i c. obind (get_addr_map_vaddr_verify ctx i False) (\<lambda>v. Ret (c + v))) (table_pfns ctx) 0"

definition settings_lines :: "ctx_struct \<Rightarrow> u64 \<Rightarrow> string list" where
  "settings_lines ctx cv =
    [field_line ''target_pid'' (ucast (target_pid ctx)),
     field_line ''target_from'' (target_from ctx),
     field_line ''target_to'' (target_to ctx),
     field_line ''escape_page_pfn'' (escape_page_pfn ctx),
     field_line ''escape_vaddr'' (escape_vaddr ctx),
     field_line ''escape_page_reserve_size'' (escape_page_reserve_size ctx),
     field_line ''addr_map_pfn_min'' (addr_map_pfn_min ctx),
     field_line ''addr_map_pfn_max'' (addr_map_pfn_max ctx),
     field_line ''addr_map_size'' (addr_map_size ctx),
     field_line ''checksum'' (checksum_settings ctx),
     field_line ''checksum_vaddrs'' cv]"

definition mapping_lines :: "ctx_struct \<Rightarrow> string list outcome" where
  "mapping_lines ctx =
     ofold (\<lambda>i ls. obind (get_addr_map_vaddr_verify ctx i False)
                    (\<lambda>mapping. Ret (if mapping \<noteq> 0 then ls @ [mapping_line i mapping] else ls)))
       (table_pfns ctx) []"

text \<open>The two \<open>fopen\<close> calls may fail; the result is the value returned and the files written.\<close>

definition save_settings ::
  "bool \<Rightarrow> bool \<Rightarrow> ctx_struct \<Rightarrow> (int \<times> string list option \<times> string list option) outcome" where
  "save_settings fopen1 fopen2 ctx =
    (if \<not> fopen1 then Ret (- 1, None, None)
     else obind (checksum_vaddrs ctx) (\<lambda>cv.
       let settings = settings_lines ctx cv
       in if \<not> fopen2 then Ret (- 1, Some settings, None)
          else obind (mapping_lines ctx) (\<lambda>ms. Ret (0, Some settings, Some ms))))"

subsection \<open>Reading back\<close>

text \<open>\<open>READ_LINE\<close>: at end of file \<open>fgets\<close> leaves the buffer as it is.\<close>

fun next_line :: "string \<times> string list \<Rightarrow> string \<times> string list" where
  "next_line (buf, []) = (buf, [])"
| "next_line (buf, l # ls) = (l, ls)"

definition READ_FIELD ::
  "string \<Rightarrow> (u64 \<Rightarrow> 's \<Rightarrow> 's) \<Rightarrow> (string \<times> string list) \<times> 's \<Rightarrow> (string \<times> string list) \<times> 's" where
  "READ_FIELD name upd rs =
    (let f = next_line (fst rs)
     in (f, case sscanf_field name (fst f) of None \<Rightarrow> snd rs | Some v \<Rightarrow> upd v (snd rs)))"

text \<open>
  \<open>sscanf\<close> stores eight bytes through \<open>&ctx->target_pid\<close>, a four-byte field: the upper half
  lands in the low half of \<open>target_from\<close>, which the next line overwrites.
\<close>

definition store_target_pid :: "u64 \<Rightarrow> ctx_struct \<Rightarrow> ctx_struct" where
  "store_target_pid v c =
     c\<lparr>target_pid := ucast v,
       target_from := (target_from c AND NOT (mask 32)) OR drop_bit 32 v\<rparr>"

definition read_settings :: "string list option \<Rightarrow> ctx_struct \<Rightarrow> int \<times> ctx_struct" where
  "read_settings file ctx =
    (case file of
       None \<Rightarrow> (- 1, ctx)
     | Some ls \<Rightarrow>
        (let on_ctx = (\<lambda>u v s. (u v (fst s), snd s));
             (f, ctx', check_settings) =
               (READ_FIELD ''checksum_vaddrs'' (on_ctx (\<lambda>v c. c\<lparr>checksum_vaddrs_saved := v\<rparr>)) \<circ>
                READ_FIELD ''checksum'' (\<lambda>v s. (fst s, v)) \<circ>
                READ_FIELD ''addr_map_size'' (on_ctx (\<lambda>v c. c\<lparr>addr_map_size := v\<rparr>)) \<circ>
                READ_FIELD ''addr_map_pfn_max'' (on_ctx (\<lambda>v c. c\<lparr>addr_map_pfn_max := v\<rparr>)) \<circ>
                READ_FIELD ''addr_map_pfn_min'' (on_ctx (\<lambda>v c. c\<lparr>addr_map_pfn_min := v\<rparr>)) \<circ>
                READ_FIELD ''escape_page_reserve_size''
                  (on_ctx (\<lambda>v c. c\<lparr>escape_page_reserve_size := v\<rparr>)) \<circ>
                READ_FIELD ''escape_vaddr'' (on_ctx (\<lambda>v c. c\<lparr>escape_vaddr := v\<rparr>)) \<circ>
                READ_FIELD ''escape_page_pfn'' (on_ctx (\<lambda>v c. c\<lparr>escape_page_pfn := v\<rparr>)) \<circ>
                READ_FIELD ''target_to'' (on_ctx (\<lambda>v c. c\<lparr>target_to := v\<rparr>)) \<circ>
                READ_FIELD ''target_from'' (on_ctx (\<lambda>v c. c\<lparr>target_from := v\<rparr>)) \<circ>
                READ_FIELD ''target_pid'' (on_ctx store_target_pid))
               (('''', ls), ctx, 0)
         in if checksum_settings ctx' \<noteq> check_settings then (- 1, ctx') else (0, ctx')))"

text \<open>A line that does not convert leaves \<open>key\<close> and \<open>val\<close> unset.\<close>

definition read_mappings :: "string list option \<Rightarrow> ctx_struct \<Rightarrow> (int \<times> ctx_struct) outcome" where
  "read_mappings file ctx =
    (case file of
       None \<Rightarrow> Ret (- 1, ctx)
     | Some ls \<Rightarrow>
        obind (ofold (\<lambda>line c. case sscanf_mapping line of
                        None \<Rightarrow> Ub Uninitialised
                      | Some (key, val) \<Rightarrow> set_addr_map_vaddr c key val) ls ctx) (\<lambda>ctx'.
        obind (checksum_vaddrs ctx') (\<lambda>cv.
          Ret (if checksum_vaddrs_saved ctx' \<noteq> cv then - 1 else 0, ctx'))))"

text \<open>
  \<open>map_memory_from_file\<close>. The escape buffer is created by \<open>mmap\<close> (\<open>buf\<close>, \<open>None\<close> when
  it fails) and filled by \<open>fh_mmap_region\<close> (\<open>map_region\<close>: its value and context).
\<close>

definition map_memory_from_file ::
  "string list option \<Rightarrow> string list option \<Rightarrow> (u64 \<Rightarrow> bool) \<Rightarrow> u64 option
     \<Rightarrow> (ctx_struct \<Rightarrow> (int \<times> fh_mmap_region_ctx) outcome) \<Rightarrow> u32 \<Rightarrow> ctx_struct
     \<Rightarrow> (int \<times> ctx_struct) outcome" where
  "map_memory_from_file settings mappings mmap_ok buf map_region pid ctx =
    (case read_settings settings ctx of (ret, c1) \<Rightarrow>
      if ret \<noteq> 0 then Ret (ret, c1)
      else if target_pid c1 \<noteq> pid then Ret (- 1, c1)
      else case buf of
        None \<Rightarrow> Ret (- 1, c1)
      | Some b \<Rightarrow>
         (let c2 = c1\<lparr>escape_page := b\<rparr>
          in obind (map_region c2) (\<lambda>(ret, rc).
            if ret \<noteq> 0 then Ret (ret, c2)
            else case init_addr_map mmap_ok (c2\<lparr>escape_page_mmap_ctx := rc\<rparr>)
                        (addr_map_pfn_min c2) (addr_map_pfn_max c2) of
              (ret, c3) \<Rightarrow> if ret \<noteq> 0 then Ret (ret, c3) else read_mappings mappings c3)))"

subsection \<open>Text round trips\<close>

lemma sscanf_field_line: "sscanf_field name (field_line name v) = Some v"
  using scan_hex_nat [of "[]" v] by (simp add: sscanf_field_def field_line_def strip_def)

lemma sscanf_mapping_line: "sscanf_mapping (mapping_line k v) = Some (k, v)"
proof -
  have "\<not> is_hex CHR ''=''" by code_simp
  then show ?thesis
    using scan_hex_nat [of "''=0x'' @ hex_nat (unat v)" k] scan_hex_nat [of "[]" v]
    by (simp add: sscanf_mapping_def mapping_line_def strip_def)
qed

lemma READ_FIELD_line:
  "READ_FIELD name upd ((buf, field_line name v # ls), s) = ((field_line name v, ls), upd v s)"
  by (simp add: READ_FIELD_def sscanf_field_line)

text \<open>The fields the settings file carries.\<close>

definition same_settings :: "ctx_struct \<Rightarrow> ctx_struct \<Rightarrow> bool" where
  "same_settings c d \<longleftrightarrow>
     target_pid c = target_pid d \<and> target_from c = target_from d \<and> target_to c = target_to d
     \<and> escape_page_pfn c = escape_page_pfn d \<and> escape_vaddr c = escape_vaddr d
     \<and> escape_page_reserve_size c = escape_page_reserve_size d
     \<and> addr_map_pfn_min c = addr_map_pfn_min d \<and> addr_map_pfn_max c = addr_map_pfn_max d
     \<and> addr_map_size c = addr_map_size d"

lemma ucast_ucast_up [simp]: "ucast (ucast (p :: u32) :: u64) = p"
  by (rule bit_word_eqI) (simp add: bit_simps)

lemma read_settings_lines:
  "\<exists>c'. read_settings (Some (settings_lines ctx cv)) c0 = (0, c') \<and> same_settings c' ctx
    \<and> checksum_vaddrs_saved c' = cv"
  by (simp add: read_settings_def settings_lines_def READ_FIELD_line same_settings_def
      store_target_pid_def checksum_settings_def)

subsection \<open>The mapping file\<close>

lemma checksum_vaddrs_sum:
  assumes "addr_map_ok ctx"
  shows "checksum_vaddrs ctx = Ret (sum_list (map (vaddr_of ctx) (table_pfns ctx)))"
proof -
  have "ofold (\<lambda>i c. obind (lookup_pfn ctx i) (\<lambda>v. Ret (c + v))) is a =
      Ret (a + sum_list (map (vaddr_of ctx) is))" for "is" a
    by (induction "is" arbitrary: a) (simp_all add: lookup_vaddr_of [OF assms] add.assoc)
  then show ?thesis by (simp add: checksum_vaddrs_def)
qed

definition mapping_pairs :: "ctx_struct \<Rightarrow> (u64 \<times> u64) list" where
  "mapping_pairs ctx = map (\<lambda>i. (i, vaddr_of ctx i)) (filter (\<lambda>i. vaddr_of ctx i \<noteq> 0) (table_pfns ctx))"

lemma mapping_lines_pairs:
  assumes "addr_map_ok ctx"
  shows "mapping_lines ctx = Ret (map (\<lambda>(k, v). mapping_line k v) (mapping_pairs ctx))"
proof -
  have "ofold (\<lambda>i ls. obind (lookup_pfn ctx i)
        (\<lambda>mapping. Ret (if mapping \<noteq> 0 then ls @ [mapping_line i mapping] else ls))) is ls =
      Ret (ls @ map (\<lambda>i. mapping_line i (vaddr_of ctx i)) (filter (\<lambda>i. vaddr_of ctx i \<noteq> 0) is))" for "is" ls
    by (induction "is" arbitrary: ls) (simp_all add: lookup_vaddr_of [OF assms])
  then show ?thesis by (simp add: mapping_lines_def mapping_pairs_def)
qed

lemma read_mapping_fold:
  "ofold (\<lambda>line c. case sscanf_mapping line of None \<Rightarrow> Ub Uninitialised
      | Some (key, v) \<Rightarrow> set_addr_map_vaddr c key v) (map (\<lambda>(k, v). mapping_line k v) kvs) c =
   ofold (\<lambda>(p, v) c. set_addr_map_vaddr c p v) kvs c"
proof (induction kvs arbitrary: c)
  case (Cons kv kvs)
  then show ?case
    by (cases kv; cases "set_addr_map_vaddr c (fst kv) (snd kv)") (simp_all add: sscanf_mapping_line)
qed simp

lemma set_pfns:
  assumes "addr_map_pfn_min ctx \<le> addr_map_pfn_max ctx"
  shows "p \<in> set (table_pfns ctx) \<longleftrightarrow> addr_map_pfn_min ctx \<le> p \<and> p < addr_map_pfn_max ctx"
proof
  assume "p \<in> set (table_pfns ctx)"
  then obtain n where n: "p = of_nat n" "unat (addr_map_pfn_min ctx) \<le> n" "n < unat (addr_map_pfn_max ctx)"
    by (auto simp: table_pfns_def)
  then have "unat p = n"
    using unsigned_less [of "addr_map_pfn_max ctx", where ?'a = nat] by (simp add: unat_of_nat)
  then show "addr_map_pfn_min ctx \<le> p \<and> p < addr_map_pfn_max ctx"
    using n by (simp add: word_le_nat_alt word_less_nat_alt)
next
  assume "addr_map_pfn_min ctx \<le> p \<and> p < addr_map_pfn_max ctx"
  then have "unat p \<in> {unat (addr_map_pfn_min ctx)..<unat (addr_map_pfn_max ctx)}"
    by (simp add: word_le_nat_alt word_less_nat_alt)
  then have "of_nat (unat p) \<in> set (table_pfns ctx)"
    unfolding table_pfns_def set_map set_upt by (rule imageI)
  then show "p \<in> set (table_pfns ctx)" by simp
qed

lemma distinct_pfns: "distinct (table_pfns ctx)"
proof -
  have u: "unat (of_nat n :: u64) = n" if "n < unat (addr_map_pfn_max ctx)" for n
    using that unsigned_less [of "addr_map_pfn_max ctx", where ?'a = nat] by (simp add: unat_of_nat)
  have "inj_on (of_nat :: nat \<Rightarrow> u64) {unat (addr_map_pfn_min ctx)..<unat (addr_map_pfn_max ctx)}"
    by (rule inj_on_inverseI [where g = unat]) (simp add: u)
  then show ?thesis by (simp add: table_pfns_def distinct_map)
qed

lemma map_of_mapping_pairs:
  "map_of (rev (mapping_pairs ctx)) q =
    (if q \<in> set (table_pfns ctx) \<and> vaddr_of ctx q \<noteq> 0 then Some (vaddr_of ctx q) else None)"
proof -
  have d: "distinct (map fst (rev (mapping_pairs ctx)))"
    using distinct_pfns [of ctx] by (simp add: mapping_pairs_def rev_map [symmetric] comp_def)
  show ?thesis
  proof (cases "q \<in> set (table_pfns ctx) \<and> vaddr_of ctx q \<noteq> 0")
    case True
    then have "(q, vaddr_of ctx q) \<in> set (rev (mapping_pairs ctx))" by (auto simp: mapping_pairs_def)
    with d True show ?thesis by simp
  next
    case False
    then have "q \<notin> fst ` set (rev (mapping_pairs ctx))" by (auto simp: mapping_pairs_def)
    then have "map_of (rev (mapping_pairs ctx)) q = None" by (simp only: map_of_eq_None_iff not_False_eq_True)
    with False show ?thesis by (simp only: if_False)
  qed
qed

text \<open>Loading the pairs of a table into a fresh one of the same dimensions.\<close>

lemma read_mappings_fresh:
  assumes "addr_map_ok ctx" "addr_map_pfn_min ctx \<le> addr_map_pfn_max ctx"
    and "addr_map_ok c1" "\<And>p. lookup_pfn c1 p = Ret 0"
    and "addr_map_pfn_min c1 = addr_map_pfn_min ctx" "addr_map_pfn_max c1 = addr_map_pfn_max ctx"
  shows "\<exists>c2. ofold (\<lambda>(p, v) c. set_addr_map_vaddr c p v) (mapping_pairs ctx) c1 = Ret c2
    \<and> addr_map_ok c2
    \<and> (\<forall>p. lookup_pfn c2 p =
         (if addr_map_pfn_min ctx \<le> p \<and> p < addr_map_pfn_max ctx then lookup_pfn ctx p else Ret 0))"
proof -
  obtain c2 where c2: "ofold (\<lambda>(p, v) c. set_addr_map_vaddr c p v) (mapping_pairs ctx) c1 = Ret c2"
    "addr_map_ok c2" "\<forall>q. lookup_pfn c2 q = (case map_of (rev (mapping_pairs ctx)) q of
      Some v \<Rightarrow> if in_pfn_range c1 q then Ret v else lookup_pfn c1 q | None \<Rightarrow> lookup_pfn c1 q)"
    using mgr.store_all [OF assms(3)] by blast
  have "lookup_pfn c2 p = (if addr_map_pfn_min ctx \<le> p \<and> p < addr_map_pfn_max ctx
      then lookup_pfn ctx p else Ret 0)" for p
    using c2(3) set_pfns [OF assms(2)] lookup_vaddr_of [OF assms(1)] assms(4-6)
    by (auto simp: map_of_mapping_pairs in_pfn_range_def)
  with c2 show ?thesis by blast
qed

lemma store_all_frame:
  "ofold (\<lambda>(p, v) c. set_addr_map_vaddr c p v) kvs c1 = Ret c2 \<Longrightarrow> \<exists>m. c2 = c1\<lparr>addr_map := m\<rparr>"
proof (induction kvs arbitrary: c1)
  case Nil
  then show ?case by (auto intro: exI [of _ "addr_map c1"])
next
  case (Cons kv kvs)
  then show ?case
    by (cases kv) (fastforce simp: set_addr_map_vaddr_def outcome_simps split: if_splits)
qed

lemma pfns_cong:
  "addr_map_pfn_min c = addr_map_pfn_min d \<Longrightarrow> addr_map_pfn_max c = addr_map_pfn_max d \<Longrightarrow> table_pfns c = table_pfns d"
  by (simp add: table_pfns_def)

text \<open>Reading the saved pairs into a fresh table passes the checksum over the addresses.\<close>

lemma read_mappings_saved:
  assumes "addr_map_ok ctx" "addr_map_pfn_min ctx \<le> addr_map_pfn_max ctx"
    and "addr_map_ok c1" "\<And>p. lookup_pfn c1 p = Ret 0"
    and "addr_map_pfn_min c1 = addr_map_pfn_min ctx" "addr_map_pfn_max c1 = addr_map_pfn_max ctx"
    and "checksum_vaddrs ctx = Ret (checksum_vaddrs_saved c1)" "mapping_lines ctx = Ret ms"
  shows "\<exists>m. read_mappings (Some ms) c1 = Ret (0, c1\<lparr>addr_map := m\<rparr>)
    \<and> (\<forall>p. lookup_pfn (c1\<lparr>addr_map := m\<rparr>) p =
         (if addr_map_pfn_min ctx \<le> p \<and> p < addr_map_pfn_max ctx then lookup_pfn ctx p else Ret 0))"
proof -
  obtain c2 where c2: "ofold (\<lambda>(p, v) c. set_addr_map_vaddr c p v) (mapping_pairs ctx) c1 = Ret c2"
    "addr_map_ok c2"
    "\<forall>p. lookup_pfn c2 p =
       (if addr_map_pfn_min ctx \<le> p \<and> p < addr_map_pfn_max ctx then lookup_pfn ctx p else Ret 0)"
    using read_mappings_fresh [OF assms(1-6)] by blast
  obtain m where m: "c2 = c1\<lparr>addr_map := m\<rparr>" using store_all_frame [OF c2(1)] by blast
  have "table_pfns c2 = table_pfns ctx" using assms(5,6) by (simp add: m table_pfns_def)
  moreover have "vaddr_of c2 p = vaddr_of ctx p" if "p \<in> set (table_pfns ctx)" for p
    using that c2(3) set_pfns [OF assms(2)] by (simp add: vaddr_of_def)
  ultimately have "checksum_vaddrs c2 = checksum_vaddrs ctx"
    using checksum_vaddrs_sum [OF c2(2)] checksum_vaddrs_sum [OF assms(1)]
    by (simp cong: map_cong)
  moreover have ms: "ms = map (\<lambda>(k, v). mapping_line k v) (mapping_pairs ctx)"
    using assms(8) mapping_lines_pairs [OF assms(1)] by simp
  ultimately have "read_mappings (Some ms) c1 = Ret (0, c2)"
    using assms(7) c2(1) by (simp add: read_mappings_def ms read_mapping_fold m)
  then show ?thesis using c2(3) m by blast
qed

subsection \<open>Properties: restart from the files\<close>

text \<open>C12: Stopping and restarting the manager. What \<open>save_settings\<close> writes is accepted by
  \<open>map_memory_from_file\<close> of a later run (both checksums match), which restores every setting
  and the address of every frame below \<open>addr_map_pfn_max\<close>. The frame \<open>addr_map_pfn_max\<close>
  itself, which the table also covers, is not written and looks up 0 afterwards.\<close>

theorem restart_restores_table:
  assumes "addr_map_ok ctx" "addr_map_pfn_min ctx < addr_map_pfn_max ctx"
    and "addr_map_size ctx = 8 * (addr_map_pfn_max ctx - addr_map_pfn_min ctx)"
    and "unat (addr_map_pfn_max ctx - addr_map_pfn_min ctx) < 2 ^ 61"
    and "unat (addr_map_pfn_max ctx - addr_map_pfn_min ctx) mod 512 \<noteq> 0"
    and "mmap_ok (addr_map_size ctx)" "\<And>c. map_region c = Ret (0, rc)"
  shows "\<exists>settings mappings c'.
    save_settings True True ctx = Ret (0, Some settings, Some mappings)
    \<and> map_memory_from_file (Some settings) (Some mappings) mmap_ok (Some b) map_region
        (target_pid ctx) c0 = Ret (0, c')
    \<and> same_settings c' ctx \<and> escape_page c' = b \<and> escape_page_mmap_ctx c' = rc
    \<and> (\<forall>p. lookup_pfn c' p =
         (if addr_map_pfn_min ctx \<le> p \<and> p < addr_map_pfn_max ctx then lookup_pfn ctx p else Ret 0))"
proof -
  let ?lo = "addr_map_pfn_min ctx" and ?hi = "addr_map_pfn_max ctx"
  obtain cv where cv: "checksum_vaddrs ctx = Ret cv" using checksum_vaddrs_sum [OF assms(1)] by blast
  obtain ms where ms: "mapping_lines ctx = Ret ms" using mapping_lines_pairs [OF assms(1)] by blast
  obtain c1 where c1: "read_settings (Some (settings_lines ctx cv)) c0 = (0, c1)"
    "same_settings c1 ctx" "checksum_vaddrs_saved c1 = cv"
    using read_settings_lines by blast
  define c2 where "c2 = c1\<lparr>escape_page := b, escape_page_mmap_ctx := rc\<rparr>"
  have "unat (8 * d) = 8 * unat d" if "unat d < 2 ^ 61" for d :: u64
    using that by (simp add: unat_word_ariths)
  then have "unat (8 * (?hi - ?lo)) = 8 * unat (?hi - ?lo)" using assms(4) .
  then have "8 * (?hi - ?lo) \<noteq> 0" using assms(5) by (metis mult_is_0 unsigned_0 zero_neq_numeral mod_0)
  then obtain c3 where c3: "init_addr_map mmap_ok c2 ?lo ?hi = (0, c3)"
    "c3 = c2\<lparr>addr_map := addr_map c3, addr_map_pfn_max := ?hi, addr_map_pfn_min := ?lo,
       addr_map_size := addr_map_size ctx\<rparr>"
    using assms(3,6) by (simp add: init_addr_map_def Let_def)
  have ok3: "addr_map_ok c3" using init_addr_map_ok [OF c3(1) assms(4,5)] .
  note f3 = init_addr_map_fresh(2,3) [OF c3(1)]
  have "checksum_vaddrs_saved c3 = cv" by (subst c3(2)) (simp add: c2_def c1(3))
  then obtain m where m: "read_mappings (Some ms) c3 = Ret (0, c3\<lparr>addr_map := m\<rparr>)"
    "\<forall>p. lookup_pfn (c3\<lparr>addr_map := m\<rparr>) p = (if ?lo \<le> p \<and> p < ?hi then lookup_pfn ctx p else Ret 0)"
    using read_mappings_saved [OF assms(1) order_less_imp_le [OF assms(2)] ok3
        fresh_lookup [OF c3(1) ok3] f3, of ms] cv ms by blast
  have same: "same_settings (c3\<lparr>addr_map := m\<rparr>) ctx \<and> escape_page c3 = b \<and> escape_page_mmap_ctx c3 = rc"
    using c1(2) by (subst (1 2 3) c3(2)) (simp add: c2_def same_settings_def)
  have "map_memory_from_file (Some (settings_lines ctx cv)) (Some ms) mmap_ok (Some b) map_region
        (target_pid ctx) c0 = Ret (0, c3\<lparr>addr_map := m\<rparr>)"
    using c1(1,2) c3(1) m(1) assms(7)
    by (simp add: map_memory_from_file_def Let_def same_settings_def c2_def)
  then show ?thesis using cv ms same m(2) by (auto simp: save_settings_def)
qed

theorem restart_restores_table_witness:
  "\<exists>settings mappings c'.
    save_settings True True demo_table = Ret (0, Some settings, Some mappings)
    \<and> map_memory_from_file (Some settings) (Some mappings) (\<lambda>_. True) (Some 0x7000)
        (\<lambda>_. Ret (0, \<lparr>region_len = 0, region_entries = None\<rparr>)) 77 demo_ctx = Ret (0, c')
    \<and> lookup_pfn c' 5 = Ret 0x10000 \<and> lookup_pfn c' 7 = Ret 0x12000 \<and> lookup_pfn c' 9 = Ret 0"
proof -
  have d: "addr_map_pfn_min demo_table = 5" "addr_map_pfn_max demo_table = 9"
    "addr_map_size demo_table = 32" "target_pid demo_table = 77"
    by (simp_all add: demo_table_def demo_ctx_def)
  show ?thesis
    using restart_restores_table [OF demo_table_ok, unfolded d, of "\<lambda>_. True"
      "\<lambda>_. Ret (0, \<lparr>region_len = 0, region_entries = None\<rparr>)"
      "\<lparr>region_len = 0, region_entries = None\<rparr>" "0x7000" demo_ctx]
      demo_table_lookup
    by (simp del: ex_simps) (elim exE conjE, intro exI conjI, assumption+, simp_all)
qed

end
