(* ===== verification/Manager_Main.thy ===== *)
theory Manager_Main
  imports Manager_Files
begin

text \<open>
  The main program of the manager (\<open>usr_manager.c\<close>, from \<open>read_stat_file\<close> to \<open>main\<close>): where the
  simulator's memory is, mapping it on a fresh boot or from the files of an earlier run, the check of
  the table, and shutting down. Shown: the search for the escape page ends exactly when the page
  appears, a fresh start serves the guest with a complete table, the check counts what it says, and
  every return of \<open>main\<close> releases the mapped region it knows.
\<close>

subsection \<open>Arguments and the stat file\<close>

text \<open>\<open>strtol(s, NULL, 10)\<close>: white space, an optional sign, digits; saturating.\<close>

definition dec_digit :: "char \<Rightarrow> bool" where
  "dec_digit c \<longleftrightarrow> c \<in> set ''0123456789''"

definition dec_value :: "string \<Rightarrow> int" where
  "dec_value = foldl (\<lambda>n c. 10 * n + int (of_char c - 48)) 0"

definition strtol10 :: "string \<Rightarrow> int" where
  "strtol10 s =
    (let r = dropWhile (\<lambda>c. c = CHR '' '' \<or> c = CHR 0x09 \<or> c = CHR 0x0A) s;
         neg = (r \<noteq> [] \<and> hd r = CHR ''-'');
         ds = takeWhile dec_digit (if r \<noteq> [] \<and> (hd r = CHR ''-'' \<or> hd r = CHR ''+'') then tl r else r);
         v = (if neg then - dec_value ds else dec_value ds)
     in max (- (2 ^ 63)) (min (2 ^ 63 - 1) v))"

definition get_pid :: "string list \<Rightarrow> u32 outcome" where
  "get_pid argv =
    (if length argv < 2 then Ub Aborted
     else let pid = word_of_int (strtol10 (argv ! 1)) :: u32
     in if pid = 0 then Ub Aborted else Ret pid)"

text \<open>\<open>fscanf(f, "0x%lx", &from); fscanf(f, "-0x%lx", &to)\<close>; a failed conversion leaves 0.\<close>

definition read_stat_file :: "string option \<Rightarrow> (u64 \<times> u64) outcome" where
  "read_stat_file file =
    (case file of
       None \<Rightarrow> Ub Aborted
     | Some s \<Rightarrow>
        (case Option.bind (strip ''0x'' s) scan_hex of
           None \<Rightarrow> Ub Aborted
         | Some (from, rest) \<Rightarrow>
            (case Option.bind (strip ''-0x'' rest) scan_hex of
               None \<Rightarrow> Ub Aborted
             | Some (to, _) \<Rightarrow>
                if from \<noteq> 0 \<and> to \<noteq> 0 \<and> to > from then Ret (from, to) else Ub Aborted)))"

text \<open>
  \<open>copy_from_target\<close> and \<open>copy_to_target\<close>: a seek and a read or write of \<open>/proc/pid/mem\<close>. The memory
  of the target is \<open>tm\<close>; the system decides how many bytes, at most the size, are copied.
\<close>

definition copy_from_target :: "(u64 \<Rightarrow> u64 \<Rightarrow> int) \<Rightarrow> mem \<Rightarrow> u64 \<Rightarrow> u64 \<Rightarrow> int \<times> bytes" where
  "copy_from_target copied tm from sz = (let n = copied from sz in (n, ld_bytes tm (unat from) (nat n)))"

definition copy_to_target :: "(u64 \<Rightarrow> u64 \<Rightarrow> int) \<Rightarrow> mem \<Rightarrow> bytes \<Rightarrow> u64 \<Rightarrow> int \<times> mem" where
  "copy_to_target copied tm source dest =
    (let n = copied dest (of_nat (length source)) in (n, st_bytes tm (unat dest) (take (nat n) source)))"

subsection \<open>Mapping the memory of a booting guest\<close>

text \<open>The packed structure at the start of the escape page (\<open>fvp_escape_setup_struct\<close>).\<close>

definition S_escape_turn :: nat where [simp]: "S_escape_turn = 24"
definition S_action :: nat where [simp]: "S_action = 40"
definition S_data :: nat where [simp]: "S_data = 56"

datatype fvp_escape_setup_turn = fvp_escape_setup_turn_guest | fvp_escape_setup_turn_host

primrec setup_turn_code :: "fvp_escape_setup_turn \<Rightarrow> u64" where
  "setup_turn_code fvp_escape_setup_turn_guest = 1"
| "setup_turn_code fvp_escape_setup_turn_host = 2"

datatype fvp_escape_setup_action =
    fvp_escape_setup_action_undef | fvp_escape_setup_action_wait_guest
  | fvp_escape_setup_action_continue_guest | fvp_escape_setup_action_addr_mapping
  | fvp_escape_setup_action_addr_mapping_success

primrec setup_action_code :: "fvp_escape_setup_action \<Rightarrow> u64" where
  "setup_action_code fvp_escape_setup_action_undef = 0"
| "setup_action_code fvp_escape_setup_action_wait_guest = 1"
| "setup_action_code fvp_escape_setup_action_continue_guest = 2"
| "setup_action_code fvp_escape_setup_action_addr_mapping = 3"
| "setup_action_code fvp_escape_setup_action_addr_mapping_success = 4"

text \<open>
  What the system does during a start: the successive readings of the simulator's memory, the bytes
  on the stack, whether \<open>mmap\<close> succeeds, and what \<open>fh_mmap_region\<close> answers.
\<close>

record boot_env =
  find_rds :: "nat \<Rightarrow> mem_read"
  dims_rd :: mem_read
  scan_rd :: mem_read
  stack0 :: fvp_escape_scan_struct
  mmap_ok :: "u64 \<Rightarrow> bool"
  escape_buf :: "u64 option"
  map_region :: "ctx_struct \<Rightarrow> (int \<times> fh_mmap_region_ctx) outcome"

text \<open>
  The value, the context and the escape page. The dimensions are stored through the context even
  though the table is not there yet; the page is shared with the guest once the region is mapped.
\<close>

definition map_memory_fvp_boot ::
  "'a boot_env_scheme \<Rightarrow> mem \<Rightarrow> ctx_struct \<Rightarrow> (int \<times> ctx_struct \<times> mem) outcome option" where
  "map_memory_fvp_boot env sp ctx =
    (case fvpmem_find_escape_page (find_rds env) (target_from ctx) (target_to ctx) 0 (stack0 env, 0, 0) of
       None \<Rightarrow> None
     | Some (vaddr, pfn) \<Rightarrow>
       (let c1 = ctx\<lparr>escape_page_pfn := pfn, escape_vaddr := vaddr\<rparr>
        in (case escape_buf env of
          None \<Rightarrow> Some (Ret (- 1, c1, sp))
        | Some b \<Rightarrow>
          (let c2 = c1\<lparr>escape_page := b\<rparr>
           in (case map_region env c2 of
             Ub u \<Rightarrow> Some (Ub u)
           | Ret (ret, rc) \<Rightarrow>
              if ret \<noteq> 0 then Some (Ret (ret, c2, sp))
              else
                let c3 = c2\<lparr>escape_page_mmap_ctx := rc, escape_page_reserve_size := ld 8 sp S_data\<rparr>;
                    sp1 = st 8 sp S_action (setup_action_code fvp_escape_setup_action_wait_guest)
                in (case fvpmem_find_dimensions (dims_rd env) (stack0 env) c3 of
                  None \<Rightarrow> None
                | Some (lo, hi) \<Rightarrow>
                   (case init_addr_map (mmap_ok env)
                           (c3\<lparr>addr_map_pfn_min := lo, addr_map_pfn_max := hi\<rparr>) lo hi of
                      (ret, c4) \<Rightarrow>
                        if ret \<noteq> 0 then Some (Ret (ret, c4, sp1))
                        else map_option (\<lambda>r. obind r (\<lambda>c5. Ret (0, c5, sp1)))
                               (fvpmem_scan_addresses (scan_rd env) (stack0 env) c4))))))))"

subsection \<open>Checking the table\<close>

record verify_counts =
  v_null :: int
  v_mapped :: int
  v_not_contiguous :: int

definition verify_pair :: "ctx_struct \<Rightarrow> u64 \<Rightarrow> (u64 \<times> u64) outcome" where
  "verify_pair ctx i =
    obind (get_addr_map_vaddr_verify ctx (i - 1) False) (\<lambda>prev.
    obind (get_addr_map_vaddr_verify ctx i False) (\<lambda>v. Ret (prev, v)))"

text \<open>\<open>for (i = from + 1; i < to; i += 1)\<close> on \<open>unsigned long\<close>.\<close>

definition pfns_between :: "u64 \<Rightarrow> u64 \<Rightarrow> u64 list" where
  "pfns_between from to = map of_nat [unat (from + 1)..<unat to]"

definition verify_mappings :: "ctx_struct \<Rightarrow> (int \<times> verify_counts) outcome" where
  "verify_mappings ctx =
    obind (ofold (\<lambda>i v. obind (verify_pair ctx i) (\<lambda>(prev, cur).
             Ret (if prev = 0 \<and> cur = 0 then v\<lparr>v_null := v_null v + 1\<rparr>
                  else v\<lparr>v_mapped := v_mapped v + 1\<rparr>)))
           (pfns_between (addr_map_pfn_min ctx) (addr_map_pfn_max ctx))
           \<lparr>v_null = 0, v_mapped = 0, v_not_contiguous = 0\<rparr>) (\<lambda>v1.
    obind (ofold (\<lambda>i v. obind (verify_pair ctx i) (\<lambda>(prev, cur).
             Ret (if prev + PAGE_SIZE \<noteq> cur then v\<lparr>v_not_contiguous := v_not_contiguous v + 1\<rparr> else v)))
           (pfns_between (escape_page_pfn ctx)
              (escape_page_pfn ctx + drop_bit 12 (escape_page_reserve_size ctx)))
           v1) (\<lambda>v2.
    Ret (0, v2)))"

subsection \<open>Shutting down\<close>

text \<open>What a run leaves behind: the regions given to \<open>fh_unmmap_region\<close> and the closed descriptors.\<close>

record manager_end =
  end_ret :: int
  end_ctx :: ctx_struct
  end_fh :: fh_host_context
  end_unmapped :: "fh_mmap_region_ctx list"
  end_closed :: "int list"

definition unmap_fvp_memory :: "ctx_struct \<Rightarrow> ctx_struct \<times> fh_mmap_region_ctx list \<times> int list" where
  "unmap_fvp_memory ctx =
    (let c = free_addr_map (ctx\<lparr>escape_page_mmap_ctx := snd (fh_unmmap_region (escape_page_mmap_ctx ctx) (\<lambda>_. 0))\<rparr>)
     in (c, [escape_page_mmap_ctx ctx], [target_mem_fd ctx]))"

definition main_clean_up ::
  "(faulthook_ctrl \<Rightarrow> u64 \<Rightarrow> int) \<Rightarrow> int \<Rightarrow> ctx_struct \<Rightarrow> fh_host_context \<Rightarrow> manager_end" where
  "main_clean_up status_ioctl ret ctx fh =
    (case unmap_fvp_memory ctx of
       (c, regions, fds) \<Rightarrow>
         \<lparr>end_ret = ret, end_ctx = c,
          end_fh = snd (fh_clean_up (snd (fh_disable_trace status_ioctl 0 fh))),
          end_unmapped = regions, end_closed = fds\<rparr>)"

subsection \<open>The main program\<close>

record run_env = boot_env +
  stat_file :: "string option"
  mem_fd :: int
  settings_file :: "string list option"
  mappings_file :: "string list option"
  fopen1_ok :: bool
  fopen2_ok :: bool
  ptedit_ret :: int
  hook_fd :: int
  status_ioctl :: "faulthook_ctrl \<Rightarrow> u64 \<Rightarrow> int"
  do_init_ret :: int
  thread_ends :: bool

definition ctx_zero :: ctx_struct where
  "ctx_zero = \<lparr>target_mem_fd = 0, target_pid = 0, target_from = 0, target_to = 0, escape_page = 0,
     escape_page_mmap_ctx = \<lparr>region_len = 0, region_entries = None\<rparr>, escape_page_pfn = 0,
     escape_vaddr = 0, escape_page_reserve_size = 0, addr_map = MapNull, addr_map_pfn_min = 0,
     addr_map_pfn_max = 0, addr_map_size = 0, checksum_vaddrs_saved = 0\<rparr>"

definition main_ctx :: "int \<Rightarrow> u32 \<Rightarrow> u64 \<Rightarrow> u64 \<Rightarrow> ctx_struct" where
  "main_ctx fd pid from to =
     ctx_zero\<lparr>target_mem_fd := fd, target_pid := pid, target_from := from, target_to := to\<rparr>"

type_synonym saved_files = "(int \<times> string list option \<times> string list option) option"

text \<open>
  From the files if they fit, otherwise by scanning; a scan that succeeds is saved and lets the guest
  continue.
\<close>

definition start_memory ::
  "run_env \<Rightarrow> mem \<Rightarrow> u32 \<Rightarrow> u64 \<Rightarrow> u64 \<Rightarrow> (int \<times> ctx_struct \<times> mem \<times> saved_files) outcome option" where
  "start_memory env sp pid from to =
    (let ctx = main_ctx (mem_fd env) pid from to
     in case map_memory_from_file (settings_file env) (mappings_file env) (mmap_ok env) (escape_buf env)
               (map_region env) pid ctx of
       Ub u \<Rightarrow> Some (Ub u)
     | Ret (ret, c1) \<Rightarrow>
        if ret = 0 then Some (Ret (0, c1, sp, None))
        else map_option (\<lambda>r. obind r (\<lambda>(ret, c2, sp1).
               if ret \<noteq> 0 then Ret (ret, c2, sp1, None)
               else obind (save_settings (fopen1_ok env) (fopen2_ok env) c2) (\<lambda>files.
                 Ret (0, c2,
                   st 8 (st 8 sp1 S_escape_turn (setup_turn_code fvp_escape_setup_turn_guest))
                     S_action (setup_action_code fvp_escape_setup_action_addr_mapping_success),
                   Some files))))
             (map_memory_fvp_boot env sp ctx))"

text \<open>
  A run returns (\<open>Finished\<close>), serves requests until its listener thread ends, or, without the kernel's
  faulthook, prints the page for ever.
\<close>

datatype manager_run = Finished manager_end | Serving ctx_struct fh_host_context mem | Dumping ctx_struct mem

definition main ::
  "run_env \<Rightarrow> string list \<Rightarrow> mem \<Rightarrow> manager_run outcome option" where
  "main env argv sp =
    (case get_pid argv of
       Ub u \<Rightarrow> Some (Ub u)
     | Ret pid \<Rightarrow>
       (let (init_ret, fh0) = fh_init (ptedit_ret env) (hook_fd env) fh_ctx0;
            has_faulthook = (init_ret = 0);
            fh1 = fh_clean_up_hook True fh0;
            clean = (\<lambda>ret c fh. Ret (Finished (main_clean_up (status_ioctl env) ret c fh)))
        in (case read_stat_file (stat_file env) of
          Ub u \<Rightarrow> Some (Ub u)
        | Ret (from, to) \<Rightarrow>
           if mem_fd env < 0 then Some (clean 0 ctx_zero fh1)
           else map_option (\<lambda>r. obind r (\<lambda>(ret, c, sp1, files).
             if ret \<noteq> 0 then clean ret c fh1
             else obind (verify_mappings c) (\<lambda>_.
               if \<not> has_faulthook then Ret (Dumping c sp1)
               else if do_init_ret env \<noteq> 0 then clean (do_init_ret env) c fh1
               else let (ret, fh2) = fh_enable_trace (status_ioctl env) (escape_vaddr c) 8 (ucast pid) (run_thread True fh1)
                    in if ret \<noteq> 0 then clean ret c fh2
                       else if thread_ends env then clean 0 c fh2
                       else Ret (Serving c fh2 sp1))))
             (start_memory env sp pid from to))))"

subsection \<open>Waiting for the escape page\<close>

definition is_escape :: "(u64 \<rightharpoonup> fvp_escape_scan_struct) \<Rightarrow> u64 \<Rightarrow> bool" where
  "is_escape tm a \<longleftrightarrow> (case tm a of None \<Rightarrow> False
     | Some s \<Rightarrow> ctrl_magic s = FVP_CONTROL_MAGIC \<and> escape_magic s = FVP_ESCAPE_MAGIC)"

lemma find_visit:
  assumes "reads_pages rd tm" "0 \<notin> set as"
  shows "\<exists>e'. visit (find_step rd) as (e, 0, pfn) =
    (case find (is_escape tm) as of None \<Rightarrow> (e', 0, pfn) | Some a \<Rightarrow> (e', a, tag_at tm a))"
  using find_step_visit [OF assms(1), of as e pfn] assms(2)
  by (auto simp: is_escape_def [abs_def])

lemma find_nonzero: "find P as = Some (a :: u64) \<Longrightarrow> 0 \<notin> set as \<Longrightarrow> a \<noteq> 0"
  by (metis find_Some_iff nth_mem)

lemma find_escape_found:
  assumes "\<And>j. reads_pages (rds j) (tms j)" "unat to \<le> 2 ^ 64 - 4096"
    and "0 \<notin> set (page_addrs from to)"
    and "\<And>j. i \<le> j \<Longrightarrow> j < i + n \<Longrightarrow> find (is_escape (tms j)) (page_addrs from to) = None"
    and "find (is_escape (tms (i + n))) (page_addrs from to) = Some a"
  shows "fvpmem_find_escape_page rds from to i (e, 0, pfn) = Some (a, tag_at (tms (i + n)) a)"
  using assms(4,5)
proof (induction n arbitrary: i e)
  case 0
  obtain e' where "visit (find_step (rds i)) (page_addrs from to) (e, 0, pfn) = (e', a, tag_at (tms i) a)"
    using find_visit [OF assms(1,3), of i e pfn] 0 by auto
  moreover have "a \<noteq> 0" using find_nonzero [OF _ assms(3)] 0 by simp
  ultimately show ?case
    by (subst fvpmem_find_escape_page.simps)
      (simp add: for_pages_visit [OF assms(2)] fvpmem_find_escape_page.simps)
next
  case (Suc n)
  obtain e' where "visit (find_step (rds i)) (page_addrs from to) (e, 0, pfn) = (e', 0, pfn)"
    using find_visit [OF assms(1,3), of i e pfn] Suc.prems(1) [of i] by auto
  moreover have "fvpmem_find_escape_page rds from to (Suc i) (e', 0, pfn) = Some (a, tag_at (tms (Suc i + n)) a)"
    by (rule Suc.IH) (use Suc.prems in auto)
  ultimately show ?case
    by (subst fvpmem_find_escape_page.simps) (simp add: for_pages_visit [OF assms(2)])
qed

lemma find_escape_only:
  assumes "\<And>j. reads_pages (rds j) (tms j)" "unat to \<le> 2 ^ 64 - 4096"
    and "0 \<notin> set (page_addrs from to)"
    and "fvpmem_find_escape_page rds from to i (e, 0, pfn) = Some r"
  shows "\<exists>n. find (is_escape (tms (i + n))) (page_addrs from to) \<noteq> None"
proof -
  let ?P = "\<lambda>rds' from' to' k (s :: fvp_escape_scan_struct \<times> u64 \<times> u64) (r :: u64 \<times> u64). rds' = rds \<longrightarrow> from' = from \<longrightarrow> to' = to \<longrightarrow>
    (\<forall>e pfn. s = (e, 0, pfn) \<longrightarrow> (\<exists>n. find (is_escape (tms (k + n))) (page_addrs from to) \<noteq> None))"
  have "?P rds from to i (e, 0, pfn) r"
  proof (rule fvpmem_find_escape_page.raw_induct [where P = ?P, OF _ assms(4)], goal_cases)
    case (1 rec rds' from' to' k s r)
    show ?case
    proof (intro allI impI)
      fix e pfn assume eqs: "rds' = rds" "from' = from" "to' = to" and s: "s = (e, 0, pfn)"
      obtain e' where v: "visit (find_step (rds k)) (page_addrs from to) (e, 0, pfn) =
          (case find (is_escape (tms k)) (page_addrs from to) of
             None \<Rightarrow> (e', 0, pfn) | Some a \<Rightarrow> (e', a, tag_at (tms k) a))"
        using find_visit [OF assms(1,3)] by blast
      show "\<exists>n. find (is_escape (tms (k + n))) (page_addrs from to) \<noteq> None"
      proof (cases "find (is_escape (tms k)) (page_addrs from to)")
        case None
        with v "1"(2) s eqs have "rec rds from to (Suc k) (e', 0, pfn) = Some r"
          by (simp add: for_pages_visit [OF assms(2)])
        then obtain n where "find (is_escape (tms (Suc k + n))) (page_addrs from to) \<noteq> None"
          using "1"(1) by blast
        then show ?thesis by (intro exI [of _ "Suc n"]) simp
      next
        case (Some a)
        then show ?thesis by (intro exI [of _ 0]) simp
      qed
    qed
  qed
  then show ?thesis by blast
qed

subsection \<open>Properties: the search, the check, the start\<close>

text \<open>C36: The search for the escape page. The manager scans the simulator's memory again and again. The
  search ends if and only if some scan sees a page with both magic numbers, and then its result is
  the address of the first such page in the first such scan, with the frame number the page carries.\<close>

theorem find_escape_page_waits:
  assumes "\<And>j. reads_pages (rds j) (tms j)" "unat to \<le> 2 ^ 64 - 4096"
    and "0 \<notin> set (page_addrs from to)"
  shows "((\<exists>r. fvpmem_find_escape_page rds from to 0 (e, 0, pfn) = Some r)
      \<longleftrightarrow> (\<exists>k. find (is_escape (tms k)) (page_addrs from to) \<noteq> None))
    \<and> (find (is_escape (tms k)) (page_addrs from to) = Some a
        \<and> (\<forall>j < k. find (is_escape (tms j)) (page_addrs from to) = None)
        \<longrightarrow> fvpmem_find_escape_page rds from to 0 (e, 0, pfn) = Some (a, tag_at (tms k) a))"
proof -
  note found = find_escape_found [where rds = rds and tms = tms, OF assms, of 0, simplified]
  have "\<exists>r. fvpmem_find_escape_page rds from to 0 (e, 0, pfn) = Some r"
    if "find (is_escape (tms k)) (page_addrs from to) \<noteq> None" for k
  proof -
    define n where "n = (LEAST n. find (is_escape (tms n)) (page_addrs from to) \<noteq> None)"
    have "find (is_escape (tms n)) (page_addrs from to) \<noteq> None"
      unfolding n_def by (rule LeastI [of _ k]) (rule that)
    moreover have "find (is_escape (tms j)) (page_addrs from to) = None" if "j < n" for j
      using not_less_Least [OF that [unfolded n_def]] by simp
    ultimately show ?thesis using found [of n] by blast
  qed
  note ends = this
  show ?thesis
  proof (intro conjI iffI impI)
    assume "\<exists>r. fvpmem_find_escape_page rds from to 0 (e, 0, pfn) = Some r"
    then obtain r where "fvpmem_find_escape_page rds from to 0 (e, 0, pfn) = Some r" by (elim exE)
    from find_escape_only [where rds = rds and tms = tms, OF assms this]
    show "\<exists>k. find (is_escape (tms k)) (page_addrs from to) \<noteq> None" by (simp only: add_0)
  next
    assume "\<exists>k. find (is_escape (tms k)) (page_addrs from to) \<noteq> None"
    then show "\<exists>r. fvpmem_find_escape_page rds from to 0 (e, 0, pfn) = Some r" by (elim exE) (rule ends)
  next
    assume first: "find (is_escape (tms k)) (page_addrs from to) = Some a
      \<and> (\<forall>j < k. find (is_escape (tms j)) (page_addrs from to) = None)"
    show "fvpmem_find_escape_page rds from to 0 (e, 0, pfn) = Some (a, tag_at (tms k) a)"
      by (rule found) (use first in blast)+
  qed
qed

lemma verify_pair_ok:
  "addr_map_ok ctx \<Longrightarrow> verify_pair ctx i = Ret (vaddr_of ctx (i - 1), vaddr_of ctx i)"
  by (simp add: verify_pair_def lookup_vaddr_of)

lemma verify_fold1:
  "fold (\<lambda>i v. if N i then v\<lparr>v_null := v_null v + 1\<rparr> else v\<lparr>v_mapped := v_mapped v + 1\<rparr>) is
     \<lparr>v_null = a, v_mapped = b, v_not_contiguous = c\<rparr> =
   \<lparr>v_null = a + int (length (filter N is)), v_mapped = b + int (length (filter (\<lambda>i. \<not> N i) is)),
    v_not_contiguous = c\<rparr>"
  by (induction "is" arbitrary: a b) auto

lemma verify_fold2:
  "fold (\<lambda>i v. if D i then v\<lparr>v_not_contiguous := v_not_contiguous v + 1\<rparr> else v) is
     \<lparr>v_null = a, v_mapped = b, v_not_contiguous = c\<rparr> =
   \<lparr>v_null = a, v_mapped = b, v_not_contiguous = c + int (length (filter D is))\<rparr>"
  by (induction "is" arbitrary: c) auto

lemma verify_mappings_eq:
  assumes "addr_map_ok ctx"
  shows "verify_mappings ctx = Ret (0,
    \<lparr>v_null = int (length (filter (\<lambda>i. vaddr_of ctx (i - 1) = 0 \<and> vaddr_of ctx i = 0)
       (pfns_between (addr_map_pfn_min ctx) (addr_map_pfn_max ctx)))),
     v_mapped = int (length (filter (\<lambda>i. \<not> (vaddr_of ctx (i - 1) = 0 \<and> vaddr_of ctx i = 0))
       (pfns_between (addr_map_pfn_min ctx) (addr_map_pfn_max ctx)))),
     v_not_contiguous = int (length (filter (\<lambda>i. vaddr_of ctx (i - 1) + PAGE_SIZE \<noteq> vaddr_of ctx i)
       (pfns_between (escape_page_pfn ctx) (escape_page_pfn ctx + drop_bit 12 (escape_page_reserve_size ctx)))))\<rparr>)"
proof -
  note pair = verify_pair_ok [OF assms]
  have f: "ofold (\<lambda>i v. obind (verify_pair ctx i) (\<lambda>(p, c). Ret (g p c v))) is v =
      Ret (fold (\<lambda>i v. g (vaddr_of ctx (i - 1)) (vaddr_of ctx i) v) is v)" for g "is" v
    by (rule ofold_Ret_fold [where P = "\<lambda>_. True"]) (simp_all add: pair)
  show ?thesis
    unfolding verify_mappings_def f obind.simps
    unfolding verify_fold1 [of "\<lambda>i. vaddr_of ctx (i - 1) = 0 \<and> vaddr_of ctx i = 0"] verify_fold2 obind.simps
    by simp
qed

text \<open>Neighbouring pages that follow each other make one block.\<close>

lemma contiguous_block:
  assumes "\<forall>i \<in> set (pfns_between p (p + of_nat n)). f (i - 1) + PAGE_SIZE = (f i :: u64)"
    and "unat p + n < 2 ^ 64" "k < n"
  shows "f (p + of_nat k) = f p + of_nat k * PAGE_SIZE"
  using assms(3)
proof (induction k)
  case (Suc k)
  have n: "n < 2 ^ 64" using assms(2) by simp
  have e: "unat (p + of_nat n) = unat p + n" using assms(2) n by (simp add: unat_word_ariths unat_of_nat)
  have s: "unat (p + 1) = unat p + 1" using assms(2) Suc.prems by (simp add: unat_word_ariths)
  have "p + of_nat (Suc k) = of_nat (unat p + Suc k)" by simp
  moreover have "unat p + Suc k \<in> {unat (p + 1)..<unat (p + of_nat n)}"
    using Suc.prems unfolding e s by simp
  ultimately have "p + of_nat (Suc k) \<in> set (pfns_between p (p + of_nat n))"
    unfolding pfns_between_def set_map set_upt by (rule image_eqI)
  with assms(1) have "f (p + of_nat (Suc k) - 1) + PAGE_SIZE = f (p + of_nat (Suc k))" by blast
  with Suc show ?case by (simp add: algebra_simps)
qed simp

text \<open>The check of the table. On a well-formed table it always returns 0. The counters of mapped and
  unmapped frames add up to the number of inspected frames, and if it reports no gap in the escape
  buffer, the pages of the buffer lie one after the other in the simulator's memory.\<close>

theorem verify_mappings_reports:
  assumes "addr_map_ok ctx"
  shows "\<exists>v. verify_mappings ctx = Ret (0, v)
    \<and> v_null v + v_mapped v = int (length (pfns_between (addr_map_pfn_min ctx) (addr_map_pfn_max ctx)))
    \<and> (v_not_contiguous v = 0 \<and> n = unat (drop_bit 12 (escape_page_reserve_size ctx))
        \<and> unat (escape_page_pfn ctx) + n < 2 ^ 64 \<and> k < n
        \<longrightarrow> vaddr_of ctx (escape_page_pfn ctx + of_nat k) = vaddr_of ctx (escape_page_pfn ctx) + of_nat k * PAGE_SIZE)"
proof -
  let ?p = "escape_page_pfn ctx" and ?N = "\<lambda>i. vaddr_of ctx (i - 1) = 0 \<and> vaddr_of ctx i = 0"
  have "length (filter ?N is) + length (filter (\<lambda>i. \<not> ?N i) is) = length is" for "is"
    by (rule sum_length_filter_compl)
  moreover have "vaddr_of ctx (?p + of_nat k) = vaddr_of ctx ?p + of_nat k * PAGE_SIZE"
    if "filter (\<lambda>i. vaddr_of ctx (i - 1) + PAGE_SIZE \<noteq> vaddr_of ctx i)
         (pfns_between ?p (?p + drop_bit 12 (escape_page_reserve_size ctx))) = []"
      "n = unat (drop_bit 12 (escape_page_reserve_size ctx))" "unat ?p + n < 2 ^ 64" "k < n"
  proof (rule contiguous_block [where f = "vaddr_of ctx", OF _ that(3,4)])
    have "of_nat n = drop_bit 12 (escape_page_reserve_size ctx)" using that(2) by simp
    then show "\<forall>i\<in>set (pfns_between ?p (?p + of_nat n)). vaddr_of ctx (i - 1) + PAGE_SIZE = vaddr_of ctx i"
      using that(1) by (simp add: filter_empty_conv)
  qed
  ultimately show ?thesis
    by (simp add: verify_mappings_eq [OF assms] flip: of_nat_add)
qed

lemma main_clean_up_released:
  "addr_map (end_ctx (main_clean_up io ret c fh)) = MapNull"
  "region_entries (escape_page_mmap_ctx (end_ctx (main_clean_up io ret c fh))) = None"
  "end_fh (main_clean_up io ret c fh) = fh_ctx0"
  "end_unmapped (main_clean_up io ret c fh) = [escape_page_mmap_ctx c]"
  "end_ret (main_clean_up io ret c fh) = ret" "end_closed (main_clean_up io ret c fh) = [target_mem_fd c]"
  by (auto simp: main_clean_up_def unmap_fvp_memory_def Let_def free_addr_map_def fh_clean_up_def
      fh_unmmap_region_def split: option.splits)

lemma main_finished_shape:
  assumes "main env argv sp = Some (Ret (Finished e))"
  shows "\<exists>ret c fh. e = main_clean_up (status_ioctl env) ret c fh \<and> (mem_fd env < 0 \<longrightarrow> ret = 0 \<and> c = ctx_zero)"
  using assms unfolding main_def
  by (auto simp: Let_def outcome_simps split: outcome.splits prod.splits if_splits)


text \<open>The table of a fresh start.\<close>

lemma pages_nonzero: "unat (d :: u64) < 2 ^ 61 \<Longrightarrow> unat d mod 512 \<noteq> 0 \<Longrightarrow> 8 * d \<noteq> 0"
proof -
  assume "unat d < 2 ^ 61" "unat d mod 512 \<noteq> 0"
  then have "unat (8 * d) = 8 * unat d" "unat d \<noteq> 0" by (auto simp: unat_word_ariths)
  then show "8 * d \<noteq> 0" by (metis mult_eq_0_iff unsigned_0 zero_neq_numeral)
qed

lemma fvp_boot_maps:
  assumes find: "fvpmem_find_escape_page (find_rds env) (target_from ctx) (target_to ctx) 0 (stack0 env, 0, 0) = Some (vaddr, pfn)"
    and "escape_buf env = Some b" "\<And>c. map_region env c = Ret (0, rc)"
    and dims: "fvpmem_find_dimensions (dims_rd env) (stack0 env) ctx = Some (lo, hi)"
    and "dims_rd env = rd" "scan_rd env = rd" "reads_pages rd tm" "unat (target_to ctx) \<le> 2 ^ 64 - 4096"
    and as: "as = page_addrs (target_from ctx) (target_to ctx)"
    and "distinct (map (tag_at tm) (filter (tagged tm) as))"
    and "unat (hi - lo) < 2 ^ 61" "unat (hi - lo) mod 512 \<noteq> 0" "mmap_ok env (8 * (hi - lo))"
  shows "\<exists>c. map_memory_fvp_boot env sp ctx =
      Some (Ret (0, c, st 8 sp S_action (setup_action_code fvp_escape_setup_action_wait_guest)))
    \<and> addr_map_ok c
    \<and> (\<forall>a \<in> set as. tagged tm a \<longrightarrow> lookup_pfn c (tag_at tm a) = Ret a)
    \<and> (\<forall>p. p \<notin> tag_at tm ` {a \<in> set as. tagged tm a} \<longrightarrow> lookup_pfn c p = Ret 0)"
proof -
  define c3 where "c3 = ctx\<lparr>escape_page_pfn := pfn, escape_vaddr := vaddr, escape_page := b,
    escape_page_mmap_ctx := rc, escape_page_reserve_size := ld 8 sp S_data,
    addr_map_pfn_min := lo, addr_map_pfn_max := hi\<rparr>"
  have t: "target_from c3 = target_from ctx" "target_to c3 = target_to ctx" by (simp_all add: c3_def)
  have d3: "fvpmem_find_dimensions rd (stack0 env) c3 = Some (lo, hi)"
    using dims assms(5) by (simp add: fvpmem_find_dimensions_def t)
  obtain c4 where c4: "init_addr_map (mmap_ok env) c3 lo hi = (0, c4)"
    using pages_nonzero [OF assms(11,12)] assms(13) by (simp add: init_addr_map_def Let_def)
  obtain c5 where c5: "fvpmem_scan_addresses rd (stack0 env) c4 = Some (Ret c5)" "addr_map_ok c5"
    "\<forall>a \<in> set as. tagged tm a \<longrightarrow> lookup_pfn c5 (tag_at tm a) = Ret a"
    "\<forall>p. p \<notin> tag_at tm ` {a \<in> set as. tagged tm a} \<longrightarrow> lookup_pfn c5 p = Ret 0"
    using boot_table [OF assms(7) _ _ assms(10) d3 assms(11,12) c4, of "stack0 env"] assms(8) as t by auto
  have "fvpmem_find_dimensions rd (stack0 env) (ctx\<lparr>escape_page_pfn := pfn, escape_vaddr := vaddr, escape_page := b,
      escape_page_mmap_ctx := rc, escape_page_reserve_size := ld 8 sp S_data\<rparr>) = Some (lo, hi)"
    using dims assms(5) by (simp add: fvpmem_find_dimensions_def)
  then have "map_memory_fvp_boot env sp ctx =
      Some (Ret (0, c5, st 8 sp S_action (setup_action_code fvp_escape_setup_action_wait_guest)))"
    using find assms(2,3,5,6) c4 c5(1) by (simp add: map_memory_fvp_boot_def Let_def c3_def)
  with c5 show ?thesis by blast
qed

text \<open>C35: A first start serves the guest with a complete table. Without settings of an earlier run, once
  the escape page has been found and the scans succeed, \<open>main\<close>'s set-up returns 0 with a table in which
  every tagged frame has the address of its page and every other frame none; it has written both files
  and told the guest to continue: the turn is the guest's and the action says that the mapping is
  complete.\<close>

theorem first_start_serves:
  assumes "settings_file env = None" "ctx = main_ctx (mem_fd env) pid from to"
    and "fvpmem_find_escape_page (find_rds env) from to 0 (stack0 env, 0, 0) = Some (vaddr, pfn)"
    and "escape_buf env = Some b" "\<And>c. map_region env c = Ret (0, rc)"
    and "fvpmem_find_dimensions (dims_rd env) (stack0 env) ctx = Some (lo, hi)"
    and "dims_rd env = rd" "scan_rd env = rd" "reads_pages rd tm" "unat to \<le> 2 ^ 64 - 4096"
    and "distinct (map (tag_at tm) (filter (tagged tm) (page_addrs from to)))"
    and "unat (hi - lo) < 2 ^ 61" "unat (hi - lo) mod 512 \<noteq> 0" "mmap_ok env (8 * (hi - lo))"
    and "fopen1_ok env" "fopen2_ok env"
  shows "\<exists>c sp' s m. start_memory env sp pid from to = Some (Ret (0, c, sp', Some (0, Some s, Some m)))
    \<and> (\<forall>a \<in> set (page_addrs from to). tagged tm a \<longrightarrow> lookup_pfn c (tag_at tm a) = Ret a)
    \<and> (\<forall>p. p \<notin> tag_at tm ` {a \<in> set (page_addrs from to). tagged tm a} \<longrightarrow> lookup_pfn c p = Ret 0)
    \<and> ld 8 sp' S_escape_turn = setup_turn_code fvp_escape_setup_turn_guest
    \<and> ld 8 sp' S_action = setup_action_code fvp_escape_setup_action_addr_mapping_success"
proof -
  have t: "target_from ctx = from" "target_to ctx = to" by (simp_all add: assms(2) main_ctx_def)
  let ?sp = "st 8 sp S_action (setup_action_code fvp_escape_setup_action_wait_guest)"
  obtain c where c: "map_memory_fvp_boot env sp ctx = Some (Ret (0, c, ?sp))" "addr_map_ok c"
    "\<forall>a \<in> set (page_addrs from to). tagged tm a \<longrightarrow> lookup_pfn c (tag_at tm a) = Ret a"
    "\<forall>p. p \<notin> tag_at tm ` {a \<in> set (page_addrs from to). tagged tm a} \<longrightarrow> lookup_pfn c p = Ret 0"
    using fvp_boot_maps [of env ctx vaddr pfn b rc lo hi rd tm "page_addrs from to" sp]
      assms(3-14) t by blast
  obtain cv ms where files: "checksum_vaddrs c = Ret cv" "mapping_lines c = Ret ms"
    using checksum_vaddrs_sum [OF c(2)] mapping_lines_pairs [OF c(2)] by blast
  have "map_memory_from_file (settings_file env) (mappings_file env) (mmap_ok env) (escape_buf env)
      (map_region env) pid ctx = Ret (- 1, ctx)"
    by (simp add: map_memory_from_file_def read_settings_def assms(1))
  then have "start_memory env sp pid from to = Some (Ret (0, c,
      st 8 (st 8 ?sp S_escape_turn (setup_turn_code fvp_escape_setup_turn_guest)) S_action
        (setup_action_code fvp_escape_setup_action_addr_mapping_success),
      Some (0, Some (settings_lines c cv), Some ms)))"
    using c(1) files assms(2,15,16) by (simp add: start_memory_def save_settings_def Let_def)
  then show ?thesis using c(3,4) by (auto simp: mem_simps)
qed

subsection \<open>A first start, step by step\<close>

definition scan0 :: fvp_escape_scan_struct where
  "scan0 = \<lparr>ctrl_magic = 0, addr_tag = 0, escape_magic = 0\<rparr>"

definition demo_env :: "int \<Rightarrow> run_env" where
  "demo_env fd = \<lparr>find_rds = (\<lambda>_. demo_rd), dims_rd = demo_rd, scan_rd = demo_rd, stack0 = scan0,
     mmap_ok = (\<lambda>_. True), escape_buf = Some 0x7000,
     map_region = (\<lambda>_. Ret (0, \<lparr>region_len = 0, region_entries = None\<rparr>)),
     stat_file = Some ''0x10000-0x12000;77'', mem_fd = fd, settings_file = None, mappings_file = None,
     fopen1_ok = True, fopen2_ok = True, ptedit_ret = 0, hook_fd = 4, status_ioctl = (\<lambda>_ _. 0),
     do_init_ret = 0, thread_ends = False\<rparr>"

lemma demo_range: "page_addrs 0x10000 0x12000 = [0x10000, 0x11000]"
  using demo_pages by (simp add: demo_ctx_def)

lemma demo_escape: "find (is_escape demo_tm) [0x10000, 0x11000] = Some 0x10000"
  by (simp add: is_escape_def demo_tm_def)

theorem find_escape_page_waits_witness:
  "fvpmem_find_escape_page (\<lambda>k. if k = 0 then (\<lambda>a e. (- 1, e)) else demo_rd) 0x10000 0x12000 0 (scan0, 0, 0)
     = Some (0x10000, 5)"
proof -
  let ?rds = "\<lambda>k :: nat. if k = 0 then (\<lambda>a e. (- 1, e)) else demo_rd"
  let ?tms = "\<lambda>k :: nat. if k = 0 then (\<lambda>_. None) else demo_tm"
  have "find (is_escape (\<lambda>_. None)) [0x10000, 0x11000] = None" by (simp add: is_escape_def)
  moreover have "reads_pages (?rds j) (?tms j)" for j using demo_reads by (simp add: reads_pages_def)
  ultimately show ?thesis
    using find_escape_page_waits [where rds = ?rds and tms = ?tms and k = 1 and a = "0x10000" and e = scan0
        and pfn = 0 and ?from = "0x10000" and to = "0x12000"] demo_escape
    by (simp add: demo_range tag_at_def demo_tm_def)
qed

theorem verify_mappings_reports_witness:
  "\<exists>v. verify_mappings demo_table = Ret (0, v) \<and> v_null v + v_mapped v = 3"
  using verify_mappings_reports [OF demo_table_ok, of 0 0]
  by (auto simp: demo_table_def pfns_between_def upt_rec)


theorem first_start_serves_witness:
  "\<exists>c sp' s m. start_memory (demo_env 3) (\<lambda>_. 0) 77 0x10000 0x12000 = Some (Ret (0, c, sp', Some (0, Some s, Some m)))
    \<and> lookup_pfn c 5 = Ret 0x10000 \<and> lookup_pfn c 9 = Ret 0x11000 \<and> lookup_pfn c 7 = Ret 0
    \<and> ld 8 sp' S_escape_turn = 1 \<and> ld 8 sp' S_action = 4"
proof -
  let ?ctx = "main_ctx (mem_fd (demo_env 3)) 77 0x10000 0x12000"
  have found: "fvpmem_find_escape_page (\<lambda>_. demo_rd) 0x10000 0x12000 0 (scan0, 0, 0) = Some (0x10000, 5)"
    using find_escape_found [where rds = "\<lambda>_. demo_rd" and tms = "\<lambda>_. demo_tm" and n = 0 and i = 0
        and ?from = "0x10000" and to = "0x12000" and a = "0x10000" and e = scan0 and pfn = 0, OF demo_reads]
      demo_escape
    by (simp add: demo_range tag_at_def demo_tm_def)
  have t: "target_from ?ctx = 0x10000" "target_to ?ctx = 0x12000" by (simp_all add: main_ctx_def)
  have dims: "fvpmem_find_dimensions demo_rd scan0 ?ctx = Some (5, 9)"
    using find_dimensions_eq [OF demo_reads, of ?ctx scan0] demo_tags unfolding t demo_range by simp
  have tags: "tagged demo_tm 0x10000" "tag_at demo_tm 0x10000 = 5" "tagged demo_tm 0x11000" "tag_at demo_tm 0x11000 = 9"
    by (simp_all add: tagged_def tag_at_def demo_tm_def)
  have d: "distinct (map (tag_at demo_tm) (filter (tagged demo_tm) [0x10000, 0x11000]))"
    unfolding demo_tags by simp
  note start = first_start_serves [where env = "demo_env 3" and pid = 77 and ?from = "0x10000" and to = "0x12000"
    and rd = demo_rd and tm = demo_tm and vaddr = "0x10000" and pfn = 5 and b = "0x7000" and lo = 5 and hi = 9
    and rc = "\<lparr>region_len = 0, region_entries = None\<rparr>" and ctx = ?ctx and sp = "\<lambda>_. 0", unfolded demo_range]
  obtain c sp' s m where "start_memory (demo_env 3) (\<lambda>_. 0) 77 0x10000 0x12000 = Some (Ret (0, c, sp', Some (0, Some s, Some m)))"
    "\<forall>a \<in> set [0x10000, 0x11000]. tagged demo_tm a \<longrightarrow> lookup_pfn c (tag_at demo_tm a) = Ret a"
    "\<forall>p. p \<notin> tag_at demo_tm ` {a \<in> set [0x10000, 0x11000]. tagged demo_tm a} \<longrightarrow> lookup_pfn c p = Ret 0"
    "ld 8 sp' S_escape_turn = setup_turn_code fvp_escape_setup_turn_guest"
    "ld 8 sp' S_action = setup_action_code fvp_escape_setup_action_addr_mapping_success"
    using start found dims d demo_reads by (auto simp: demo_env_def)
  moreover have "7 \<notin> tag_at demo_tm ` {a \<in> set [0x10000, 0x11000]. tagged demo_tm a}"
    by (auto simp: tags)
  ultimately show ?thesis using tags by auto
qed

end
