(* ===== verification/Fh_Protocol.thy ===== *)
theory Fh_Protocol
  imports Acai_Prelude
begin

text \<open>
  The escape page shared by the guest driver and the host manager
  (\<open>fpga_escape_libhook/fpga_usr_manager.h\<close>). The structures are packed and overlaid on the
  same bytes, so the page is byte memory and every field is an offset into it; \<open>D_\<close> marks
  the payload that starts at \<open>fault->data\<close>.
\<close>

subsection \<open>The fault header\<close>

definition F_nonce :: nat where [simp]: "F_nonce = 0"
definition F_turn :: nat where [simp]: "F_turn = 8"
definition F_action :: nat where [simp]: "F_action = 16"
definition F_data_size :: nat where [simp]: "F_data_size = 24"
definition F_data :: nat where [simp]: "F_data = 32"
definition sizeof_faultdata_struct :: nat where [simp]: "sizeof_faultdata_struct = 32"

datatype fh_turn = FH_TURN_HOST | FH_TURN_GUEST

primrec turn_code :: "fh_turn \<Rightarrow> u64" where
  "turn_code FH_TURN_HOST = 1"
| "turn_code FH_TURN_GUEST = 2"

datatype fh_action =
    FH_ACTION_NOACTION | FH_ACTION_UNDEF | FH_ACTION_GUEST_CONTINUE | FH_ACTION_ALLOC_GUEST
  | FH_ACTION_OPEN_DEVICE | FH_ACTION_CLOSE_DEVICE | FH_ACTION_MMAP | FH_ACTION_READ
  | FH_ACTION_WRITE | FH_ACTION_UNMAP | FH_ACTION_PING | FH_ACTION_IOCTL_DMA
  | FH_ACTION_VERIFY_MAPPING | FH_ACTION_SETUP | FH_ACTION_TEARDOWN | FH_ACTION_DMA
  | FH_ACTION_SEEK | FH_ACTION_GET_EMPTY_MAPPINGS | FH_ACTION_TRANSFER_ESCAPE_DATA

primrec action_code :: "fh_action \<Rightarrow> u64" where
  "action_code FH_ACTION_NOACTION = 0"
| "action_code FH_ACTION_UNDEF = 1"
| "action_code FH_ACTION_GUEST_CONTINUE = 2"
| "action_code FH_ACTION_ALLOC_GUEST = 10"
| "action_code FH_ACTION_OPEN_DEVICE = 11"
| "action_code FH_ACTION_CLOSE_DEVICE = 12"
| "action_code FH_ACTION_MMAP = 13"
| "action_code FH_ACTION_READ = 14"
| "action_code FH_ACTION_WRITE = 15"
| "action_code FH_ACTION_UNMAP = 16"
| "action_code FH_ACTION_PING = 17"
| "action_code FH_ACTION_IOCTL_DMA = 18"
| "action_code FH_ACTION_VERIFY_MAPPING = 20"
| "action_code FH_ACTION_SETUP = 21"
| "action_code FH_ACTION_TEARDOWN = 22"
| "action_code FH_ACTION_DMA = 23"
| "action_code FH_ACTION_SEEK = 24"
| "action_code FH_ACTION_GET_EMPTY_MAPPINGS = 25"
| "action_code FH_ACTION_TRANSFER_ESCAPE_DATA = 30"

definition all_actions :: "fh_action list" where
  "all_actions =
    [FH_ACTION_NOACTION, FH_ACTION_UNDEF, FH_ACTION_GUEST_CONTINUE, FH_ACTION_ALLOC_GUEST,
     FH_ACTION_OPEN_DEVICE, FH_ACTION_CLOSE_DEVICE, FH_ACTION_MMAP, FH_ACTION_READ,
     FH_ACTION_WRITE, FH_ACTION_UNMAP, FH_ACTION_PING, FH_ACTION_IOCTL_DMA,
     FH_ACTION_VERIFY_MAPPING, FH_ACTION_SETUP, FH_ACTION_TEARDOWN, FH_ACTION_DMA,
     FH_ACTION_SEEK, FH_ACTION_GET_EMPTY_MAPPINGS, FH_ACTION_TRANSFER_ESCAPE_DATA]"

text \<open>The case a \<open>switch\<close> on the action selects; \<open>None\<close> is its default.\<close>

definition action_of :: "u64 \<Rightarrow> fh_action option" where
  "action_of c = find (\<lambda>a. action_code a = c) all_actions"

definition fh_action_to_str :: "int \<Rightarrow> string" where
  "fh_action_to_str action =
    (case action_of (word_of_int action) of
       Some FH_ACTION_UNDEF \<Rightarrow> ''undef''
     | Some FH_ACTION_GUEST_CONTINUE \<Rightarrow> ''FH_ACTION_GUEST_CONTINUE''
     | Some FH_ACTION_ALLOC_GUEST \<Rightarrow> ''FH_ACTION_ALLOC_GUEST''
     | Some FH_ACTION_OPEN_DEVICE \<Rightarrow> ''FH_ACTION_OPEN_DEVICE''
     | Some FH_ACTION_CLOSE_DEVICE \<Rightarrow> ''FH_ACTION_CLOSE_DEVICE''
     | Some FH_ACTION_MMAP \<Rightarrow> ''FH_ACTION_MMAP''
     | Some FH_ACTION_READ \<Rightarrow> ''FH_ACTION_READ''
     | Some FH_ACTION_WRITE \<Rightarrow> ''FH_ACTION_WRITE''
     | Some FH_ACTION_UNMAP \<Rightarrow> ''FH_ACTION_UNMAP''
     | Some FH_ACTION_PING \<Rightarrow> ''FH_ACTION_PING''
     | Some FH_ACTION_SETUP \<Rightarrow> ''FH_ACTION_SETUP''
     | Some FH_ACTION_TEARDOWN \<Rightarrow> ''FH_ACTION_TEARDOWN''
     | Some FH_ACTION_VERIFY_MAPPING \<Rightarrow> ''FH_ACTION_VERIFY_MAPPING''
     | Some FH_ACTION_DMA \<Rightarrow> ''FH_ACTION_DMA''
     | Some FH_ACTION_SEEK \<Rightarrow> ''FH_ACTION_SEEK''
     | Some FH_ACTION_GET_EMPTY_MAPPINGS \<Rightarrow> ''FH_ACTION_GET_EMPTY_MAPPINGS''
     | Some FH_ACTION_TRANSFER_ESCAPE_DATA \<Rightarrow> ''FH_ACTION_TRANSFER_ESCAPE_DATA''
     | _ \<Rightarrow> ''unknown action'')"

subsection \<open>The payloads\<close>

text \<open>\<open>struct action_common\<close>, at the start of most payloads.\<close>

definition D_fd :: nat where [simp]: "D_fd = 32"
definition D_ret :: nat where [simp]: "D_ret = 36"
definition D_err_no :: nat where [simp]: "D_err_no = 44"

text \<open>\<open>struct action_openclose_device\<close>.\<close>

definition D_device :: nat where [simp]: "D_device = 48"
definition sizeof_device :: nat where [simp]: "sizeof_device = 128"
definition D_flags :: nat where [simp]: "D_flags = 176"

text \<open>\<open>struct action_ping\<close>, \<open>struct action_verify_mappping\<close>.\<close>

definition D_ping :: nat where [simp]: "D_ping = 32"
definition D_verify_status :: nat where [simp]: "D_verify_status = 32"
definition D_verify_pfn :: nat where [simp]: "D_verify_pfn = 36"

datatype action_verify_mappping_status = action_verify_mappping_success | action_verify_mappping_fail

primrec verify_code :: "action_verify_mappping_status \<Rightarrow> u64" where
  "verify_code action_verify_mappping_success = 1"
| "verify_code action_verify_mappping_fail = 2"

text \<open>\<open>struct action_read\<close> and \<open>struct action_write\<close> have the same layout.\<close>

definition D_rw_count :: nat where [simp]: "D_rw_count = 48"
definition D_rw_offset :: nat where [simp]: "D_rw_offset = 56"
definition D_rw_buffer_size :: nat where [simp]: "D_rw_buffer_size = 64"
definition D_rw_buffer :: nat where [simp]: "D_rw_buffer = 72"

text \<open>\<open>struct action_mmap_device\<close>.\<close>

definition D_mmap_vm_start :: nat where [simp]: "D_mmap_vm_start = 56"
definition D_mmap_vm_end :: nat where [simp]: "D_mmap_vm_end = 64"
definition D_mmap_vm_pgoff :: nat where [simp]: "D_mmap_vm_pgoff = 72"
definition D_mmap_vm_flags :: nat where [simp]: "D_mmap_vm_flags = 80"
definition D_mmap_vm_page_prot :: nat where [simp]: "D_mmap_vm_page_prot = 88"
definition D_mmap_pfn_size :: nat where [simp]: "D_mmap_pfn_size = 96"
definition D_mmap_pfn :: nat where [simp]: "D_mmap_pfn = 104"
definition sizeof_action_mmap_device :: nat where [simp]: "sizeof_action_mmap_device = 72"

text \<open>\<open>struct action_unmap\<close>.\<close>

definition D_unmap_vm_start :: nat where [simp]: "D_unmap_vm_start = 48"
definition D_unmap_vm_end :: nat where [simp]: "D_unmap_vm_end = 56"
definition D_unmap_pfn_size :: nat where [simp]: "D_unmap_pfn_size = 64"
definition D_unmap_pfn :: nat where [simp]: "D_unmap_pfn = 72"
definition sizeof_action_unmap :: nat where [simp]: "sizeof_action_unmap = 40"

text \<open>\<open>struct action_ioctl\<close>.\<close>

definition D_ioctl_cmd :: nat where [simp]: "D_ioctl_cmd = 48"
definition D_ioctl_arg :: nat where [simp]: "D_ioctl_arg = 52"

text \<open>\<open>struct action_dma\<close> and the page chunks the guest sends ahead of it.\<close>

definition D_dma_phy_addr :: nat where [simp]: "D_dma_phy_addr = 48"
definition D_dma_do_write :: nat where [simp]: "D_dma_do_write = 56"
definition D_dma_do_aperture :: nat where [simp]: "D_dma_do_aperture = 60"
definition D_dma_user_buf :: nat where [simp]: "D_dma_user_buf = 64"
definition D_dma_len :: nat where [simp]: "D_dma_len = 72"
definition D_dma_pages_nr :: nat where [simp]: "D_dma_pages_nr = 80"
definition sizeof_action_dma :: nat where [simp]: "sizeof_action_dma = 56"

record page_chunk =
  addr :: u64
  offset :: u64
  nbytes :: u64

definition sizeof_page_chunk :: nat where [simp]: "sizeof_page_chunk = 24"

definition chunk_bytes :: "page_chunk \<Rightarrow> bytes" where
  "chunk_bytes c = ld_bytes (st 8 (st 8 (st 8 (\<lambda>_. 0) 0 (addr c)) 8 (offset c)) 16 (nbytes c)) 0 24"

text \<open>\<open>struct fh_host_ioctl_dma\<close>: the request the host passes to the device driver.\<close>

record fh_host_ioctl_dma =
  dma_pid :: u32
  dma_phy_addr :: u64
  dma_do_write :: int
  dma_do_aperture :: int
  dma_user_buf :: u64
  dma_len :: u64
  dma_chunks_nr :: u64
  dma_chunks :: "page_chunk list"

text \<open>\<open>struct action_empty_mappings\<close>.\<close>

definition D_em_last_pfn :: nat where [simp]: "D_em_last_pfn = 48"
definition D_em_pfn_max_nr_guest :: nat where [simp]: "D_em_pfn_max_nr_guest = 52"
definition D_em_pfn_nr :: nat where [simp]: "D_em_pfn_nr = 60"
definition D_em_pfn :: nat where [simp]: "D_em_pfn = 68"
definition sizeof_action_empty_mappings :: nat where [simp]: "sizeof_action_empty_mappings = 36"

text \<open>\<open>struct action_transfer_escape_data\<close>, a status word and a union.\<close>

datatype action_transfer_escape_data_status =
    status_done | status_ok | status_transfer_size | status_transfer_data | status_error

primrec status_code :: "action_transfer_escape_data_status \<Rightarrow> int" where
  "status_code status_done = 0"
| "status_code status_ok = 1"
| "status_code status_transfer_size = 2"
| "status_code status_transfer_data = 3"
| "status_code status_error = 4"

definition D_tr_status :: nat where [simp]: "D_tr_status = 32"
definition D_tr_total_size :: nat where [simp]: "D_tr_total_size = 36"
definition D_tr_chunk_size :: nat where [simp]: "D_tr_chunk_size = 40"
definition D_tr_info_ctx :: nat where [simp]: "D_tr_info_ctx = 44"
definition D_tr_chunk_data_size :: nat where [simp]: "D_tr_chunk_data_size = 36"
definition D_tr_chunk_data :: nat where [simp]: "D_tr_chunk_data = 40"
definition sizeof_action_transfer_escape_data :: nat where
  [simp]: "sizeof_action_transfer_escape_data = 20"

subsection \<open>Facts about the encoding\<close>

lemma set_all_actions [simp]: "set all_actions = UNIV"
proof -
  have "a \<in> set all_actions" for a by (cases a) (simp_all add: all_actions_def)
  then show ?thesis by blast
qed

lemma action_of_code [simp]: "action_of (action_code a) = Some a"
  by (cases a) (simp_all add: action_of_def all_actions_def)

lemma action_code_inj: "action_code a = action_code b \<Longrightarrow> a = b"
  by (metis action_of_code option.inject)

lemma action_of_Some: "action_of c = Some a \<longleftrightarrow> c = action_code a"
proof
  assume "action_of c = Some a"
  then show "c = action_code a" by (auto simp: action_of_def find_Some_iff)
qed simp

lemma length_chunk_bytes [simp]: "length (chunk_bytes c) = 24"
  by (simp add: chunk_bytes_def)

lemma chunk_bytes_not_Nil [simp]: "chunk_bytes c \<noteq> []"
  by (simp flip: length_0_conv)

end
