(* ===== verification/Gpu_Comm.thy ===== *)
theory Gpu_Comm
  imports Manager_Main Fh_Protocol
begin

text \<open>
  The manager of the GPU variant (\<open>gpu_driver/gpu_gdev_usr_manager/gpu_comm.c\<close>): it replaces the FPGA
  handler in the same manager program, keeps a table of handles of the gdev library, and serves the
  guest's GPU calls. Data is copied between the guest's pages and a buffer of the manager through
  \<open>/proc/pid/mem\<close>, frame by frame. Shown: a copy to the GPU hands the library exactly the bytes of the guest's
  buffer, a copy there and back is the identity, the library only sees handles that are open
  at the time, and where the code leaves its buffers: the table is overrun by the 2049th open, and a
  failing copy back to the guest frees its buffer twice. Benchmark counters, traces and messages are left out, and
  the two DMA-allocation calls, which the \<open>switch\<close> leaves out too.
\<close>

subsection \<open>Messages\<close>

text \<open>
  Offsets into the escape page (\<open>include/fh_def.h\<close>): the common part of a reply, and the union of the
  arguments, which starts at \<open>G_arg\<close>.
\<close>

definition G_fd :: nat where [simp]: "G_fd = 40"
definition G_err_no :: nat where [simp]: "G_err_no = 44"
definition G_ret :: nat where [simp]: "G_ret = 48"
definition G_buffer_limit :: nat where [simp]: "G_buffer_limit = 56"
definition G_command :: nat where [simp]: "G_command = 56"
definition G_arg :: nat where [simp]: "G_arg = 64"

text \<open>\<open>gdev_ioctl_tune\<close>, \<open>gdev_ioctl_query\<close>, \<open>gdev_ioctl_mem\<close>, \<open>gdev_ioctl_phys\<close>.\<close>

definition G_type :: nat where [simp]: "G_type = G_arg"
definition G_value :: nat where [simp]: "G_value = G_arg + 4"
definition G_result :: nat where [simp]: "G_result = G_arg + 8"
definition G_addr :: nat where [simp]: "G_addr = G_arg"
definition G_size :: nat where [simp]: "G_size = G_arg + 8"
definition G_phys :: nat where [simp]: "G_phys = G_arg + 8"

text \<open>
  \<open>fh_ioctl_memcpy_to_device\<close> and \<open>fh_ioctl_memcpy_from_device\<close>: a \<open>gdev_ioctl_dma\<close>, the number of frames,
  and the frames, which start at the pointer field itself.
\<close>

definition G_src_addr :: nat where [simp]: "G_src_addr = G_arg + 16"
definition G_dst_addr :: nat where [simp]: "G_dst_addr = G_arg + 24"
definition G_dma_size :: nat where [simp]: "G_dma_size = G_arg + 32"
definition G_pfn_num :: nat where [simp]: "G_pfn_num = G_arg + 48"
definition G_pfn :: nat where [simp]: "G_pfn = G_arg + 56"

text \<open>\<open>fh_ioctl_glaunch\<close>, with the 640 bytes of a \<open>gdev_kernel\<close>, and \<open>fh_ioctl_gsync\<close>.\<close>

definition sizeof_gdev_kernel :: nat where [simp]: "sizeof_gdev_kernel = 640"
definition K_param_buf :: nat where [simp]: "K_param_buf = 536"
definition K_name :: nat where [simp]: "K_name = 632"
definition G_launch_id :: nat where [simp]: "G_launch_id = G_arg + 16"
definition G_kernel :: nat where [simp]: "G_kernel = G_arg + 24"
definition G_kernel_param_size :: nat where [simp]: "G_kernel_param_size = G_kernel + sizeof_gdev_kernel"
definition G_kernel_param :: nat where [simp]: "G_kernel_param = G_kernel + sizeof_gdev_kernel + 8"
definition G_sync_id :: nat where [simp]: "G_sync_id = G_arg"
definition G_timeout_sec :: nat where [simp]: "G_timeout_sec = G_arg + 8"
definition G_timeout_usec :: nat where [simp]: "G_timeout_usec = G_arg + 16"
definition G_timeout_neg :: nat where [simp]: "G_timeout_neg = G_arg + 24"
definition G_has_timeout :: nat where [simp]: "G_has_timeout = G_arg + 32"

datatype gdev_ioctl =
    GDEV_IOCTL_GMALLOC | GDEV_IOCTL_GFREE | GDEV_IOCTL_GMEMCPY_TO_DEVICE | GDEV_IOCTL_GMEMCPY_FROM_DEVICE
  | GDEV_IOCTL_GLAUNCH | GDEV_IOCTL_GSYNC | GDEV_IOCTL_GBARRIER | GDEV_IOCTL_GQUERY | GDEV_IOCTL_GTUNE
  | GDEV_IOCTL_GVIRTGET

primrec gdev_code :: "gdev_ioctl \<Rightarrow> u64" where
  "gdev_code GDEV_IOCTL_GMALLOC = 0x100"
| "gdev_code GDEV_IOCTL_GFREE = 0x101"
| "gdev_code GDEV_IOCTL_GMEMCPY_TO_DEVICE = 0x106"
| "gdev_code GDEV_IOCTL_GMEMCPY_FROM_DEVICE = 0x108"
| "gdev_code GDEV_IOCTL_GLAUNCH = 0x112"
| "gdev_code GDEV_IOCTL_GSYNC = 0x113"
| "gdev_code GDEV_IOCTL_GBARRIER = 0x114"
| "gdev_code GDEV_IOCTL_GQUERY = 0x115"
| "gdev_code GDEV_IOCTL_GTUNE = 0x116"
| "gdev_code GDEV_IOCTL_GVIRTGET = 0x124"

definition gdev_ioctl_of :: "u64 \<Rightarrow> gdev_ioctl option" where
  "gdev_ioctl_of c = find (\<lambda>a. gdev_code a = c)
    [GDEV_IOCTL_GMALLOC, GDEV_IOCTL_GFREE, GDEV_IOCTL_GMEMCPY_TO_DEVICE, GDEV_IOCTL_GMEMCPY_FROM_DEVICE,
     GDEV_IOCTL_GLAUNCH, GDEV_IOCTL_GSYNC, GDEV_IOCTL_GBARRIER, GDEV_IOCTL_GQUERY, GDEV_IOCTL_GTUNE, GDEV_IOCTL_GVIRTGET]"

definition FH_ACTION_IOCTL :: u64 where "FH_ACTION_IOCTL = 31"

definition gpu_set_ret :: "mem \<Rightarrow> int \<Rightarrow> mem" where
  "gpu_set_ret m r = st_int (st_long m G_ret r) G_err_no r"

subsection \<open>The gdev library and the state of the manager\<close>

text \<open>
  The calls of the library, with the handle and the arguments the manager passes; a pointer to a buffer is given as
  the bytes behind it, and of a kernel the two pointers the manager replaces are cut out. A reply is
  the returned number (an integer, or a handle or an address), what is stored
  through a pointer argument, and the bytes written to a buffer.
\<close>

datatype gdev_call =
    Gopen int
  | Gclose u64
  | Gmalloc u64 u64
  | Gfree u64 u64
  | GmemcpyTo u64 u64 bytes
  | GmemcpyFrom u64 u64 u64
  | Glaunch u64 bytes bytes
  | Gsync u64 u64 "(u64 \<times> u64 \<times> int) option"
  | Gbarrier u64
  | Gquery u64 u64
  | Gtune u64 u64 u64
  | Gvirtget u64 u64

record greply =
  g_ret :: int
  g_val :: u64
  g_out :: "u64 option"
  g_data :: bytes

text \<open>
  The environment: the library, whose replies may depend on the calls before and their replies; \<open>malloc\<close>; and
  how many bytes the system reads from and writes to the memory of the simulator.
\<close>

record gpu_env =
  g_lib :: "(gdev_call \<times> greply) list \<Rightarrow> gdev_call \<Rightarrow> greply"
  g_malloc :: "u64 \<Rightarrow> mem option"
  g_read :: "u64 \<Rightarrow> u64 \<Rightarrow> int"
  g_write :: "u64 \<Rightarrow> u64 \<Rightarrow> int"

text \<open>
  The static variables of the file, the escape page, the library calls so far, the memory of the
  simulator outside the escape page, and the number of heap blocks in use. A null handle is 0.
\<close>

record gpu_state =
  gpage :: mem
  gdev_handles :: "u64 list"
  gdev_handle_i :: nat
  gcalls :: "(gdev_call \<times> greply) list"
  tmem :: mem
  blocks :: nat

definition gdev_handles_max :: nat where "gdev_handles_max = 2048"

definition gdev :: "gpu_env \<Rightarrow> gdev_call \<Rightarrow> gpu_state \<Rightarrow> greply \<times> gpu_state" where
  "gdev env c s = (let r = g_lib env (gcalls s) c in (r, s\<lparr>gcalls := gcalls s @ [(c, r)]\<rparr>))"

definition util__get_gdev_handle :: "gpu_state \<Rightarrow> int \<Rightarrow> u64 outcome" where
  "util__get_gdev_handle s index =
    (if index < 0 \<or> index \<ge> int (gdev_handle_i s) then Ret 0
     else if nat index < length (gdev_handles s) then Ret (gdev_handles s ! nat index) else Ub OutOfBounds)"

subsection \<open>Copying between the guest and the manager\<close>

text \<open>
  The loop of \<open>util__copy_to_from_target\<close> from frame \<open>i\<close> on, \<open>copied\<close> bytes done: the error that ends it, the
  buffer and the simulator's memory. The value of the copy is compared with the size as an unsigned number,
  so that a negative one fails the second test only.
\<close>

primrec copy_pages ::
  "gpu_env \<Rightarrow> ctx_struct \<Rightarrow> bool \<Rightarrow> u64 \<Rightarrow> mem \<Rightarrow> mem \<Rightarrow> nat \<Rightarrow> nat \<Rightarrow> u64 \<Rightarrow> mem \<Rightarrow> mem \<Rightarrow> (int option \<times> mem \<times> mem) outcome" where
  "copy_pages env ctx to_target tot page to_buf 0 i copied buf tm = Ret (None, buf, tm)"
| "copy_pages env ctx to_target tot page to_buf (Suc k) i copied buf tm =
    (let n = min (tot - copied) 4096
     in if unat ESCAPE_PAGE_SIZE < G_pfn + 8 * i + 8 then Ub OutOfBounds
        else obind (get_addr_map_vaddr ctx (ld 8 page (G_pfn + 8 * i))) (\<lambda>vaddr.
          let (ret, buf', tm') =
            (if to_target
             then (case copy_to_target (g_write env) tm (ld_bytes to_buf (unat copied) (unat n)) vaddr of
                     (ret, tm') \<Rightarrow> (ret, buf, tm'))
             else (case copy_from_target (g_read env) tm vaddr n of
                     (ret, bs) \<Rightarrow> (ret, st_bytes buf (unat copied) bs, tm)))
          in if (word_of_int ret :: u64) < n then Ret (Some (- ENOMEM), buf', tm')
             else if ret < 0 then Ret (Some ret, buf', tm')
             else copy_pages env ctx to_target tot page to_buf k (Suc i) (copied + n) buf' tm'))"

text \<open>
  \<open>util__copy_to_from_target\<close>: the value, the filled buffer when data comes from the guest, and whether the caller's buffer
  was freed. The buffer that is allocated at the start is handed out only when data comes from the guest and
  the copy succeeds; otherwise it is lost.
\<close>

definition util__copy_to_from_target ::
  "gpu_env \<Rightarrow> ctx_struct \<Rightarrow> bool \<Rightarrow> u64 \<Rightarrow> u64 \<Rightarrow> mem \<Rightarrow> gpu_state \<Rightarrow> (int \<times> mem option \<times> bool \<times> gpu_state) outcome" where
  "util__copy_to_from_target env ctx to_target tot pfn_num to_buf s =
    (case g_malloc env tot of
       None \<Rightarrow> Ret (- ENOMEM, None, False, s)
     | Some buf \<Rightarrow>
         let s1 = s\<lparr>blocks := blocks s + 1\<rparr>
         in obind (copy_pages env ctx to_target tot (gpage s) to_buf (unat pfn_num) 0 0 buf (tmem s)) (\<lambda>(err, buf', tm').
              let s2 = s1\<lparr>tmem := tm'\<rparr>
              in case err of
                   Some ret \<Rightarrow> Ret (ret, None, to_target, if to_target then s2\<lparr>blocks := blocks s2 - 1\<rparr> else s2)
                 | None \<Rightarrow> Ret (0, if to_target then None else Some buf', False, s2)))"

subsection \<open>The ioctls\<close>

definition gpu__ioctl_gmemcpy_to_dev :: "gpu_env \<Rightarrow> ctx_struct \<Rightarrow> u64 \<Rightarrow> gpu_state \<Rightarrow> (int \<times> gpu_state) outcome" where
  "gpu__ioctl_gmemcpy_to_dev env ctx handle s =
    (let tot = ld 8 (gpage s) G_dma_size; dst = ld 8 (gpage s) G_dst_addr; num = ld 8 (gpage s) G_pfn_num
     in obind (util__copy_to_from_target env ctx False tot num (\<lambda>_. 0) s) (\<lambda>(ret, buf, freed, s1).
          case buf of
            None \<Rightarrow> Ret (ret, s1)
          | Some b \<Rightarrow>
              if ret < 0 then Ret (ret, s1\<lparr>blocks := blocks s1 - 1\<rparr>)
              else (case gdev env (GmemcpyTo handle dst (ld_bytes b 0 (unat tot))) s1 of
                      (r, s2) \<Rightarrow> Ret (g_ret r, s2\<lparr>blocks := blocks s2 - 1\<rparr>))))"

definition gpu__ioctl_gmemcpy_from_dev :: "gpu_env \<Rightarrow> ctx_struct \<Rightarrow> u64 \<Rightarrow> gpu_state \<Rightarrow> (int \<times> gpu_state) outcome" where
  "gpu__ioctl_gmemcpy_from_dev env ctx handle s =
    (let tot = ld 8 (gpage s) G_dma_size; src = ld 8 (gpage s) G_src_addr; num = ld 8 (gpage s) G_pfn_num
     in case g_malloc env tot of
          None \<Rightarrow> Ret (- ENOMEM, s)
        | Some m \<Rightarrow>
            (case gdev env (GmemcpyFrom handle src tot) (s\<lparr>blocks := blocks s + 1\<rparr>) of
               (r, s1) \<Rightarrow>
                 if g_ret r < 0 then Ret (g_ret r, s1\<lparr>blocks := blocks s1 - 1\<rparr>)
                 else obind (util__copy_to_from_target env ctx True tot num (st_bytes m 0 (g_data r)) s1)
                   (\<lambda>(ret, buf, freed, s2).
                     if freed then Ub DoubleFree
                     else Ret (if ret < 0 then ret else 0, s2\<lparr>blocks := blocks s2 - 1\<rparr>))))"

text \<open>\<open>gpu__ioctl_launch\<close>: of two allocations one of which fails the other one is lost.\<close>

definition gpu__ioctl_launch :: "gpu_env \<Rightarrow> u64 \<Rightarrow> gpu_state \<Rightarrow> (int \<times> gpu_state) outcome" where
  "gpu__ioctl_launch env handle s =
    (let m = gpage s; psize = ld 4 m G_kernel_param_size;
         k = g_malloc env (of_nat sizeof_gdev_kernel); p = g_malloc env psize
     in if k = None \<or> p = None
        then Ret (- ENOMEM, s\<lparr>blocks := blocks s + of_bool (k \<noteq> None) + of_bool (p \<noteq> None)\<rparr>)
        else if unat ESCAPE_PAGE_SIZE < G_kernel_param + unat psize then Ub OutOfBounds
        else (case gdev env (Glaunch handle
                 (ld_bytes m G_kernel K_param_buf @ ld_bytes m (G_kernel + K_param_buf + 8) (K_name - K_param_buf - 8))
                 (ld_bytes m G_kernel_param (unat psize))) s of
                (r, s1) \<Rightarrow> Ret (g_ret r, case g_out r of None \<Rightarrow> s1 | Some v \<Rightarrow> s1\<lparr>gpage := st 4 m G_launch_id v\<rparr>)))"

definition gpu__ioctl_tune :: "gpu_env \<Rightarrow> u64 \<Rightarrow> gpu_state \<Rightarrow> int \<times> gpu_state" where
  "gpu__ioctl_tune env handle s =
    (case gdev env (Gtune handle (ld 4 (gpage s) G_type) (ld 4 (gpage s) G_value)) s of (r, s1) \<Rightarrow> (g_ret r, s1))"

definition gpu__ioctl_query :: "gpu_env \<Rightarrow> u64 \<Rightarrow> gpu_state \<Rightarrow> int \<times> gpu_state" where
  "gpu__ioctl_query env handle s =
    (case gdev env (Gquery handle (ld 4 (gpage s) G_type)) s of
       (r, s1) \<Rightarrow> (g_ret r, case g_out r of None \<Rightarrow> s1 | Some v \<Rightarrow> s1\<lparr>gpage := st 8 (gpage s) G_result v\<rparr>))"

definition gpu__ioctl_memalloc :: "gpu_env \<Rightarrow> u64 \<Rightarrow> gpu_state \<Rightarrow> int \<times> gpu_state" where
  "gpu__ioctl_memalloc env handle s =
    (case gdev env (Gmalloc handle (ld 8 (gpage s) G_size)) s of
       (r, s1) \<Rightarrow> (0, s1\<lparr>gpage := st 8 (gpage s) G_addr (g_val r)\<rparr>))"

definition gpu__ioctl_free :: "gpu_env \<Rightarrow> u64 \<Rightarrow> gpu_state \<Rightarrow> int \<times> gpu_state" where
  "gpu__ioctl_free env handle s =
    (case gdev env (Gfree handle (ld 8 (gpage s) G_addr)) s of
       (r, s1) \<Rightarrow> (0, s1\<lparr>gpage := st 8 (gpage s) G_size (g_val r)\<rparr>))"

definition gpu__ioctl_virtget :: "gpu_env \<Rightarrow> u64 \<Rightarrow> gpu_state \<Rightarrow> int \<times> gpu_state" where
  "gpu__ioctl_virtget env handle s =
    (case gdev env (Gvirtget handle (ld 8 (gpage s) G_addr)) s of
       (r, s1) \<Rightarrow> (0, s1\<lparr>gpage := st 8 (gpage s) G_phys (g_val r)\<rparr>))"

definition gpu__ioctl_sync :: "gpu_env \<Rightarrow> u64 \<Rightarrow> gpu_state \<Rightarrow> int \<times> gpu_state" where
  "gpu__ioctl_sync env handle s =
    (let m = gpage s;
         timeout = (if m G_has_timeout \<noteq> 0
                    then Some (ld 8 m G_timeout_sec, ld 8 m G_timeout_usec, ld_int m G_timeout_neg) else None)
     in case gdev env (Gsync handle (ld 4 m G_sync_id) timeout) s of (r, s1) \<Rightarrow> (g_ret r, s1))"

definition gpu__ioctl_barrier :: "gpu_env \<Rightarrow> u64 \<Rightarrow> gpu_state \<Rightarrow> int \<times> gpu_state" where
  "gpu__ioctl_barrier env handle s = (case gdev env (Gbarrier handle) s of (r, s1) \<Rightarrow> (g_ret r, s1))"

definition gpu_ioctl :: "gpu_env \<Rightarrow> ctx_struct \<Rightarrow> gpu_state \<Rightarrow> (int \<times> gpu_state) outcome" where
  "gpu_ioctl env ctx s =
    obind (util__get_gdev_handle s (ld_int (gpage s) G_fd)) (\<lambda>handle.
      if handle = 0 then Ret (- EINVAL, s)
      else case gdev_ioctl_of (ld 8 (gpage s) G_command) of
        Some GDEV_IOCTL_GTUNE \<Rightarrow> Ret (gpu__ioctl_tune env handle s)
      | Some GDEV_IOCTL_GQUERY \<Rightarrow> Ret (gpu__ioctl_query env handle s)
      | Some GDEV_IOCTL_GMALLOC \<Rightarrow> Ret (gpu__ioctl_memalloc env handle s)
      | Some GDEV_IOCTL_GFREE \<Rightarrow> Ret (gpu__ioctl_free env handle s)
      | Some GDEV_IOCTL_GVIRTGET \<Rightarrow> Ret (gpu__ioctl_virtget env handle s)
      | Some GDEV_IOCTL_GMEMCPY_TO_DEVICE \<Rightarrow> gpu__ioctl_gmemcpy_to_dev env ctx handle s
      | Some GDEV_IOCTL_GMEMCPY_FROM_DEVICE \<Rightarrow> gpu__ioctl_gmemcpy_from_dev env ctx handle s
      | Some GDEV_IOCTL_GLAUNCH \<Rightarrow> gpu__ioctl_launch env handle s
      | Some GDEV_IOCTL_GSYNC \<Rightarrow> Ret (gpu__ioctl_sync env handle s)
      | Some GDEV_IOCTL_GBARRIER \<Rightarrow> Ret (gpu__ioctl_barrier env handle s)
      | None \<Rightarrow> Ret (- EINVAL, s))"

subsection \<open>The handler\<close>

definition fault__setup :: "ctx_struct \<Rightarrow> gpu_state \<Rightarrow> gpu_state" where
  "fault__setup ctx s =
     s\<lparr>gdev_handles := replicate gdev_handles_max 0, gdev_handle_i := 0,
       gpage := gpu_set_ret (st 8 (gpage s) G_buffer_limit (get_mapped_escape_buffer_size ctx)) 0\<rparr>"

primrec close_all :: "gpu_env \<Rightarrow> u64 list \<Rightarrow> gpu_state \<Rightarrow> gpu_state" where
  "close_all env [] s = s"
| "close_all env (h # hs) s = close_all env hs (if h \<noteq> 0 then snd (gdev env (Gclose h) s) else s)"

definition fault__teardown :: "gpu_env \<Rightarrow> gpu_state \<Rightarrow> gpu_state" where
  "fault__teardown env s =
     (close_all env (gdev_handles s) s)\<lparr>gdev_handles := replicate (length (gdev_handles s)) 0, gdev_handle_i := 0\<rparr>"

definition fault__open_dev :: "gpu_env \<Rightarrow> gpu_state \<Rightarrow> gpu_state outcome" where
  "fault__open_dev env s =
    (case gdev env (Gopen 0) s of
       (r, s1) \<Rightarrow>
         let i = gdev_handle_i s1
         in if g_val r = 0 then Ret (s1\<lparr>gpage := gpu_set_ret (gpage s1) (- EINVAL)\<rparr>)
            else if length (gdev_handles s1) \<le> i then Ub OutOfBounds
            else Ret (s1\<lparr>gdev_handles := (gdev_handles s1)[i := g_val r], gdev_handle_i := Suc i,
                         gpage := gpu_set_ret (st_int (gpage s1) G_fd (int i)) 0\<rparr>))"

definition fault__close_dev :: "gpu_env \<Rightarrow> gpu_state \<Rightarrow> gpu_state outcome" where
  "fault__close_dev env s =
    (let fd = ld_int (gpage s) G_fd
     in obind (util__get_gdev_handle s fd) (\<lambda>handle.
          if handle = 0 then Ret (s\<lparr>gpage := gpu_set_ret (gpage s) (- EINVAL)\<rparr>)
          else (case gdev env (Gclose handle) s of
                  (r, s1) \<Rightarrow> Ret (s1\<lparr>gdev_handles := (gdev_handles s1)[nat fd := 0],
                                  gpage := gpu_set_ret (gpage s1) (g_ret r)\<rparr>))))"

definition fault__ioctl :: "gpu_env \<Rightarrow> ctx_struct \<Rightarrow> gpu_state \<Rightarrow> gpu_state outcome" where
  "fault__ioctl env ctx s =
     obind (gpu_ioctl env ctx s) (\<lambda>(ret, s1). Ret (s1\<lparr>gpage := gpu_set_ret (gpage s1) ret\<rparr>))"

definition gpu_on_fault :: "gpu_env \<Rightarrow> ctx_struct \<Rightarrow> gpu_state \<Rightarrow> (int \<times> gpu_state) outcome" where
  "gpu_on_fault env ctx s =
    (let action = ld 8 (gpage s) F_action
     in if ld 8 (gpage s) F_turn \<noteq> turn_code FH_TURN_HOST then Ret (0, s)
        else obind
          (if action = action_code FH_ACTION_SETUP then Ret (fault__setup ctx s)
           else if action = action_code FH_ACTION_TEARDOWN then Ret (fault__teardown env s)
           else if action = action_code FH_ACTION_OPEN_DEVICE then fault__open_dev env s
           else if action = action_code FH_ACTION_CLOSE_DEVICE then fault__close_dev env s
           else if action = FH_ACTION_IOCTL then fault__ioctl env ctx s
           else Ret s)
          (\<lambda>s1. Ret (0, s1\<lparr>gpage := st 8 (gpage s1) F_turn (turn_code FH_TURN_GUEST)\<rparr>)))"

subsection \<open>Copies are gather and scatter\<close>

text \<open>The bytes of a buffer that is spread over pages, and storing bytes there.\<close>

primrec gather :: "mem \<Rightarrow> u64 list \<Rightarrow> nat \<Rightarrow> bytes" where
  "gather tm [] n = []"
| "gather tm (v # vs) n = ld_bytes tm (unat v) (min n 4096) @ gather tm vs (n - 4096)"

primrec scatter :: "mem \<Rightarrow> u64 list \<Rightarrow> bytes \<Rightarrow> mem" where
  "scatter tm [] bs = tm"
| "scatter tm (v # vs) bs = scatter (st_bytes tm (unat v) (take 4096 bs)) vs (drop 4096 bs)"

text \<open>Pages that do not overlap.\<close>

definition disjoint_pages :: "u64 list \<Rightarrow> bool" where
  "disjoint_pages vs \<longleftrightarrow> distinct vs \<and> (\<forall>v \<in> set vs. unat v mod 4096 = 0)"

lemma pages_apart:
  assumes "a mod 4096 = 0" "b mod 4096 = 0" "a \<noteq> (b :: nat)" "m \<le> 4096" "n \<le> 4096"
  shows "a + m \<le> b \<or> b + n \<le> a"
proof -
  obtain i j where "a = 4096 * i" "b = 4096 * j" using assms(1,2) by (auto simp: mod_eq_0_iff_dvd dvd_def)
  then show ?thesis using assms(3-5) by (cases "i < j") auto
qed

lemma scatter_other:
  assumes "disjoint_pages (v # vs)" "n \<le> 4096"
  shows "ld_bytes (scatter tm vs bs) (unat v) n = ld_bytes tm (unat v) n"
  using assms
proof (induction vs arbitrary: tm bs)
  case (Cons w vs)
  have "v \<noteq> w" using Cons.prems(1) by (auto simp: disjoint_pages_def)
  then have "unat v \<noteq> unat w" by (simp add: word_unat_eq_iff)
  then have apart: "unat v + n \<le> unat w \<or> unat w + length (take 4096 bs) \<le> unat v"
    using Cons.prems pages_apart [of "unat v" "unat w" n "length (take 4096 bs)"] by (auto simp: disjoint_pages_def)
  have "disjoint_pages (v # vs)" using Cons.prems(1) by (auto simp: disjoint_pages_def)
  then have "ld_bytes (scatter tm (w # vs) bs) (unat v) n = ld_bytes (st_bytes tm (unat w) (take 4096 bs)) (unat v) n"
    using Cons.IH Cons.prems(2) by simp
  also have "\<dots> = ld_bytes tm (unat v) n"
    using apart by (intro nth_equalityI) (auto simp: st_bytes_outside)
  finally show ?case .
qed simp

text \<open>What is scattered over disjoint pages is gathered again.\<close>

lemma gather_scatter:
  assumes "disjoint_pages vs" "length bs \<le> 4096 * length vs"
  shows "gather (scatter tm vs bs) vs (length bs) = bs"
  using assms
proof (induction vs arbitrary: tm bs)
  case (Cons v vs)
  let ?tm = "st_bytes tm (unat v) (take 4096 bs)"
  have "ld_bytes (scatter ?tm vs (drop 4096 bs)) (unat v) (min (length bs) 4096) = take 4096 bs"
    using scatter_other [OF Cons.prems(1)] by (simp add: ld_bytes_st_bytes_same)
  moreover have "gather (scatter ?tm vs (drop 4096 bs)) vs (length (drop 4096 bs)) = drop 4096 bs"
    using Cons.prems by (intro Cons.IH) (auto simp: disjoint_pages_def)
  ultimately show ?case by simp
qed simp

lemma st_bytes_st_bytes: "st_bytes (st_bytes m a xs) (a + length xs) ys = st_bytes m a (xs @ ys)"
  by (rule ext) (auto simp: st_bytes_def nth_append)

text \<open>
  The frames of a request are known to the manager and lie in the escape page, and the system copies what
  it is asked to.
\<close>

definition frames_at :: "mem \<Rightarrow> u64 list \<Rightarrow> bool" where
  "frames_at page pfns \<longleftrightarrow> G_pfn + 8 * length pfns \<le> unat ESCAPE_PAGE_SIZE
    \<and> ld 8 page G_pfn_num = of_nat (length pfns) \<and> (\<forall>i < length pfns. ld 8 page (G_pfn + 8 * i) = pfns ! i)"

definition copies_all :: "(u64 \<Rightarrow> u64 \<Rightarrow> int) \<Rightarrow> u64 list \<Rightarrow> bool" where
  "copies_all copied vs \<longleftrightarrow> (\<forall>v \<in> set vs. \<forall>n \<le> 4096. copied v n = int (unat n))"

lemma min_chunk:
  assumes "copied \<le> tot"
  shows "unat (min (tot - copied) (4096 :: u64)) = min (unat tot - unat copied) 4096"
    "copied + min (tot - copied) 4096 \<le> tot"
    "unat (copied + min (tot - copied) 4096) = unat copied + min (unat tot - unat copied) 4096"
proof -
  have u: "unat (tot - copied) = unat tot - unat copied" by (rule unat_sub [OF assms])
  show a: "unat (min (tot - copied) (4096 :: u64)) = min (unat tot - unat copied) 4096"
    unfolding min_def word_le_nat_alt u by (simp add: u)
  have le: "unat copied \<le> unat tot" using assms by (simp add: word_le_nat_alt)
  have "unat copied + min (unat tot - unat copied) 4096 \<le> unat tot" using le by simp
  also have "\<dots> < 2 ^ 64" using unsigned_less [of tot, where ?'a = nat] by simp
  finally show b: "unat (copied + min (tot - copied) 4096) = unat copied + min (unat tot - unat copied) 4096"
    by (simp add: unat_word_ariths a del: min_less_iff_conj)
  show "copied + min (tot - copied) 4096 \<le> tot"
    unfolding word_le_nat_alt b using le by simp
qed

lemma copy_step:
  assumes "addr_map_ok ctx" "G_pfn + 8 * i + 8 \<le> unat ESCAPE_PAGE_SIZE" "copied \<le> tot"
    and "v = vaddr_of ctx (ld 8 page (G_pfn + 8 * i))" "n = min (tot - copied) 4096"
  shows "g_read env v n = int (unat n) \<Longrightarrow>
      copy_pages env ctx False tot page to_buf (Suc k) i copied buf tm =
      copy_pages env ctx False tot page to_buf k (Suc i) (copied + n) (st_bytes buf (unat copied) (ld_bytes tm (unat v) (unat n))) tm"
    and "g_write env v n = int (unat n) \<Longrightarrow>
      copy_pages env ctx True tot page to_buf (Suc k) i copied buf tm =
      copy_pages env ctx True tot page to_buf k (Suc i) (copied + n) buf (st_bytes tm (unat v) (ld_bytes to_buf (unat copied) (unat n)))"
  using assms(1,2)
  by (simp_all add: assms(5) [symmetric] assms(4) [unfolded G_pfn_def G_arg_def, simplified, symmetric] get_vaddr_lookup
      lookup_vaddr_of copy_from_target_def copy_to_target_def Let_def del: min_less_iff_conj)

definition frame_addrs :: "ctx_struct \<Rightarrow> mem \<Rightarrow> nat \<Rightarrow> nat \<Rightarrow> u64 list" where
  "frame_addrs ctx page i k = map (\<lambda>j. vaddr_of ctx (ld 8 page (G_pfn + 8 * j))) [i..<i + k]"

lemma frame_addrs_Suc:
  "frame_addrs ctx page i (Suc k) = vaddr_of ctx (ld 8 page (G_pfn + 8 * i)) # frame_addrs ctx page (Suc i) k"
  unfolding frame_addrs_def by (subst upt_conv_Cons) simp_all

lemma take_ld_bytes: "take j (ld_bytes m a n) = ld_bytes m a (min j n)"
  by (rule nth_equalityI) simp_all

lemma drop_ld_bytes: "drop j (ld_bytes m a n) = ld_bytes m (a + j) (n - j)"
  by (rule nth_equalityI) (simp_all add: add.assoc)

lemma copy_from_gathers:
  assumes "addr_map_ok ctx" "G_pfn + 8 * (i + k) \<le> unat ESCAPE_PAGE_SIZE" "copied \<le> tot"
    and "copies_all (g_read env) (frame_addrs ctx page i k)"
  shows "copy_pages env ctx False tot page to_buf k i copied buf tm =
    Ret (None, st_bytes buf (unat copied) (gather tm (frame_addrs ctx page i k) (unat tot - unat copied)), tm)"
  using assms(2-4)
proof (induction k arbitrary: i copied buf)
  case 0
  then show ?case by (simp add: frame_addrs_def)
next
  case (Suc k)
  let ?n = "min (tot - copied) 4096" and ?v = "vaddr_of ctx (ld 8 page (G_pfn + 8 * i))"
  let ?r = "unat tot - unat copied"
  note n = min_chunk [OF Suc.prems(2)]
  have rd: "g_read env ?v ?n = int (unat ?n)" "copies_all (g_read env) (frame_addrs ctx page (Suc i) k)"
    using Suc.prems(3) by (auto simp: copies_all_def frame_addrs_Suc)
  have "G_pfn + 8 * i + 8 \<le> unat ESCAPE_PAGE_SIZE" using Suc.prems(1) by simp
  note step = copy_step(1) [OF assms(1) this Suc.prems(2) refl refl rd(1)]
  have r: "unat tot - unat (copied + ?n) = ?r - 4096" unfolding n(3) by (simp add: min_def)
  have u: "unat copied + min ?r 4096 = unat copied + length (ld_bytes tm (unat ?v) (min ?r 4096))" by simp
  have "G_pfn + 8 * (Suc i + k) \<le> unat ESCAPE_PAGE_SIZE" using Suc.prems(1) by simp
  note ih = Suc.IH [OF this n(2) rd(2)]
  show ?case
    unfolding step ih r n(1) unfolding n(3) u st_bytes_st_bytes by (simp add: frame_addrs_Suc)
qed

lemma copy_to_scatters:
  assumes "addr_map_ok ctx" "G_pfn + 8 * (i + k) \<le> unat ESCAPE_PAGE_SIZE" "copied \<le> tot"
    and "copies_all (g_write env) (frame_addrs ctx page i k)"
  shows "copy_pages env ctx True tot page to_buf k i copied buf tm =
    Ret (None, buf, scatter tm (frame_addrs ctx page i k) (ld_bytes to_buf (unat copied) (unat tot - unat copied)))"
  using assms(2-4)
proof (induction k arbitrary: i copied tm)
  case 0
  then show ?case by (simp add: frame_addrs_def)
next
  case (Suc k)
  let ?n = "min (tot - copied) 4096" and ?v = "vaddr_of ctx (ld 8 page (G_pfn + 8 * i))"
  let ?r = "unat tot - unat copied"
  note n = min_chunk [OF Suc.prems(2)]
  have wr: "g_write env ?v ?n = int (unat ?n)" "copies_all (g_write env) (frame_addrs ctx page (Suc i) k)"
    using Suc.prems(3) by (auto simp: copies_all_def frame_addrs_Suc)
  have "G_pfn + 8 * i + 8 \<le> unat ESCAPE_PAGE_SIZE" using Suc.prems(1) by simp
  note step = copy_step(2) [OF assms(1) this Suc.prems(2) refl refl wr(1)]
  have r: "unat tot - unat (copied + ?n) = ?r - 4096" unfolding n(3) by (simp add: min_def)
  have b: "ld_bytes to_buf (unat copied + min ?r 4096) (?r - 4096) = ld_bytes to_buf (unat copied + 4096) (?r - 4096)"
    by (cases "?r \<le> 4096") simp_all
  have "G_pfn + 8 * (Suc i + k) \<le> unat ESCAPE_PAGE_SIZE" using Suc.prems(1) by simp
  note ih = Suc.IH [OF this n(2) wr(2)]
  show ?case
    unfolding step ih r n(1) unfolding n(3) b frame_addrs_Suc
    by (simp add: take_ld_bytes drop_ld_bytes min.commute)
qed

lemma frame_addrs_at:
  assumes "frames_at page pfns"
  shows "frame_addrs ctx page 0 (length pfns) = map (vaddr_of ctx) pfns" "unat (ld 8 page G_pfn_num) = length pfns"
    "G_pfn + 8 * (0 + length pfns) \<le> unat ESCAPE_PAGE_SIZE"
proof -
  show "frame_addrs ctx page 0 (length pfns) = map (vaddr_of ctx) pfns"
    using assms by (intro nth_equalityI) (simp_all add: frame_addrs_def frames_at_def)
  show "unat (ld 8 page G_pfn_num) = length pfns" "G_pfn + 8 * (0 + length pfns) \<le> unat ESCAPE_PAGE_SIZE"
    using assms by (simp_all add: frames_at_def ESCAPE_PAGE_SIZE_def unat_of_nat)
qed

text \<open>
  The bytes handed to the library: the guest's buffer, and when the frames do not cover the size, what
  \<open>malloc\<close> left in the rest of the manager's buffer.
\<close>

definition sent_bytes :: "mem \<Rightarrow> mem \<Rightarrow> u64 list \<Rightarrow> nat \<Rightarrow> bytes" where
  "sent_bytes buf tm vs n = gather tm vs n @ ld_bytes buf (4096 * length vs) (n - 4096 * length vs)"

lemma length_gather_min: "length (gather tm vs n) = min n (4096 * length vs)"
  by (induction vs arbitrary: n) auto

lemma sent_bytes_eq: "ld_bytes (st_bytes buf 0 (gather tm vs n)) 0 n = sent_bytes buf tm vs n"
  by (rule nth_equalityI) (auto simp: sent_bytes_def length_gather_min nth_append st_bytes_def)

lemma sent_bytes_covered: "n \<le> 4096 * length vs \<Longrightarrow> sent_bytes buf tm vs n = gather tm vs n"
  by (simp add: sent_bytes_def)

text \<open>Copying to the device: one call, with the bytes of the guest's buffer; no block is lost.\<close>

lemma to_dev_call:
  fixes s env h ctx pfns buf
  defines "c \<equiv> GmemcpyTo h (ld 8 (gpage s) G_dst_addr)
      (sent_bytes buf (tmem s) (map (vaddr_of ctx) pfns) (unat (ld 8 (gpage s) G_dma_size)))"
  assumes "addr_map_ok ctx" "frames_at (gpage s) pfns" "g_malloc env (ld 8 (gpage s) G_dma_size) = Some buf"
    and "copies_all (g_read env) (map (vaddr_of ctx) pfns)"
  shows "gpu__ioctl_gmemcpy_to_dev env ctx h s =
    Ret (g_ret (g_lib env (gcalls s) c), s\<lparr>gcalls := gcalls s @ [(c, g_lib env (gcalls s) c)]\<rparr>)"
proof -
  let ?tot = "ld 8 (gpage s) G_dma_size" and ?vs = "map (vaddr_of ctx) pfns"
  note fr = frame_addrs_at [OF assms(3)]
  have "copy_pages env ctx False ?tot (gpage s) (\<lambda>_. 0) (length pfns) 0 0 buf (tmem s) =
      Ret (None, st_bytes buf 0 (gather (tmem s) ?vs (unat ?tot)), tmem s)"
    using copy_from_gathers [OF assms(2) fr(3), of 0 ?tot env "gpage s" "\<lambda>_. 0" buf "tmem s"] assms(5) fr(1) by simp
  then show ?thesis
    using assms(4) fr(2) unfolding c_def
    by (simp add: gpu__ioctl_gmemcpy_to_dev_def util__copy_to_from_target_def gdev_def sent_bytes_eq Let_def)
qed

text \<open>Copying from the device: the bytes are scattered over the guest's pages, and one block is lost.\<close>

lemma from_dev_call:
  fixes s env h ctx pfns
  defines "c \<equiv> GmemcpyFrom h (ld 8 (gpage s) G_src_addr) (ld 8 (gpage s) G_dma_size)"
  assumes "addr_map_ok ctx" "frames_at (gpage s) pfns" "g_malloc env (ld 8 (gpage s) G_dma_size) \<noteq> None"
    and "copies_all (g_write env) (map (vaddr_of ctx) pfns)" "r = g_lib env (gcalls s) c" "0 \<le> g_ret r"
    and "length (g_data r) = unat (ld 8 (gpage s) G_dma_size)"
  shows "gpu__ioctl_gmemcpy_from_dev env ctx h s =
    Ret (0, s\<lparr>gcalls := gcalls s @ [(c, r)], tmem := scatter (tmem s) (map (vaddr_of ctx) pfns) (g_data r),
              blocks := blocks s + 1\<rparr>)"
proof -
  let ?tot = "ld 8 (gpage s) G_dma_size" and ?vs = "map (vaddr_of ctx) pfns"
  note fr = frame_addrs_at [OF assms(3)]
  obtain m where m: "g_malloc env ?tot = Some m" using assms(4) by auto
  have "copy_pages env ctx True ?tot (gpage s) (st_bytes m 0 (g_data r)) (length pfns) 0 0 m (tmem s) =
      Ret (None, m, scatter (tmem s) ?vs (g_data r))"
    using copy_to_scatters [OF assms(2) fr(3), of 0 ?tot env "gpage s" "st_bytes m 0 (g_data r)" m "tmem s"]
      assms(5,8) fr(1) by (simp add: ld_bytes_st_bytes_same)
  then show ?thesis
    using m fr(2) assms(6,7) unfolding c_def
    by (simp add: gpu__ioctl_gmemcpy_from_dev_def util__copy_to_from_target_def gdev_def Let_def)
qed

text \<open>An address the system cannot write ends the copy with an error, whatever the other addresses do.\<close>

lemma copy_to_fails:
  assumes "addr_map_ok ctx" "G_pfn + 8 * (i + k) \<le> unat ESCAPE_PAGE_SIZE"
    and "v \<in> set (frame_addrs ctx page i k)" "\<And>n. g_write env v n < 0"
  shows "\<exists>err buf' tm'. copy_pages env ctx True tot page to_buf k i copied buf tm = Ret (Some err, buf', tm')"
  using assms(2,3)
proof (induction k arbitrary: i copied tm)
  case 0
  then show ?case by (simp add: frame_addrs_def)
next
  case (Suc k)
  let ?w = "vaddr_of ctx (ld 8 page (G_pfn + 8 * i))" and ?n = "min (tot - copied) 4096"
  have b: "\<not> unat ESCAPE_PAGE_SIZE < G_pfn + 8 * i + 8" "G_pfn + 8 * (Suc i + k) \<le> unat ESCAPE_PAGE_SIZE"
    using Suc.prems(1) by simp_all
  have look: "get_addr_map_vaddr ctx (ld 8 page (G_pfn + 8 * i)) = Ret ?w"
    using assms(1) by (simp add: get_vaddr_lookup lookup_vaddr_of)
  show ?case
  proof (cases "?w = v")
    case True
    then have neg: "g_write env ?w m < 0" for m using assms(4) by simp
    show ?thesis
      using b(1) neg by (simp add: look copy_to_target_def Let_def del: G_pfn_def min_less_iff_conj)
  next
    case False
    then have "v \<in> set (frame_addrs ctx page (Suc i) k)" using Suc.prems(2) by (simp add: frame_addrs_Suc)
    note ih = Suc.IH [OF b(2) this]
    show ?thesis
      using b(1) ih by (simp add: look copy_to_target_def Let_def del: G_pfn_def min_less_iff_conj)
  qed
qed

subsection \<open>Requests of the guest\<close>

definition gpu_request :: "mem \<Rightarrow> int \<Rightarrow> gdev_ioctl \<Rightarrow> bool" where
  "gpu_request m fd cmd \<longleftrightarrow> ld 8 m F_turn = turn_code FH_TURN_HOST \<and> ld 8 m F_action = FH_ACTION_IOCTL
    \<and> ld_int m G_fd = fd \<and> ld 8 m G_command = gdev_code cmd"

definition has_handle :: "gpu_state \<Rightarrow> int \<Rightarrow> u64 \<Rightarrow> bool" where
  "has_handle s fd h \<longleftrightarrow> 0 \<le> fd \<and> nat fd < gdev_handle_i s \<and> nat fd < length (gdev_handles s)
    \<and> gdev_handles s ! nat fd = h \<and> h \<noteq> 0"

lemma handle_found: "has_handle s fd h \<Longrightarrow> util__get_gdev_handle s fd = Ret h"
  by (auto simp: has_handle_def util__get_gdev_handle_def)

lemma gdev_ioctl_of_code [simp]: "gdev_ioctl_of (gdev_code c) = Some c"
  by (cases c) (simp_all add: gdev_ioctl_of_def)

lemma gpu_request_served:
  assumes "gpu_request (gpage s) fd cmd"
  shows "gpu_on_fault env ctx s = obind (gpu_ioctl env ctx s) (\<lambda>(ret, s1).
    Ret (0, s1\<lparr>gpage := st 8 (gpu_set_ret (gpage s1) ret) F_turn (turn_code FH_TURN_GUEST)\<rparr>))"
  using assms
  by (cases "gpu_ioctl env ctx s") (auto simp: gpu_request_def gpu_on_fault_def fault__ioctl_def FH_ACTION_IOCTL_def Let_def)

lemma gpu_reply:
  assumes "- (2 ^ 63) \<le> r" "r < 2 ^ 63"
  shows "ld_long (st 8 (gpu_set_ret m r) F_turn v) G_ret = r"
  using assms by (simp add: gpu_set_ret_def mem_simps)

lemma to_dev_served:
  fixes s env h ctx pfns buf
  defines "c \<equiv> GmemcpyTo h (ld 8 (gpage s) G_dst_addr)
      (sent_bytes buf (tmem s) (map (vaddr_of ctx) pfns) (unat (ld 8 (gpage s) G_dma_size)))"
  assumes "gpu_request (gpage s) fd GDEV_IOCTL_GMEMCPY_TO_DEVICE" "has_handle s fd h" "addr_map_ok ctx"
    and "frames_at (gpage s) pfns" "g_malloc env (ld 8 (gpage s) G_dma_size) = Some buf"
    and "copies_all (g_read env) (map (vaddr_of ctx) pfns)" "r = g_lib env (gcalls s) c"
  shows "gpu_on_fault env ctx s = Ret (0, s\<lparr>gcalls := gcalls s @ [(c, r)],
    gpage := st 8 (gpu_set_ret (gpage s) (g_ret r)) F_turn (turn_code FH_TURN_GUEST)\<rparr>)"
proof -
  have q: "ld_int (gpage s) G_fd = fd" "ld 8 (gpage s) G_command = gdev_code GDEV_IOCTL_GMEMCPY_TO_DEVICE"
    using assms(2) by (simp_all add: gpu_request_def)
  have "gpu_ioctl env ctx s = gpu__ioctl_gmemcpy_to_dev env ctx h s"
    using assms(3) unfolding gpu_ioctl_def q handle_found [OF assms(3)] by (simp add: has_handle_def del: gdev_code.simps)
  then show ?thesis
    using to_dev_call [OF assms(4-7), of h] assms(8) unfolding gpu_request_served [OF assms(2)] by (simp add: c_def)
qed

lemma from_dev_dispatch:
  assumes "gpu_request (gpage s) fd GDEV_IOCTL_GMEMCPY_FROM_DEVICE" "has_handle s fd h"
  shows "gpu_ioctl env ctx s = gpu__ioctl_gmemcpy_from_dev env ctx h s"
proof -
  have q: "ld_int (gpage s) G_fd = fd" "ld 8 (gpage s) G_command = gdev_code GDEV_IOCTL_GMEMCPY_FROM_DEVICE"
    using assms(1) by (simp_all add: gpu_request_def)
  show ?thesis
    using assms(2) unfolding gpu_ioctl_def q handle_found [OF assms(2)] by (simp add: has_handle_def del: gdev_code.simps)
qed

subsection \<open>Properties: data of the guest\<close>

text \<open>C22: A copy to the GPU carries the guest's buffer. For a request on an open handle whose frames are known
  and readable the library is called once, for that handle and the address the guest gave, with the
  bytes of the guest's pages in order, cut to the size; the guest gets the library's value and no memory
  of the simulator changes. When the frames cover less than the size, the rest is what
  the manager's fresh heap block held.\<close>

theorem gpu_copy_to_device:
  assumes "gpu_request (gpage s) fd GDEV_IOCTL_GMEMCPY_TO_DEVICE" "has_handle s fd h" "addr_map_ok ctx"
    and "frames_at (gpage s) pfns" "n = ld 8 (gpage s) G_dma_size" "g_malloc env n = Some buf"
    and "vs = map (vaddr_of ctx) pfns" "copies_all (g_read env) vs"
    and "\<And>log c. - (2 ^ 63) \<le> g_ret (g_lib env log c)" "\<And>log c. g_ret (g_lib env log c) < 2 ^ 63"
  shows "\<exists>s' r bs. gpu_on_fault env ctx s = Ret (0, s') \<and> tmem s' = tmem s \<and> blocks s' = blocks s
    \<and> gcalls s' = gcalls s @ [(GmemcpyTo h (ld 8 (gpage s) G_dst_addr) bs, r)] \<and> length bs = unat n
    \<and> take (4096 * length pfns) bs = gather (tmem s) vs (unat n)
    \<and> drop (4096 * length pfns) bs = ld_bytes buf (4096 * length pfns) (unat n - 4096 * length pfns)
    \<and> ld_long (gpage s') G_ret = g_ret r \<and> ld 8 (gpage s') F_turn = turn_code FH_TURN_GUEST"
proof -
  let ?bs = "sent_bytes buf (tmem s) vs (unat n)" and ?k = "4096 * length pfns"
  have len: "length (gather (tmem s) vs (unat n)) = min (unat n) ?k" by (simp add: length_gather_min assms(7))
  have "length ?bs = unat n" "take ?k ?bs = gather (tmem s) vs (unat n)"
    "drop ?k ?bs = ld_bytes buf ?k (unat n - ?k)"
    using len by (cases "unat n \<le> ?k"; simp add: sent_bytes_def assms(7))+
  moreover note to_dev_served [OF assms(1-4) assms(6) [unfolded assms(5)] assms(8) [unfolded assms(7)] refl]
  ultimately show ?thesis
    using assms(5,7,9,10) gpu_reply by (simp add: ld_st_same)
qed

text \<open>What the library keeps: a copy to the device succeeds and a copy back of the same bytes returns them.\<close>

definition device_keeps :: "((gdev_call \<times> greply) list \<Rightarrow> gdev_call \<Rightarrow> greply) \<Rightarrow> u64 \<Rightarrow> u64 \<Rightarrow> bool" where
  "device_keeps lib h a \<longleftrightarrow> (\<forall>log bs. let c = GmemcpyTo h a bs; r = lib log c;
      r' = lib (log @ [(c, r)]) (GmemcpyFrom h a (of_nat (length bs)))
    in g_ret r = 0 \<and> g_ret r' = 0 \<and> g_data r' = bs)"

text \<open>C21: Data survives the way to the GPU and back. The guest copies a buffer to the device and then from
  the same device address into another buffer of disjoint pages. When both buffers cover the size, their
  frames are known and the system copies what it is asked to, both requests return 0 and the second buffer
  holds the bytes the first one had; the manager has lost one heap block.\<close>

theorem gpu_copy_round_trip:
  assumes "gpu_request m1 fd GDEV_IOCTL_GMEMCPY_TO_DEVICE" "gpu_request m2 fd GDEV_IOCTL_GMEMCPY_FROM_DEVICE"
    and "has_handle s fd h" "addr_map_ok ctx" "frames_at m1 pfns1" "frames_at m2 pfns2"
    and "ld 8 m1 G_dma_size = n" "ld 8 m2 G_dma_size = n" "unat n \<le> 4096 * length pfns1" "unat n \<le> 4096 * length pfns2"
    and "ld 8 m1 G_dst_addr = a" "ld 8 m2 G_src_addr = a" "g_malloc env n \<noteq> None" "device_keeps (g_lib env) h a"
    and "vs1 = map (vaddr_of ctx) pfns1" "vs2 = map (vaddr_of ctx) pfns2"
    and "copies_all (g_read env) vs1" "copies_all (g_write env) vs2" "disjoint_pages vs2"
  shows "\<exists>s1 s2. gpu_on_fault env ctx (s\<lparr>gpage := m1\<rparr>) = Ret (0, s1)
    \<and> gpu_on_fault env ctx (s1\<lparr>gpage := m2\<rparr>) = Ret (0, s2)
    \<and> ld_long (gpage s1) G_ret = 0 \<and> ld_long (gpage s2) G_ret = 0
    \<and> gather (tmem s2) vs2 (unat n) = gather (tmem s) vs1 (unat n) \<and> blocks s2 = blocks s + 1"
proof -
  let ?s = "s\<lparr>gpage := m1\<rparr>" and ?bs = "gather (tmem s) vs1 (unat n)"
  let ?c1 = "GmemcpyTo h a ?bs" and ?c2 = "GmemcpyFrom h a n"
  define r1 where "r1 = g_lib env (gcalls s) ?c1"
  define s1 where "s1 = s\<lparr>gcalls := gcalls s @ [(?c1, r1)],
    gpage := st 8 (gpu_set_ret m1 0) F_turn (turn_code FH_TURN_GUEST)\<rparr>"
  define r2 where "r2 = g_lib env (gcalls s1) ?c2"
  let ?t = "s1\<lparr>gpage := m2\<rparr>"
  obtain buf where buf: "g_malloc env n = Some buf" using assms(13) by auto
  have len: "length ?bs = unat n" using assms(9,15) by (simp add: length_gather_min)
  then have "of_nat (length ?bs) = n" by simp
  then have r: "g_ret r1 = 0" "g_ret r2 = 0" "g_data r2 = ?bs"
    using assms(14) [unfolded device_keeps_def Let_def, rule_format, of "gcalls s" ?bs]
    by (simp_all add: r1_def r2_def s1_def del: of_nat_unat)
  have cov: "sent_bytes buf (tmem s) (map (vaddr_of ctx) pfns1) (unat n) = ?bs"
    using assms(9,15) by (simp add: sent_bytes_covered)
  have h: "has_handle ?s fd h" "has_handle ?t fd h"
    using assms(3) by (simp_all add: has_handle_def s1_def)
  have q: "gpu_request (gpage ?t) fd GDEV_IOCTL_GMEMCPY_FROM_DEVICE" "frames_at (gpage ?t) pfns2"
    using assms(2,6) by simp_all
  have one: "gpu_on_fault env ctx ?s = Ret (0, s1)"
    using to_dev_served [where s = ?s and env = env and buf = buf and r = r1, OF _ h(1) assms(4)] assms(1,5,7,11,15,17) buf cov r(1)
    by (simp add: r1_def s1_def)
  have "gpu__ioctl_gmemcpy_from_dev env ctx h ?t =
      Ret (0, ?t\<lparr>gcalls := gcalls s1 @ [(?c2, r2)], tmem := scatter (tmem s) vs2 ?bs, blocks := blocks s + 1\<rparr>)"
    using from_dev_call [where s = ?t and env = env and r = r2 and h = h, OF assms(4) q(2)] assms(8,12,13,16,18) r len
    by (simp add: r2_def) (simp add: s1_def)
  then have two: "gpu_on_fault env ctx ?t = Ret (0, ?t\<lparr>gcalls := gcalls s1 @ [(?c2, r2)],
      tmem := scatter (tmem s) vs2 ?bs, blocks := blocks s + 1,
      gpage := st 8 (gpu_set_ret m2 0) F_turn (turn_code FH_TURN_GUEST)\<rparr>)"
    unfolding gpu_request_served [OF q(1)] from_dev_dispatch [OF q(1) h(2)] by simp
  have "gather (scatter (tmem s) vs2 ?bs) vs2 (unat n) = ?bs"
    using gather_scatter [OF assms(19), of ?bs "tmem s"] len assms(10,16) by simp
  then show ?thesis using one two gpu_reply [of 0] by (simp add: s1_def)
qed

text \<open>A failing copy back frees its buffer twice. When the device has delivered its data and some frame of the
  guest's buffer has an address the system cannot write, such as the address 0 of a frame that is not in the table,
  the manager runs into a double \<open>free\<close>.\<close>

theorem gpu_failed_copy_frees_twice:
  assumes "gpu_request (gpage s) fd GDEV_IOCTL_GMEMCPY_FROM_DEVICE" "has_handle s fd h" "addr_map_ok ctx"
    and "frames_at (gpage s) pfns" "p \<in> set pfns" "\<And>n. g_write env (vaddr_of ctx p) n < 0"
    and "\<And>n. g_malloc env n \<noteq> None" "\<And>log c. 0 \<le> g_ret (g_lib env log c)"
  shows "gpu_on_fault env ctx s = Ub DoubleFree"
proof -
  note fr = frame_addrs_at [OF assms(4)]
  let ?tot = "ld 8 (gpage s) G_dma_size"
  let ?c = "GmemcpyFrom h (ld 8 (gpage s) G_src_addr) ?tot"
  let ?d = "g_data (g_lib env (gcalls s) ?c)"
  obtain m where m: "g_malloc env ?tot = Some m" using assms(7) by blast
  have "vaddr_of ctx p \<in> set (frame_addrs ctx (gpage s) 0 (length pfns))" using assms(5) fr(1) by simp
  from copy_to_fails [OF assms(3) fr(3) this assms(6), of ?tot "st_bytes m 0 ?d" 0 m "tmem s"]
  have "gpu__ioctl_gmemcpy_from_dev env ctx h s = Ub DoubleFree"
    using m fr(2) assms(8) [of "gcalls s" ?c]
    by (auto simp: gpu__ioctl_gmemcpy_from_dev_def util__copy_to_from_target_def gdev_def Let_def not_less)
  then show ?thesis
    unfolding gpu_request_served [OF assms(1)] from_dev_dispatch [OF assms(1,2)] by simp
qed

subsection \<open>The table of handles\<close>

text \<open>The handles that are open after a history of calls, and histories in which every call is on an open handle.\<close>

primrec call_handle :: "gdev_call \<Rightarrow> u64 option" where
  "call_handle (Gopen _) = None"
| "call_handle (Gclose h) = Some h"
| "call_handle (Gmalloc h _) = Some h"
| "call_handle (Gfree h _) = Some h"
| "call_handle (GmemcpyTo h _ _) = Some h"
| "call_handle (GmemcpyFrom h _ _) = Some h"
| "call_handle (Glaunch h _ _) = Some h"
| "call_handle (Gsync h _ _) = Some h"
| "call_handle (Gbarrier h) = Some h"
| "call_handle (Gquery h _) = Some h"
| "call_handle (Gtune h _ _) = Some h"
| "call_handle (Gvirtget h _) = Some h"

definition live_step :: "gdev_call \<times> greply \<Rightarrow> u64 set \<Rightarrow> u64 set" where
  "live_step x L =
    (case fst x of
       Gopen _ \<Rightarrow> (if g_val (snd x) = 0 then L else insert (g_val (snd x)) L)
     | Gclose h \<Rightarrow> L - {h}
     | _ \<Rightarrow> L)"

definition live :: "(gdev_call \<times> greply) list \<Rightarrow> u64 set" where
  "live log = fold live_step log {}"

primrec calls_ok :: "u64 set \<Rightarrow> (gdev_call \<times> greply) list \<Rightarrow> bool" where
  "calls_ok L [] = True"
| "calls_ok L (x # xs) = ((case call_handle (fst x) of None \<Rightarrow> True | Some h \<Rightarrow> h \<in> L) \<and> calls_ok (live_step x L) xs)"

lemma live_snoc [simp]: "live (log @ [x]) = live_step x (live log)"
  by (simp add: live_def)

lemma calls_ok_append: "calls_ok L (xs @ ys) \<longleftrightarrow> calls_ok L xs \<and> calls_ok (fold live_step xs L) ys"
  by (induction xs arbitrary: L) auto

lemma calls_ok_snoc [simp]:
  "calls_ok {} (log @ [x]) \<longleftrightarrow> calls_ok {} log \<and> (case call_handle (fst x) of None \<Rightarrow> True | Some h \<Rightarrow> h \<in> live log)"
  by (auto simp: calls_ok_append live_def split: option.splits)

text \<open>The open handles of a list of slots, in order.\<close>

abbreviation opened :: "u64 list \<Rightarrow> u64 list" where
  "opened hs \<equiv> filter (\<lambda>h. h \<noteq> 0) hs"

definition gpu_inv :: "gpu_state \<Rightarrow> bool" where
  "gpu_inv s \<longleftrightarrow> length (gdev_handles s) = gdev_handles_max \<and> gdev_handle_i s \<le> gdev_handles_max
    \<and> distinct (opened (gdev_handles s)) \<and> set (opened (gdev_handles s)) \<subseteq> live (gcalls s) \<and> calls_ok {} (gcalls s)"

text \<open>\<open>gopen\<close> gives a handle that is not open already.\<close>

definition fresh_handles :: "((gdev_call \<times> greply) list \<Rightarrow> gdev_call \<Rightarrow> greply) \<Rightarrow> bool" where
  "fresh_handles lib \<longleftrightarrow> (\<forall>log n. g_val (lib log (Gopen n)) \<noteq> 0 \<longrightarrow> g_val (lib log (Gopen n)) \<notin> live log)"

lemma opened_update:
  assumes "i < length hs"
  shows "opened (hs[i := h]) = opened (take i hs) @ opened [h] @ opened (drop (Suc i) hs)"
    and "opened hs = opened (take i hs) @ opened [hs ! i] @ opened (drop (Suc i) hs)"
proof -
  show "opened (hs[i := h]) = opened (take i hs) @ opened [h] @ opened (drop (Suc i) hs)"
    unfolding upd_conv_take_nth_drop [OF assms] by simp
  show "opened hs = opened (take i hs) @ opened [hs ! i] @ opened (drop (Suc i) hs)"
    by (subst id_take_nth_drop [OF assms]) simp
qed

text \<open>A request that does not open or close: the table stays, and at most one call is made, on the given handle.\<close>

definition uses_handle :: "u64 \<Rightarrow> gpu_state \<Rightarrow> gpu_state \<Rightarrow> bool" where
  "uses_handle h s s' \<longleftrightarrow> gdev_handles s' = gdev_handles s \<and> gdev_handle_i s' = gdev_handle_i s
    \<and> (gcalls s' = gcalls s \<or> (\<exists>c r. gcalls s' = gcalls s @ [(c, r)] \<and> call_handle c = Some h \<and> (\<forall>k. c \<noteq> Gclose k)))"

lemma uses_handle_inv:
  assumes "gpu_inv s" "uses_handle h s s'" "h \<in> set (opened (gdev_handles s))"
  shows "gpu_inv s'"
proof -
  have "live_step (c, r) L = L" if "call_handle c = Some h" "\<forall>k. c \<noteq> Gclose k" for c r L
    using that by (cases c) (auto simp: live_step_def)
  then show ?thesis using assms by (auto simp: gpu_inv_def uses_handle_def)
qed

lemma copy_keeps:
  assumes "util__copy_to_from_target env ctx to_target tot num to_buf s = Ret (ret, buf, freed, s')"
  shows "gcalls s' = gcalls s \<and> gdev_handles s' = gdev_handles s \<and> gdev_handle_i s' = gdev_handle_i s"
proof (cases "g_malloc env tot")
  case None
  then show ?thesis using assms by (simp add: util__copy_to_from_target_def)
next
  case (Some b)
  show ?thesis
  proof (cases "copy_pages env ctx to_target tot (gpage s) to_buf (unat num) 0 0 b (tmem s)")
    case (Ret x)
    obtain err b' tm' where x: "x = (err, b', tm')" by (cases x)
    then show ?thesis
      using assms unfolding util__copy_to_from_target_def Some Let_def option.case Ret obind.simps x prod.case
      by (cases err) (auto split: if_splits)
  next
    case (Ub u)
    then show ?thesis using assms by (simp add: util__copy_to_from_target_def Some Let_def)
  qed
qed

lemma to_dev_uses:
  assumes "gpu__ioctl_gmemcpy_to_dev env ctx h s = Ret (r, s')"
  shows "uses_handle h s s'"
proof -
  obtain ret buf freed s1 where c: "util__copy_to_from_target env ctx False (ld 8 (gpage s) G_dma_size)
      (ld 8 (gpage s) G_pfn_num) (\<lambda>_. 0) s = Ret (ret, buf, freed, s1)"
    using assms by (auto simp: gpu__ioctl_gmemcpy_to_dev_def Let_def obind_eq_Ret)
  show ?thesis
    using assms copy_keeps [OF c] unfolding gpu__ioctl_gmemcpy_to_dev_def Let_def c obind.simps prod.case
    by (cases buf) (auto simp: uses_handle_def gdev_def Let_def split: if_splits)
qed

lemma from_dev_uses:
  assumes "gpu__ioctl_gmemcpy_from_dev env ctx h s = Ret (r, s')"
  shows "uses_handle h s s'"
proof (cases "g_malloc env (ld 8 (gpage s) G_dma_size)")
  case None
  then show ?thesis using assms unfolding gpu__ioctl_gmemcpy_from_dev_def Let_def None by (simp add: uses_handle_def)
next
  case (Some m)
  obtain q s1 where q: "gdev env (GmemcpyFrom h (ld 8 (gpage s) G_src_addr) (ld 8 (gpage s) G_dma_size))
      (s\<lparr>blocks := blocks s + 1\<rparr>) = (q, s1)" by (rule prod.exhaust)
  then have s1: "gcalls s1 = gcalls s @ [(GmemcpyFrom h (ld 8 (gpage s) G_src_addr) (ld 8 (gpage s) G_dma_size), q)]"
    "gdev_handles s1 = gdev_handles s" "gdev_handle_i s1 = gdev_handle_i s"
    by (auto simp: gdev_def Let_def)
  have "s' = s1\<lparr>blocks := blocks s1 - 1\<rparr> \<or> (\<exists>ret buf freed s2. util__copy_to_from_target env ctx True
      (ld 8 (gpage s) G_dma_size) (ld 8 (gpage s) G_pfn_num) (st_bytes m 0 (g_data q)) s1 = Ret (ret, buf, freed, s2)
      \<and> s' = s2\<lparr>blocks := blocks s2 - 1\<rparr>)"
    using assms unfolding gpu__ioctl_gmemcpy_from_dev_def Let_def Some option.case q prod.case
    by (auto simp: obind_eq_Ret split: if_splits)
  then show ?thesis
  proof
    assume "s' = s1\<lparr>blocks := blocks s1 - 1\<rparr>"
    then show ?thesis using s1 by (simp add: uses_handle_def)
  next
    assume "\<exists>ret buf freed s2. util__copy_to_from_target env ctx True (ld 8 (gpage s) G_dma_size)
      (ld 8 (gpage s) G_pfn_num) (st_bytes m 0 (g_data q)) s1 = Ret (ret, buf, freed, s2) \<and> s' = s2\<lparr>blocks := blocks s2 - 1\<rparr>"
    then show ?thesis using s1 by (auto dest!: copy_keeps simp: uses_handle_def)
  qed
qed

lemma launch_uses: "gpu__ioctl_launch env h s = Ret (r, s') \<Longrightarrow> uses_handle h s s'"
  by (auto simp: gpu__ioctl_launch_def uses_handle_def gdev_def Let_def split: option.splits if_splits)

lemmas ioctl_uses = to_dev_uses from_dev_uses launch_uses

lemma short_ioctl_uses:
  "uses_handle h s (snd (gpu__ioctl_tune env h s))" "uses_handle h s (snd (gpu__ioctl_query env h s))"
  "uses_handle h s (snd (gpu__ioctl_memalloc env h s))" "uses_handle h s (snd (gpu__ioctl_free env h s))"
  "uses_handle h s (snd (gpu__ioctl_virtget env h s))" "uses_handle h s (snd (gpu__ioctl_sync env h s))"
  "uses_handle h s (snd (gpu__ioctl_barrier env h s))"
  by (simp_all add: uses_handle_def gpu__ioctl_tune_def gpu__ioctl_query_def gpu__ioctl_memalloc_def gpu__ioctl_free_def
      gpu__ioctl_virtget_def gpu__ioctl_sync_def gpu__ioctl_barrier_def gdev_def Let_def split: option.split)

lemma gpu_ioctl_uses:
  assumes "gpu_ioctl env ctx s = Ret (r, s')"
  shows "s' = s \<or> (\<exists>h. h \<in> set (opened (gdev_handles s)) \<and> uses_handle h s s')"
proof -
  obtain h where h: "util__get_gdev_handle s (ld_int (gpage s) G_fd) = Ret h"
    using assms by (auto simp: gpu_ioctl_def obind_eq_Ret)
  note run = assms [unfolded gpu_ioctl_def h obind.simps]
  show ?thesis
  proof (cases "h = 0")
    case True
    then show ?thesis using run by simp
  next
    case False
    then have "h \<in> set (opened (gdev_handles s))"
      using h by (auto simp: util__get_gdev_handle_def split: if_splits)
    moreover have "s' = s \<or> uses_handle h s s'"
    proof (cases "gdev_ioctl_of (ld 8 (gpage s) G_command)")
      case None
      then show ?thesis using run False by simp
    next
      case (Some c)
      note run = run [unfolded Some option.case]
      show ?thesis
        using run False short_ioctl_uses [of h s env]
        by (cases c) (auto intro: ioctl_uses)
    qed
    ultimately show ?thesis by blast
  qed
qed

lemma gpu_inv_page [simp]: "gpu_inv (s\<lparr>gpage := m\<rparr>) = gpu_inv s" "gpu_inv (s\<lparr>tmem := t\<rparr>) = gpu_inv s"
  by (simp_all add: gpu_inv_def)

lemma opened_zeros [simp]: "opened (replicate n 0) = []"
  by simp

lemma setup_inv: "gpu_inv s \<Longrightarrow> gpu_inv (fault__setup ctx s)"
  by (simp add: gpu_inv_def fault__setup_def)

lemma close_all_ok:
  assumes "distinct (opened hs)" "set (opened hs) \<subseteq> live (gcalls s)" "calls_ok {} (gcalls s)"
  shows "calls_ok {} (gcalls (close_all env hs s))"
  using assms
proof (induction hs arbitrary: s)
  case (Cons h hs)
  show ?case
  proof (cases "h = 0")
    case True
    then show ?thesis using Cons by simp
  next
    case False
    have "set (opened hs) \<subseteq> live (gcalls s) - {h}" using Cons.prems(1,2) False by auto
    then show ?thesis
      using Cons.IH [of "snd (gdev env (Gclose h) s)"] Cons.prems False by (simp add: gdev_def live_step_def Let_def)
  qed
qed simp

lemma close_all_keeps: "gdev_handles (close_all env hs s) = gdev_handles s"
  by (induction hs arbitrary: s) (simp_all add: gdev_def Let_def)

lemma teardown_inv: "gpu_inv s \<Longrightarrow> gpu_inv (fault__teardown env s)"
  using close_all_ok [of "gdev_handles s" s env] by (simp add: gpu_inv_def fault__teardown_def)

lemma open_inv:
  assumes "gpu_inv s" "fresh_handles (g_lib env)" "fault__open_dev env s = Ret s'"
  shows "gpu_inv s'"
proof -
  let ?r = "g_lib env (gcalls s) (Gopen 0)" and ?i = "gdev_handle_i s"
  let ?hs = "gdev_handles s"
  have inv: "length ?hs = gdev_handles_max" "distinct (opened ?hs)" "set (opened ?hs) \<subseteq> live (gcalls s)" "calls_ok {} (gcalls s)"
    using assms(1) by (simp_all add: gpu_inv_def)
  show ?thesis
  proof (cases "g_val ?r = 0")
    case True
    then show ?thesis
      using assms(1,3) by (auto simp: fault__open_dev_def gdev_def Let_def gpu_inv_def live_step_def)
  next
    case False
    then have i: "?i < length ?hs" and s': "gdev_handles s' = ?hs[?i := g_val ?r]" "gdev_handle_i s' = Suc ?i"
      "gcalls s' = gcalls s @ [(Gopen 0, ?r)]"
      using assms(3) by (auto simp: fault__open_dev_def gdev_def Let_def split: if_splits)
    have fresh: "g_val ?r \<notin> live (gcalls s)" using assms(2) False by (simp add: fresh_handles_def)
    then show ?thesis
      using inv i s' False unfolding gpu_inv_def opened_update(1) [OF i] s'
      by (subst (asm) (1 2) opened_update(2) [OF i]) (auto simp: live_step_def split: if_splits)
  qed
qed

lemma close_inv:
  assumes "gpu_inv s" "fault__close_dev env s = Ret s'"
  shows "gpu_inv s'"
proof -
  let ?fd = "ld_int (gpage s) G_fd" and ?hs = "gdev_handles s"
  obtain h where h: "util__get_gdev_handle s ?fd = Ret h"
    using assms(2) by (auto simp: fault__close_dev_def Let_def obind_eq_Ret)
  note run = assms(2) [unfolded fault__close_dev_def Let_def h obind.simps]
  show ?thesis
  proof (cases "h = 0")
    case True
    then show ?thesis using run assms(1) by auto
  next
    case False
    then have i: "nat ?fd < length ?hs" "?hs ! nat ?fd = h"
      using h by (auto simp: util__get_gdev_handle_def split: if_splits)
    obtain r where s': "gdev_handles s' = ?hs[nat ?fd := 0]" "gdev_handle_i s' = gdev_handle_i s"
      "gcalls s' = gcalls s @ [(Gclose h, r)]"
      using run False by (auto simp: gdev_def Let_def)
    have inv: "distinct (opened ?hs)" "set (opened ?hs) \<subseteq> live (gcalls s)" using assms(1) by (simp_all add: gpu_inv_def)
    have dec: "opened ?hs = opened (take (nat ?fd) ?hs) @ [h] @ opened (drop (Suc (nat ?fd)) ?hs)"
      using opened_update(2) [OF i(1)] i(2) False by simp
    have "distinct (opened (?hs[nat ?fd := 0]))" "set (opened (?hs[nat ?fd := 0])) \<subseteq> live (gcalls s) - {h}" "h \<in> live (gcalls s)"
      using inv unfolding opened_update(1) [OF i(1)] dec by auto
    then show ?thesis using assms(1) unfolding gpu_inv_def s' by (simp add: live_step_def)
  qed
qed

lemma on_fault_inv:
  assumes "gpu_inv s" "fresh_handles (g_lib env)" "gpu_on_fault env ctx s = Ret (r, s')"
  shows "gpu_inv s'"
proof -
  have ioctl: "gpu_inv s1" if run: "fault__ioctl env ctx s = Ret s1" for s1
  proof -
    obtain v s2 where s2: "gpu_ioctl env ctx s = Ret (v, s2)" "s1 = s2\<lparr>gpage := gpu_set_ret (gpage s2) v\<rparr>"
      using run by (auto simp: fault__ioctl_def obind_eq_Ret)
    then show ?thesis using gpu_ioctl_uses [OF s2(1)] uses_handle_inv [OF assms(1)] assms(1) by auto
  qed
  show ?thesis
    using assms(1,3) setup_inv [OF assms(1)] teardown_inv [OF assms(1)] open_inv [OF assms(1,2)] close_inv [OF assms(1)] ioctl
    by (auto simp: gpu_on_fault_def Let_def obind_eq_Ret split: if_splits)
qed

text \<open>
  The states of the manager under any sequence of faults: between two of them the guest runs and may change the escape
  page and its memory in any way.
\<close>

inductive gpu_reach :: "gpu_env \<Rightarrow> ctx_struct \<Rightarrow> gpu_state \<Rightarrow> bool" for env ctx where
  start: "gdev_handles s = replicate gdev_handles_max 0 \<Longrightarrow> gdev_handle_i s = 0 \<Longrightarrow> gcalls s = [] \<Longrightarrow> gpu_reach env ctx s"
| fault: "gpu_reach env ctx s \<Longrightarrow> gpu_on_fault env ctx (s\<lparr>gpage := m, tmem := t\<rparr>) = Ret (r, s') \<Longrightarrow> gpu_reach env ctx s'"

lemma reach_inv: "gpu_reach env ctx s \<Longrightarrow> fresh_handles (g_lib env) \<Longrightarrow> gpu_inv s"
proof (induction rule: gpu_reach.induct)
  case (start s)
  then show ?case by (simp add: gpu_inv_def)
next
  case (fault s m t r s')
  then show ?case using on_fault_inv [OF _ _ fault.hyps(2)] by simp
qed

text \<open>C20: The library only sees open handles. Whatever requests the guest makes, in whatever order and with
  whatever contents of the escape page: every call of the library is on a handle that a \<open>gopen\<close>
  returned and no \<open>gclose\<close> has closed since; the handles in the table are open and in distinct slots.\<close>

theorem gpu_calls_on_open_handles:
  assumes "gpu_reach env ctx s" "fresh_handles (g_lib env)"
  shows "calls_ok {} (gcalls s) \<and> length (gdev_handles s) = gdev_handles_max \<and> gdev_handle_i s \<le> gdev_handles_max
    \<and> distinct (opened (gdev_handles s)) \<and> set (opened (gdev_handles s)) \<subseteq> live (gcalls s)"
  using reach_inv [OF assms] by (simp add: gpu_inv_def)

text \<open>A guest that opens the device and closes it again, \<open>n\<close> times.\<close>

definition open_page :: mem where
  "open_page = st 8 (st 8 (\<lambda>_. 0) F_turn (turn_code FH_TURN_HOST)) F_action (action_code FH_ACTION_OPEN_DEVICE)"

definition close_page :: "nat \<Rightarrow> mem" where
  "close_page i = st_int (st 8 (st 8 (\<lambda>_. 0) F_turn (turn_code FH_TURN_HOST)) F_action (action_code FH_ACTION_CLOSE_DEVICE)) G_fd (int i)"

primrec open_close :: "gpu_env \<Rightarrow> ctx_struct \<Rightarrow> nat \<Rightarrow> gpu_state \<Rightarrow> gpu_state outcome" where
  "open_close env ctx 0 s = Ret s"
| "open_close env ctx (Suc n) s =
    obind (open_close env ctx n s) (\<lambda>s1.
    obind (gpu_on_fault env ctx (s1\<lparr>gpage := open_page\<rparr>)) (\<lambda>(_, s2).
    obind (gpu_on_fault env ctx (s2\<lparr>gpage := close_page n\<rparr>)) (\<lambda>(_, s3). Ret s3)))"

lemma open_fault:
  assumes "g_val (g_lib env (gcalls s) (Gopen 0)) \<noteq> 0"
  shows "gpu_on_fault env ctx (s\<lparr>gpage := open_page\<rparr>) =
    (if length (gdev_handles s) \<le> gdev_handle_i s then Ub OutOfBounds
     else Ret (0, s\<lparr>gcalls := gcalls s @ [(Gopen 0, g_lib env (gcalls s) (Gopen 0))],
       gdev_handles := (gdev_handles s)[gdev_handle_i s := g_val (g_lib env (gcalls s) (Gopen 0))],
       gdev_handle_i := Suc (gdev_handle_i s),
       gpage := st 8 (gpu_set_ret (st_int open_page G_fd (int (gdev_handle_i s))) 0) F_turn (turn_code FH_TURN_GUEST)\<rparr>))"
proof -
  have "ld 8 open_page F_turn = turn_code FH_TURN_HOST" "ld 8 open_page F_action = action_code FH_ACTION_OPEN_DEVICE"
    by (simp_all add: open_page_def mem_simps)
  then show ?thesis
    using assms by (simp add: gpu_on_fault_def fault__open_dev_def gdev_def Let_def)
qed

lemma close_fault:
  assumes "has_handle s (int i) h" "i < 2 ^ 31"
  shows "\<exists>s' r. gpu_on_fault env ctx (s\<lparr>gpage := close_page i\<rparr>) = Ret (0, s') \<and> gcalls s' = gcalls s @ [(Gclose h, r)]
    \<and> gdev_handles s' = (gdev_handles s)[i := 0] \<and> gdev_handle_i s' = gdev_handle_i s"
proof -
  have p: "ld 8 (close_page i) F_turn = turn_code FH_TURN_HOST" "ld 8 (close_page i) F_action = action_code FH_ACTION_CLOSE_DEVICE"
    "ld_int (close_page i) G_fd = int i"
    using assms(2) by (simp_all add: close_page_def mem_simps)
  have "has_handle (s\<lparr>gpage := close_page i\<rparr>) (int i) h" "h \<noteq> 0" using assms(1) by (simp_all add: has_handle_def)
  note h = handle_found [OF this(1)] this(2)
  show ?thesis
    using p h(2) unfolding gpu_on_fault_def fault__close_dev_def Let_def
    by (simp add: h(1) [unfolded p] gdev_def Let_def del: G_fd_def)
qed

text \<open>The slots of the table are never used again. However promptly the guest closes what it opens, every
  open takes the next slot: up to 2048 rounds work, and leave that many slots used, and the open after
  2048 rounds writes past the end of the table.\<close>

theorem gpu_slots_used_up:
  assumes "gdev_handles s = replicate gdev_handles_max 0" "gdev_handle_i s = 0"
    and "\<And>log. g_val (g_lib env log (Gopen 0)) \<noteq> 0" "n \<le> gdev_handles_max"
  shows "\<exists>s'. open_close env ctx n s = Ret s' \<and> gdev_handle_i s' = n \<and> opened (gdev_handles s') = []
    \<and> (gpu_on_fault env ctx (s'\<lparr>gpage := open_page\<rparr>) = Ub OutOfBounds \<longleftrightarrow> n = gdev_handles_max)"
proof -
  have "\<exists>s'. open_close env ctx n s = Ret s' \<and> gdev_handle_i s' = n \<and> gdev_handles s' = replicate gdev_handles_max 0"
    using assms(4)
  proof (induction n)
    case 0
    then show ?case using assms(1,2) by simp
  next
    case (Suc n)
    then obtain s1 where s1: "open_close env ctx n s = Ret s1" "gdev_handle_i s1 = n" "gdev_handles s1 = replicate gdev_handles_max 0"
      by auto
    obtain s2 where s2: "gpu_on_fault env ctx (s1\<lparr>gpage := open_page\<rparr>) = Ret (0, s2)" "gdev_handle_i s2 = Suc n"
      "gdev_handles s2 = (replicate gdev_handles_max 0)[n := g_val (g_lib env (gcalls s1) (Gopen 0))]"
      using open_fault [where s = s1 and env = env and ctx = ctx, OF assms(3)] Suc.prems s1 by auto
    have "has_handle s2 (int n) (g_val (g_lib env (gcalls s1) (Gopen 0)))" "n < 2 ^ 31"
      using s2 Suc.prems assms(3) by (auto simp: has_handle_def gdev_handles_max_def)
    from close_fault [OF this] obtain s3 where "gpu_on_fault env ctx (s2\<lparr>gpage := close_page n\<rparr>) = Ret (0, s3)"
      "gdev_handles s3 = (gdev_handles s2)[n := 0]" "gdev_handle_i s3 = gdev_handle_i s2" by blast
    moreover have "(replicate gdev_handles_max 0)[n := 0] = replicate gdev_handles_max (0 :: u64)"
      using Suc.prems by (intro nth_equalityI) (simp_all add: nth_list_update)
    ultimately show ?case using s1 s2 by auto
  qed
  then show ?thesis using open_fault [OF assms(3)] assms(4) by (auto simp: not_le)
qed

subsection \<open>Witnesses\<close>

text \<open>
  A library with one device: \<open>gopen\<close> returns the number of calls so far plus one, and a copy from the device returns
  what the last copy to it brought.
\<close>

definition demo_lib :: "(gdev_call \<times> greply) list \<Rightarrow> gdev_call \<Rightarrow> greply" where
  "demo_lib log c = \<lparr>g_ret = 0, g_val = (case c of Gopen _ \<Rightarrow> 1 | _ \<Rightarrow> 0), g_out = None,
     g_data = (case c of GmemcpyFrom _ _ n \<Rightarrow>
                 (if log = [] then [] else case fst (last log) of GmemcpyTo _ _ bs \<Rightarrow> bs | _ \<Rightarrow> []) | _ \<Rightarrow> [])\<rparr>"

definition demo_gpu :: gpu_env where
  "demo_gpu = \<lparr>g_lib = demo_lib, g_malloc = (\<lambda>_. Some (\<lambda>_. 7)), g_read = (\<lambda>_ n. int (unat n)),
     g_write = (\<lambda>v n. if v = 0 then - 1 else int (unat n))\<rparr>"

definition demo_msg :: "gdev_ioctl \<Rightarrow> u64 \<Rightarrow> mem" where
  "demo_msg c pfn = st 8 (st 8 (st 8 (st 8 (st 8 (st 8 (\<lambda>_. 0) F_turn 1) F_action 31) G_command (gdev_code c))
     G_dma_size 3) G_pfn_num 1) G_pfn pfn"

definition demo_gstate :: "mem \<Rightarrow> gpu_state" where
  "demo_gstate m = \<lparr>gpage = m, gdev_handles = 1 # replicate 2047 0, gdev_handle_i = 1, gcalls = [],
     tmem = (\<lambda>a. of_nat (a mod 256)), blocks = 0\<rparr>"

lemma demo_msg_facts:
  "gpu_request (demo_msg c p) 0 c" "frames_at (demo_msg c p) [p]" "has_handle (demo_gstate m) 0 1"
  "ld 8 (demo_msg c p) G_dma_size = 3" "ld 8 (demo_msg c p) G_dst_addr = 0" "ld 8 (demo_msg c p) G_src_addr = 0"
  by (simp_all add: gpu_request_def frames_at_def has_handle_def demo_msg_def demo_gstate_def mem_simps ld_int_def
      FH_ACTION_IOCTL_def ESCAPE_PAGE_SIZE_def)

lemma demo_copies: "copies_all (g_read demo_gpu) vs" "0 \<notin> set vs \<Longrightarrow> copies_all (g_write demo_gpu) vs"
  by (auto simp: copies_all_def demo_gpu_def)

theorem gpu_copy_to_device_witness:
  "\<exists>s' r bs. gpu_on_fault demo_gpu demo_table (demo_gstate (demo_msg GDEV_IOCTL_GMEMCPY_TO_DEVICE 5)) = Ret (0, s')
    \<and> gcalls s' = [(GmemcpyTo 1 0 bs, r)] \<and> bs = [0, 1, 2]"
proof -
  let ?s = "demo_gstate (demo_msg GDEV_IOCTL_GMEMCPY_TO_DEVICE 5)"
  have p: "gpage ?s = demo_msg GDEV_IOCTL_GMEMCPY_TO_DEVICE 5" "gcalls ?s = []" by (simp_all add: demo_gstate_def)
  have "gather (tmem ?s) (map (vaddr_of demo_table) [5]) 3 = [0, 1, 2]"
    by (simp add: demo_vaddr demo_gstate_def ld_bytes_def upt_rec)
  then show ?thesis
    using gpu_copy_to_device [of ?s 0 1 demo_table "[5]" 3 demo_gpu "\<lambda>_. 7" "map (vaddr_of demo_table) [5]"]
      demo_msg_facts demo_table_ok demo_copies(1)
    by (fastforce simp: p demo_gpu_def demo_lib_def)
qed

theorem gpu_copy_round_trip_witness:
  "\<exists>s1 s2. gpu_on_fault demo_gpu demo_table (demo_gstate (\<lambda>_. 0)\<lparr>gpage := demo_msg GDEV_IOCTL_GMEMCPY_TO_DEVICE 5\<rparr>) = Ret (0, s1)
    \<and> gpu_on_fault demo_gpu demo_table (s1\<lparr>gpage := demo_msg GDEV_IOCTL_GMEMCPY_FROM_DEVICE 7\<rparr>) = Ret (0, s2)
    \<and> ld_bytes (tmem s2) 0x12000 3 = [0, 1, 2] \<and> blocks s2 = 1"
proof -
  have "device_keeps (g_lib demo_gpu) 1 0" by (simp add: device_keeps_def demo_gpu_def demo_lib_def Let_def)
  moreover have "gather (tmem (demo_gstate (\<lambda>_. 0))) (map (vaddr_of demo_table) [5]) 3 = [0, 1, 2]"
    by (simp add: demo_vaddr demo_gstate_def ld_bytes_def upt_rec)
  moreover have "disjoint_pages (map (vaddr_of demo_table) [7])" by (simp add: disjoint_pages_def demo_vaddr)
  moreover have "copies_all (g_write demo_gpu) (map (vaddr_of demo_table) [7])"
    by (rule demo_copies(2)) (simp add: demo_vaddr)
  moreover have "g_malloc demo_gpu 3 \<noteq> None" by (simp add: demo_gpu_def)
  moreover have "blocks (demo_gstate (\<lambda>_. 0)) = 0" by (simp add: demo_gstate_def)
  ultimately show ?thesis
    using gpu_copy_round_trip [OF demo_msg_facts(1) [of _ 5] demo_msg_facts(1) [of _ 7] demo_msg_facts(3) [of "\<lambda>_. 0"]
        demo_table_ok demo_msg_facts(2) demo_msg_facts(2) demo_msg_facts(4) demo_msg_facts(4) _ _ demo_msg_facts(5,6)
        _ _ refl refl demo_copies(1)] by (simp add: demo_vaddr) blast
qed

theorem gpu_failed_copy_frees_twice_witness:
  "gpu_on_fault demo_gpu demo_table (demo_gstate (demo_msg GDEV_IOCTL_GMEMCPY_FROM_DEVICE 6)) = Ub DoubleFree"
proof -
  let ?s = "demo_gstate (demo_msg GDEV_IOCTL_GMEMCPY_FROM_DEVICE 6)"
  have p: "gpage ?s = demo_msg GDEV_IOCTL_GMEMCPY_FROM_DEVICE 6" by (simp add: demo_gstate_def)
  show ?thesis
    using gpu_failed_copy_frees_twice [of ?s 0 1 demo_table "[6]" 6 demo_gpu] demo_msg_facts demo_table_ok
    by (simp add: p demo_vaddr demo_gpu_def demo_lib_def)
qed

text \<open>A manager that has just started, and a library that opens one handle.\<close>

definition demo_start :: gpu_state where
  "demo_start = \<lparr>gpage = open_page, gdev_handles = replicate gdev_handles_max 0, gdev_handle_i = 0, gcalls = [],
     tmem = (\<lambda>_. 0), blocks = 0\<rparr>"

definition one_handle :: gpu_env where
  "one_handle = demo_gpu\<lparr>g_lib := (\<lambda>log c. \<lparr>g_ret = 0, g_val = (if log = [] then 1 else 0), g_out = None, g_data = []\<rparr>)\<rparr>"

theorem gpu_calls_on_open_handles_witness:
  "\<exists>s. gpu_on_fault one_handle demo_table (demo_start\<lparr>gpage := open_page\<rparr>) = Ret (0, s)
    \<and> opened (gdev_handles s) = [1] \<and> calls_ok {} (gcalls s) \<and> 1 \<in> live (gcalls s)"
proof -
  have fresh: "fresh_handles (g_lib one_handle)" by (simp add: fresh_handles_def one_handle_def live_def)
  have start: "gpu_reach one_handle demo_table demo_start" by (rule gpu_reach.start) (simp_all add: demo_start_def)
  have v: "g_val (g_lib one_handle (gcalls demo_start) (Gopen 0)) = 1"
    and d: "gdev_handles demo_start = replicate gdev_handles_max 0" "gdev_handle_i demo_start = 0"
    by (simp_all add: one_handle_def demo_start_def)
  obtain s where s: "gpu_on_fault one_handle demo_table (demo_start\<lparr>gpage := open_page\<rparr>) = Ret (0, s)"
    "gdev_handles s = (replicate gdev_handles_max 0)[0 := 1]"
    using open_fault [of one_handle demo_start demo_table] by (simp add: v d gdev_handles_max_def)
  have eq: "demo_start\<lparr>gpage := open_page, tmem := tmem demo_start\<rparr> = demo_start\<lparr>gpage := open_page\<rparr>"
    by (simp add: demo_start_def)
  have "gpu_reach one_handle demo_table s"
    by (rule gpu_reach.fault [OF start, where m = open_page and t = "tmem demo_start"]) (simp only: eq s(1))
  moreover have "opened (gdev_handles s) = [1]"
    unfolding s(2) by (subst opened_update(1)) (simp_all add: gdev_handles_max_def)
  ultimately show ?thesis using gpu_calls_on_open_handles [OF _ fresh, of demo_table s] s(1) by simp
qed

theorem gpu_slots_used_up_witness:
  "\<exists>s. open_close demo_gpu demo_table 2048 demo_start = Ret s
    \<and> gpu_on_fault demo_gpu demo_table (s\<lparr>gpage := open_page\<rparr>) = Ub OutOfBounds"
  using gpu_slots_used_up [of demo_start demo_gpu gdev_handles_max demo_table]
  by (simp add: demo_start_def demo_gpu_def demo_lib_def) (auto simp: gdev_handles_max_def)

end
