(* ===== verification/Fpga_Comm.thy ===== *)
theory Fpga_Comm
  imports Fh_Protocol Usr_Manager
begin

text \<open>
  The host's fault handler (\<open>fpga_escape_libhook/fpga_comm.c\<close>): the transfer buffer that
  collects data larger than the escape page, and \<open>on_fault\<close>, which serves one request
  of the guest on the escape page. The page is \<open>ESCAPE_PAGE_SIZE\<close> bytes long; an access with
  an index the guest chooses is checked against that size, so a request that makes the
  handler leave the page ends in \<open>Ub OutOfBounds\<close>. Benchmark counters, traces and
  messages are left out.
\<close>

subsection \<open>State and system interface\<close>

text \<open>A heap block: its length and its bytes.\<close>

type_synonym block = "nat \<times> mem"

record xdma_ioc_faulthook_mmap =
  ioc_pid :: u32
  ioc_vm_pgoff :: u64
  ioc_vm_flags :: u64
  ioc_vm_page_prot :: u64
  ioc_addr_size :: u64
  ioc_addr :: "u64 list"

record xdma_ioc_faulthook_unmmap =
  iou_pid :: u32
  iou_addr_size :: u64
  iou_addr :: "u64 list"

datatype syscall =
    SysOpen bytes u64
  | SysClose int
  | IocMmap int xdma_ioc_faulthook_mmap
  | IocUnmmap int xdma_ioc_faulthook_unmmap
  | IocDma int fh_host_ioctl_dma

text \<open>
  The operating system: \<open>malloc\<close> (no block, or a block whose bytes are arbitrary) and
  the system calls, whose value and \<open>errno\<close> may depend on the calls made before.
\<close>

record host_os =
  sys_malloc :: "u64 \<Rightarrow> mem option"
  sys_call :: "syscall list \<Rightarrow> syscall \<Rightarrow> int \<times> int"

text \<open>The static variables of the file, the escape page, and the system calls issued so far.\<close>

record host_state =
  page :: mem
  action_transfer_data_ptr :: "block option"
  action_transfer_data_size :: u64
  action_transfer_data_info_ctx :: u64
  action_transfer_data_chunk :: u64
  issued :: "syscall list"

definition malloc :: "host_os \<Rightarrow> u64 \<Rightarrow> block option" where
  "malloc os n = map_option (\<lambda>m. (unat n, m)) (sys_malloc os n)"

definition call :: "host_os \<Rightarrow> syscall \<Rightarrow> host_state \<Rightarrow> int \<times> int \<times> host_state" where
  "call os c s =
    (case sys_call os (issued s) c of (ret, errno) \<Rightarrow> (ret, errno, s\<lparr>issued := issued s @ [c]\<rparr>))"

definition set_ret_and_err_no :: "mem \<Rightarrow> int \<Rightarrow> int \<Rightarrow> mem" where
  "set_ret_and_err_no m r errno =
     st_int (st_long (st_int m D_fd r) D_ret r) D_err_no (if r < 0 then errno else 0)"

definition set_ret_and_err_no_direct :: "mem \<Rightarrow> int \<Rightarrow> mem" where
  "set_ret_and_err_no_direct m r = st_int (st_long (st_int m D_fd r) D_ret r) D_err_no r"

subsection \<open>The transfer buffer\<close>

definition do_action_transfer_escape_data_free :: "host_state \<Rightarrow> host_state" where
  "do_action_transfer_escape_data_free s =
     s\<lparr>action_transfer_data_ptr := None, action_transfer_data_chunk := 0,
       action_transfer_data_info_ctx := 0, action_transfer_data_size := 0\<rparr>"

definition transfer_max :: "ctx_struct \<Rightarrow> u64" where
  "transfer_max ctx = get_mapped_escape_buffer_size ctx
     - of_nat sizeof_action_transfer_escape_data - of_nat sizeof_faultdata_struct"

text \<open>\<open>memcpy\<close> into the transfer buffer; a copy of no bytes does nothing.\<close>

definition blk_write :: "block option \<Rightarrow> nat \<Rightarrow> bytes \<Rightarrow> block option outcome" where
  "blk_write p off bs =
    (if bs = [] then Ret p
     else case p of
       None \<Rightarrow> Ub NullDeref
     | Some (n, m) \<Rightarrow>
        if off + length bs \<le> n then Ret (Some (n, st_bytes m off bs)) else Ub OutOfBounds)"

definition do_action_transfer_escape_data ::
  "host_os \<Rightarrow> ctx_struct \<Rightarrow> host_state \<Rightarrow> (int \<times> host_state) outcome" where
  "do_action_transfer_escape_data os ctx s =
    (let m = page s
     in if ld_int m D_tr_status = status_code status_transfer_size then
          let m1 = st 4 m D_tr_chunk_size (transfer_max ctx);
              size = ld 4 m1 D_tr_total_size;
              p = malloc os size;
              s1 = s\<lparr>page := m1, action_transfer_data_size := size,
                     action_transfer_data_chunk := 0,
                     action_transfer_data_info_ctx := ld 8 m1 D_tr_info_ctx,
                     action_transfer_data_ptr := p\<rparr>
          in if p = None
             then Ret (- 1, s1\<lparr>page := st_int m1 D_tr_status (status_code status_error)\<rparr>)
             else Ret (0, s1\<lparr>page := st_int m1 D_tr_status (status_code status_ok)\<rparr>)
        else if ld_int m D_tr_status = status_code status_transfer_data then
          let transfer = min (ld 4 m D_tr_chunk_data_size) (transfer_max ctx)
          in if action_transfer_data_chunk s + transfer > action_transfer_data_size s
             then Ret (- 1, s)
             else obind (blk_write (action_transfer_data_ptr s)
                           (unat (action_transfer_data_chunk s))
                           (ld_bytes m D_tr_chunk_data (unat transfer)))
                    (\<lambda>p. Ret (0, s\<lparr>action_transfer_data_ptr := p,
                                   action_transfer_data_chunk := action_transfer_data_chunk s + transfer,
                                   page := st_int m D_tr_status (status_code status_ok)\<rparr>))
        else Ret (0, s))"

subsection \<open>DMA\<close>

text \<open>
  \<open>chunks[i].addr = get_addr_map_vaddr_verify(ctx, chunks[i].addr, 1)\<close> for the
  \<open>pages_nr\<close> chunks the guest announces, in place; the flag is false when a frame has no mapping.
\<close>

definition blk_ld :: "block option \<Rightarrow> nat \<Rightarrow> u64 outcome" where
  "blk_ld p a =
    (case p of None \<Rightarrow> Ub NullDeref
     | Some (n, m) \<Rightarrow> if a + 8 \<le> n then Ret (ld 8 m a) else Ub OutOfBounds)"

definition blk_st :: "block option \<Rightarrow> nat \<Rightarrow> u64 \<Rightarrow> block option" where
  "blk_st p a v = map_option (\<lambda>(n, m). (n, st 8 m a v)) p"

primrec dma_loop ::
  "ctx_struct \<Rightarrow> nat \<Rightarrow> nat \<Rightarrow> block option \<Rightarrow> (bool \<times> block option) outcome" where
  "dma_loop ctx 0 i p = Ret (True, p)"
| "dma_loop ctx (Suc k) i p =
    obind (blk_ld p (24 * i)) (\<lambda>pfn.
    obind (get_addr_map_vaddr_verify ctx pfn True) (\<lambda>v.
      let p' = blk_st p (24 * i) v
      in if v = 0 then Ret (False, p') else dma_loop ctx k (Suc i) p'))"

definition chunk_at :: "mem \<Rightarrow> nat \<Rightarrow> page_chunk" where
  "chunk_at m i =
     \<lparr>addr = ld 8 m (24 * i), offset = ld 8 m (24 * i + 8), nbytes = ld 8 m (24 * i + 16)\<rparr>"

definition chunks_of :: "block option \<Rightarrow> nat \<Rightarrow> page_chunk list" where
  "chunks_of p n = (case p of None \<Rightarrow> [] | Some (_, m) \<Rightarrow> map (chunk_at m) [0..<n])"

definition do_dma ::
  "host_os \<Rightarrow> u32 \<Rightarrow> ctx_struct \<Rightarrow> host_state \<Rightarrow> int \<Rightarrow> (int \<times> host_state) outcome" where
  "do_dma os pid ctx s errno0 =
    (let m = page s
     in if action_transfer_data_info_ctx s \<noteq> action_code FH_ACTION_DMA
        then Ret (- 1, s\<lparr>page := set_ret_and_err_no m (- 1) errno0\<rparr>)
        else
          let pages_nr = ld 8 m D_dma_pages_nr
          in obind (dma_loop ctx (unat pages_nr) 0 (action_transfer_data_ptr s)) (\<lambda>(ok, p).
            let s1 = s\<lparr>action_transfer_data_ptr := p\<rparr>
            in if \<not> ok
               then Ret (- 1, do_action_transfer_escape_data_free
                               (s1\<lparr>page := set_ret_and_err_no m (- 1) errno0\<rparr>))
               else
                 let dma = \<lparr>dma_pid = pid, dma_phy_addr = ld 8 m D_dma_phy_addr,
                            dma_do_write = ld_int m D_dma_do_write,
                            dma_do_aperture = ld_int m D_dma_do_aperture,
                            dma_user_buf = ld 8 m D_dma_user_buf, dma_len = ld 8 m D_dma_len,
                            dma_chunks_nr = pages_nr,
                            dma_chunks = chunks_of p (unat pages_nr)\<rparr>;
                     (ret, errno, s2) = call os (IocDma (ld_int m D_fd) dma) s1
                 in Ret (ret, do_action_transfer_escape_data_free
                               (s2\<lparr>page := set_ret_and_err_no m ret errno\<rparr>))))"

subsection \<open>Empty mappings\<close>

text \<open>
  \<open>for (i = 0; pfn < pfn_max && i < max_mappings; pfn ++)\<close>; a frame without mapping is
  stored in \<open>a->pfn[i ++]\<close>.
\<close>

function empty_loop ::
  "ctx_struct \<Rightarrow> u64 \<Rightarrow> u64 \<Rightarrow> u64 \<Rightarrow> u64 \<Rightarrow> mem \<Rightarrow> (u64 \<times> u64 \<times> mem) outcome" where
  "empty_loop ctx pfn_max max_mappings pfn i m =
    (if pfn < pfn_max \<and> i < max_mappings then
       obind (get_addr_map_vaddr_verify ctx pfn False) (\<lambda>v.
         if v = 0 then
           (if D_em_pfn + 8 * unat i + 8 \<le> unat ESCAPE_PAGE_SIZE
            then empty_loop ctx pfn_max max_mappings (pfn + 1) (i + 1) (st 8 m (D_em_pfn + 8 * unat i) pfn)
            else Ub OutOfBounds)
         else empty_loop ctx pfn_max max_mappings (pfn + 1) i m)
     else Ret (pfn, i, m))"
  by pat_completeness auto
termination
proof (relation "measure (\<lambda>(ctx, pfn_max, mx, pfn, i, m). unat pfn_max - unat pfn)")
  show "wf (measure (\<lambda>(ctx, pfn_max, mx, pfn, i, m). unat pfn_max - unat pfn))" by simp
  have step: "unat hi - unat (pfn + 1) < unat hi - unat pfn" if "pfn < hi" for hi pfn :: u64
    using that by (simp add: unat_plus_1_less word_less_nat_alt)
  fix ctx m v and hi mx pfn i :: u64
  assume c: "pfn < hi \<and> i < mx"
  show "((ctx, hi, mx, pfn + 1, i + 1, st 8 m (D_em_pfn + 8 * unat i) pfn), (ctx, hi, mx, pfn, i, m))
      \<in> measure (\<lambda>(ctx, pfn_max, mx, pfn, i, m). unat pfn_max - unat pfn)"
    and "((ctx, hi, mx, pfn + 1, i, m), (ctx, hi, mx, pfn, i, m))
      \<in> measure (\<lambda>(ctx, pfn_max, mx, pfn, i, m). unat pfn_max - unat pfn)"
    using step c by simp_all
qed

declare empty_loop.simps [simp del]

definition get_empty_mappings :: "ctx_struct \<Rightarrow> mem \<Rightarrow> mem outcome" where
  "get_empty_mappings ctx m =
    (let max0 = (get_mapped_escape_buffer_size ctx - of_nat sizeof_faultdata_struct
                   - of_nat sizeof_action_empty_mappings) div 8;
         max_mappings = min max0 (ld 8 m D_em_pfn_max_nr_guest);
         (pfn_min, pfn_max) = get_addr_map_dims ctx;
         pfn = (if ld 4 m D_em_last_pfn = 0 then pfn_min else ld 4 m D_em_last_pfn)
     in obind (empty_loop ctx pfn_max max_mappings pfn 0 m) (\<lambda>(pfn, i, m1).
          let m2 = st 4 m1 D_em_last_pfn (if i = max_mappings \<and> pfn < pfn_max then pfn else 0);
              m3 = st 8 m2 D_em_pfn_nr i
          in Ret (set_ret_and_err_no_direct m3 0)))"

subsection \<open>Memory mappings\<close>

text \<open>
  \<open>addrs[i] = get_addr_map_vaddr(ctx, a->pfn[i])\<close> for the \<open>pfn_size\<close> frames at
  \<open>base\<close>; \<open>blk\<close> is the size of the block \<open>addrs\<close>.
\<close>

definition translate_pfns :: "ctx_struct \<Rightarrow> mem \<Rightarrow> nat \<Rightarrow> nat \<Rightarrow> nat \<Rightarrow> u64 list outcome" where
  "translate_pfns ctx m base blk n =
     ofold (\<lambda>i xs. if base + 8 * i + 8 \<le> unat ESCAPE_PAGE_SIZE \<and> 8 * i + 8 \<le> blk
                   then obind (get_addr_map_vaddr ctx (ld 8 m (base + 8 * i))) (\<lambda>v. Ret (xs @ [v]))
                   else Ub OutOfBounds) [0..<n] []"

text \<open>The path in \<open>a->device\<close>, up to its terminating zero.\<close>

primrec cstr :: "mem \<Rightarrow> nat \<Rightarrow> nat \<Rightarrow> bytes outcome" where
  "cstr m a 0 = Ub OutOfBounds"
| "cstr m a (Suc n) = (if m a = 0 then Ret [] else obind (cstr m (Suc a) n) (\<lambda>cs. Ret (m a # cs)))"

definition do_mmap :: "host_os \<Rightarrow> u32 \<Rightarrow> ctx_struct \<Rightarrow> host_state \<Rightarrow> (bool \<times> host_state) outcome" where
  "do_mmap os pid ctx s =
    (let m = page s; pfn_size = ld 8 m D_mmap_pfn_size
     in case malloc os (pfn_size * 8) of
          None \<Rightarrow> Ret (False, s)
        | Some (blk, _) \<Rightarrow>
           obind (translate_pfns ctx m D_mmap_pfn blk (unat pfn_size)) (\<lambda>addrs.
             let ioc = \<lparr>ioc_pid = pid, ioc_vm_pgoff = ld 8 m D_mmap_vm_pgoff,
                        ioc_vm_flags = ld 8 m D_mmap_vm_flags,
                        ioc_vm_page_prot = ld 8 m D_mmap_vm_page_prot,
                        ioc_addr_size = pfn_size, ioc_addr = addrs\<rparr>;
                 (ret, errno, s1) = call os (IocMmap (ld_int m D_fd) ioc) s
             in Ret (True, s1\<lparr>page := set_ret_and_err_no m ret errno\<rparr>)))"

definition do_unmap :: "host_os \<Rightarrow> u32 \<Rightarrow> ctx_struct \<Rightarrow> host_state \<Rightarrow> (int option \<times> host_state) outcome" where
  "do_unmap os pid ctx s =
    (let m = page s; pfn_size = ld 8 m D_unmap_pfn_size
     in case malloc os (pfn_size * 8) of
          None \<Rightarrow> Ret (None, s)
        | Some (blk, _) \<Rightarrow>
           obind (translate_pfns ctx m D_unmap_pfn blk (unat pfn_size)) (\<lambda>addrs.
             let ioc = \<lparr>iou_pid = pid, iou_addr_size = pfn_size, iou_addr = addrs\<rparr>;
                 (ret, errno, s1) = call os (IocUnmmap (ld_int m D_fd) ioc) s
             in Ret (Some errno, s1\<lparr>page := set_ret_and_err_no m ret errno\<rparr>)))"

subsection \<open>Serving a fault\<close>

definition hand_over :: "host_state \<Rightarrow> int \<times> host_state" where
  "hand_over s = (0, s\<lparr>page := st 8 (page s) F_turn (turn_code FH_TURN_GUEST)\<rparr>)"

text \<open>\<open>if (ret < 0) return ret;\<close> and otherwise the common end of the handler.\<close>

definition or_return :: "int \<times> host_state \<Rightarrow> int \<times> host_state" where
  "or_return r = (if fst r < 0 then r else hand_over (snd r))"

text \<open>
  \<open>FH_ACTION_UNMAP\<close> has no \<open>break\<close>: it continues with \<open>FH_ACTION_DMA\<close>. \<open>errno0\<close> is
  the value of \<open>errno\<close> before the request.
\<close>

definition on_fault ::
  "host_os \<Rightarrow> u32 \<Rightarrow> ctx_struct \<Rightarrow> int \<Rightarrow> host_state \<Rightarrow> (int \<times> host_state) outcome" where
  "on_fault os pid ctx errno0 s =
    (let m = page s
     in if ld 8 m F_turn \<noteq> turn_code FH_TURN_HOST then Ret (0, s)
        else case action_of (ld 8 m F_action) of
          Some FH_ACTION_SETUP \<Rightarrow> Ret (hand_over s)
        | Some FH_ACTION_TEARDOWN \<Rightarrow> Ret (hand_over s)
        | Some FH_ACTION_PING \<Rightarrow>
            Ret (hand_over (s\<lparr>page := st 4 m D_ping (ld 4 m D_ping + 1)\<rparr>))
        | Some FH_ACTION_GET_EMPTY_MAPPINGS \<Rightarrow>
            obind (get_empty_mappings ctx m) (\<lambda>m'. Ret (hand_over (s\<lparr>page := m'\<rparr>)))
        | Some FH_ACTION_VERIFY_MAPPING \<Rightarrow>
            obind (get_addr_map_vaddr_verify ctx (ld 8 m D_verify_pfn) False) (\<lambda>vaddr.
              Ret (hand_over (s\<lparr>page := st 4 m D_verify_status
                (verify_code (if vaddr \<noteq> 0 then action_verify_mappping_success
                              else action_verify_mappping_fail))\<rparr>)))
        | Some FH_ACTION_OPEN_DEVICE \<Rightarrow>
            obind (cstr m D_device sizeof_device) (\<lambda>path.
              let (fd, errno, s1) = call os (SysOpen path (ld 4 m D_flags)) s
              in Ret (hand_over (s1\<lparr>page := set_ret_and_err_no (st_int m D_fd fd) fd errno\<rparr>)))
        | Some FH_ACTION_CLOSE_DEVICE \<Rightarrow>
            (let (ret, errno, s1) = call os (SysClose (ld_int m D_fd)) s
             in Ret (hand_over (s1\<lparr>page := set_ret_and_err_no m ret errno\<rparr>)))
        | Some FH_ACTION_MMAP \<Rightarrow>
            obind (do_mmap os pid ctx s) (\<lambda>(ok, s1).
              Ret (if ok then hand_over s1 else (- 1, s1)))
        | Some FH_ACTION_UNMAP \<Rightarrow>
            obind (do_unmap os pid ctx s) (\<lambda>(r, s1).
              case r of
                None \<Rightarrow> Ret (- 1, s1)
              | Some errno \<Rightarrow> obind (do_dma os pid ctx s1 errno) (\<lambda>r. Ret (or_return r)))
        | Some FH_ACTION_DMA \<Rightarrow> obind (do_dma os pid ctx s errno0) (\<lambda>r. Ret (or_return r))
        | Some FH_ACTION_TRANSFER_ESCAPE_DATA \<Rightarrow>
            obind (do_action_transfer_escape_data os ctx s) (\<lambda>r. Ret (or_return r))
        | _ \<Rightarrow> Ret (hand_over s))"

subsection \<open>The transfer buffer stays in bounds\<close>

text \<open>The buffer is as long as its size says and is filled up to the position.\<close>

definition buffer_ok :: "host_state \<Rightarrow> bool" where
  "buffer_ok s \<longleftrightarrow>
     unat (action_transfer_data_size s) < 2 ^ 32
     \<and> action_transfer_data_chunk s \<le> action_transfer_data_size s
     \<and> (action_transfer_data_ptr s = None
        \<or> map_option fst (action_transfer_data_ptr s) = Some (unat (action_transfer_data_size s)))"

lemma transfer_max_val: "transfer_max ctx = 12287948"
  by (simp add: transfer_max_def get_mapped_escape_buffer_size_def ESCAPE_PAGE_SIZE_def)

lemma page_size_val: "unat ESCAPE_PAGE_SIZE = 12288000"
  by (simp add: ESCAPE_PAGE_SIZE_def)

lemma buffer_ok_page [simp]: "buffer_ok (s\<lparr>page := m\<rparr>) = buffer_ok s"
  and buffer_ok_issued [simp]: "buffer_ok (s\<lparr>issued := cs\<rparr>) = buffer_ok s"
  by (simp_all add: buffer_ok_def)

lemma buffer_ok_free [simp]: "buffer_ok (do_action_transfer_escape_data_free s)"
  by (simp add: buffer_ok_def do_action_transfer_escape_data_free_def)

lemma transfer_fits:
  assumes "unat sz < 2 ^ 32" "chunk \<le> sz" "\<not> chunk + min x (transfer_max ctx) > (sz :: u64)"
  shows "unat (chunk + min x (transfer_max ctx)) = unat chunk + unat (min x (transfer_max ctx))"
    and "unat chunk + unat (min x (transfer_max ctx)) \<le> unat sz"
proof -
  have "unat (min x (transfer_max ctx)) \<le> 12287948"
    using min.cobounded2 [of x "transfer_max ctx"] by (simp add: transfer_max_val word_le_nat_alt)
  with assms(1,2) show e: "unat (chunk + min x (transfer_max ctx)) = unat chunk + unat (min x (transfer_max ctx))"
    by (simp add: unat_word_ariths word_le_nat_alt)
  show "unat chunk + unat (min x (transfer_max ctx)) \<le> unat sz"
    using assms(3) by (simp add: e [symmetric] word_le_nat_alt not_less)
qed

lemma blk_write_fits:
  assumes "case p of None \<Rightarrow> bs = [] | Some (n, _) \<Rightarrow> off + length bs \<le> n"
  shows "blk_write p off bs = Ret (map_option (\<lambda>(n, m). (n, if bs = [] then m else st_bytes m off bs)) p)"
  using assms by (auto simp: blk_write_def split: option.splits)

lemma blk_write_len:
  "blk_write p off bs = Ret p' \<Longrightarrow> map_option fst p' = map_option fst p"
  by (auto simp: blk_write_def split: if_splits option.splits)

lemma malloc_len: "malloc os n = Some (k, m) \<Longrightarrow> k = unat n"
  by (auto simp: malloc_def)

lemma buffer_ok_step:
  assumes "buffer_ok s" "do_action_transfer_escape_data os ctx s = Ret (r, s')"
  shows "buffer_ok s'"
proof -
  let ?m1 = "st 4 (page s) D_tr_chunk_size (transfer_max ctx)"
  consider (size) "ld_int (page s) D_tr_status = status_code status_transfer_size"
    | (data) "ld_int (page s) D_tr_status = status_code status_transfer_data"
    | (other) "ld_int (page s) D_tr_status \<noteq> status_code status_transfer_size"
        "ld_int (page s) D_tr_status \<noteq> status_code status_transfer_data" by blast
  then show ?thesis
  proof cases
    case size
    then show ?thesis
      using assms ld_less [of 4 ?m1 D_tr_total_size]
      by (auto simp: do_action_transfer_escape_data_def Let_def buffer_ok_def malloc_len
          split: if_splits option.splits)
  next
    case data
    let ?t = "min (ld 4 (page s) D_tr_chunk_data_size) (transfer_max ctx)"
    from data assms(2) consider "s' = s"
      | p where "\<not> action_transfer_data_chunk s + ?t > action_transfer_data_size s"
        "map_option fst p = map_option fst (action_transfer_data_ptr s)"
        "s' = s\<lparr>action_transfer_data_ptr := p, action_transfer_data_chunk := action_transfer_data_chunk s + ?t,
           page := st_int (page s) D_tr_status (status_code status_ok)\<rparr>"
      by (auto simp: do_action_transfer_escape_data_def Let_def outcome_simps
          split: if_splits dest: blk_write_len)
    then show ?thesis
    proof cases
      case 1
      with assms(1) show ?thesis by simp
    next
      case (2 p)
      then show ?thesis using assms(1)
        by (cases p; cases "action_transfer_data_ptr s") (auto simp: buffer_ok_def not_less)
    qed
  next
    case other
    then show ?thesis using assms by (simp add: do_action_transfer_escape_data_def Let_def)
  qed
qed

text \<open>What an accepted chunk does to the buffer.\<close>

lemma transfer_chunk_effect:
  assumes "buffer_ok s" "action_transfer_data_ptr s = Some (n, b)"
    and "ld_int (page s) D_tr_status = status_code status_transfer_data"
    and "t = min (ld 4 (page s) D_tr_chunk_data_size) (transfer_max ctx)"
  shows "do_action_transfer_escape_data os ctx s =
    Ret (if unat (action_transfer_data_chunk s) + unat t \<le> n
         then (0, s\<lparr>action_transfer_data_ptr := Some (n, st_bytes b (unat (action_transfer_data_chunk s))
                                                      (ld_bytes (page s) D_tr_chunk_data (unat t))),
                    action_transfer_data_chunk := action_transfer_data_chunk s + t,
                    page := st_int (page s) D_tr_status (status_code status_ok)\<rparr>)
         else (- 1, s))"
proof (cases "action_transfer_data_chunk s + t > action_transfer_data_size s")
  case True
  have "unat t \<le> 12287948"
    using min.cobounded2 [of "ld 4 (page s) D_tr_chunk_data_size" "transfer_max ctx"]
    by (simp add: assms(4) transfer_max_val word_le_nat_alt)
  then have "unat (action_transfer_data_chunk s + t) = unat (action_transfer_data_chunk s) + unat t"
    using assms(1) by (auto simp: buffer_ok_def unat_word_ariths word_le_nat_alt)
  then have "\<not> unat (action_transfer_data_chunk s) + unat t \<le> n"
    using True assms(1,2) by (simp add: buffer_ok_def word_less_nat_alt)
  then show ?thesis using True assms(3,4) by (simp add: do_action_transfer_escape_data_def Let_def)
next
  case False
  have fits: "unat (action_transfer_data_chunk s) + unat t \<le> n"
    using transfer_fits(2) [of "action_transfer_data_size s" "action_transfer_data_chunk s"] False assms(1,2,4)
    by (simp add: buffer_ok_def)
  then have "blk_write (action_transfer_data_ptr s) (unat (action_transfer_data_chunk s))
      (ld_bytes (page s) D_tr_chunk_data (unat t)) = Ret (Some (n, st_bytes b (unat (action_transfer_data_chunk s))
        (ld_bytes (page s) D_tr_chunk_data (unat t))))"
    using assms(2) by (cases "ld_bytes (page s) D_tr_chunk_data (unat t) = []") (simp_all add: blk_write_def st_bytes_Nil)
  then show ?thesis using False fits assms(3,4) by (simp add: do_action_transfer_escape_data_def Let_def)
qed

subsection \<open>Chunk translation\<close>

lemma chunk_at_st:
  "chunk_at (st 8 m (24 * i) v) j = (if j = i then (chunk_at m j)\<lparr>addr := v\<rparr> else chunk_at m j)"
proof (cases "j = i")
  case False
  then have "24 * j + 24 \<le> 24 * i \<or> 24 * i + 24 \<le> 24 * j" by auto
  then show ?thesis using False by (auto simp: chunk_at_def mem_simps)
qed (simp add: chunk_at_def mem_simps)

text \<open>Chunks written to memory one after the other are read back as they were.\<close>

lemma chunk_at_bytes:
  assumes "ld_bytes b 0 (24 * length cs) = concat (map chunk_bytes cs)" "j < length cs"
  shows "chunk_at b j = cs ! j"
proof -
  let ?c = "cs ! j"
  let ?m = "st 8 (st 8 (st 8 (\<lambda>_. 0) 0 (addr ?c)) 8 (offset ?c)) 16 (nbytes ?c)"
  have "b (24 * j + i) = ?m i" if "i < 24" for i
  proof -
    have "24 * j + i < 24 * length cs" using assms(2) that by simp
    then have "b (24 * j + i) = concat (map chunk_bytes cs) ! (24 * j + i)"
      using assms(1) by (metis add_0_left nth_ld_bytes)
    also have "\<dots> = chunk_bytes ?c ! i"
      using concat_nth [of "map chunk_bytes cs" 24 j i] assms(2) that by simp
    finally show ?thesis using that by (simp add: chunk_bytes_def)
  qed
  then have "ld 8 b (24 * j + k) = ld 8 ?m k" if "k + 8 \<le> 24" for k
    using that by (intro ld_cong_shift) (simp add: add.assoc)
  from this [of 0] this [of 8] this [of 16] show ?thesis by (simp add: chunk_at_def mem_simps)
qed

definition translated :: "ctx_struct \<Rightarrow> page_chunk \<Rightarrow> page_chunk" where
  "translated ctx c = c\<lparr>addr := vaddr_of ctx (addr c)\<rparr>"

lemma dma_loop_in_bounds:
  assumes "addr_map_ok ctx" "24 * (i + k) \<le> n"
  shows "\<exists>m'. dma_loop ctx k i (Some (n, m)) =
      Ret (\<forall>j \<in> {i..<i + k}. vaddr_of ctx (addr (chunk_at m j)) \<noteq> 0, Some (n, m'))
    \<and> ((\<forall>j \<in> {i..<i + k}. vaddr_of ctx (addr (chunk_at m j)) \<noteq> 0) \<longrightarrow>
        (\<forall>j. chunk_at m' j = (if j \<in> {i..<i + k} then translated ctx (chunk_at m j) else chunk_at m j)))"
  using assms(2)
proof (induction k arbitrary: i m)
  case 0
  then show ?case by simp
next
  case (Suc k)
  let ?v = "vaddr_of ctx (addr (chunk_at m i))" and ?m = "st 8 m (24 * i) (vaddr_of ctx (addr (chunk_at m i)))"
  have split: "{i..<i + Suc k} = insert i {Suc i..<Suc i + k}" by auto
  have step: "dma_loop ctx (Suc k) i (Some (n, m)) =
      (if ?v = 0 then Ret (False, Some (n, ?m)) else dma_loop ctx k (Suc i) (Some (n, ?m)))"
    using Suc.prems
    by (simp add: blk_ld_def blk_st_def lookup_vaddr_of [OF assms(1)] chunk_at_def
        complain_irrelevant [of ctx _ True] Let_def)
  show ?case
  proof (cases "?v = 0")
    case True
    then show ?thesis unfolding step by auto
  next
    case False
    obtain m' where m': "dma_loop ctx k (Suc i) (Some (n, ?m)) =
        Ret (\<forall>j \<in> {Suc i..<Suc i + k}. vaddr_of ctx (addr (chunk_at ?m j)) \<noteq> 0, Some (n, m'))"
      "(\<forall>j \<in> {Suc i..<Suc i + k}. vaddr_of ctx (addr (chunk_at ?m j)) \<noteq> 0) \<longrightarrow>
        (\<forall>j. chunk_at m' j = (if j \<in> {Suc i..<Suc i + k} then translated ctx (chunk_at ?m j) else chunk_at ?m j))"
      using Suc.IH [of "Suc i" ?m] Suc.prems by auto
    have same: "chunk_at ?m j = chunk_at m j" if "j \<in> {Suc i..<Suc i + k}" for j
      using that by (simp add: chunk_at_st)
    have all: "(\<forall>j \<in> {i..<i + Suc k}. vaddr_of ctx (addr (chunk_at m j)) \<noteq> 0) \<longleftrightarrow>
        (\<forall>j \<in> {Suc i..<Suc i + k}. vaddr_of ctx (addr (chunk_at ?m j)) \<noteq> 0)"
      using False same unfolding split by simp
    have "chunk_at m' j = (if j \<in> {i..<i + Suc k} then translated ctx (chunk_at m j) else chunk_at m j)"
      if "\<forall>j \<in> {Suc i..<Suc i + k}. vaddr_of ctx (addr (chunk_at ?m j)) \<noteq> 0" for j
      using m'(2) that same unfolding split by (cases "j = i") (simp_all add: chunk_at_st translated_def)
    then show ?thesis using m'(1) False unfolding all step by auto
  qed
qed

lemma dma_loop_len: "dma_loop ctx k i p = Ret (b, p') \<Longrightarrow> map_option fst p' = map_option fst p"
proof (induction k arbitrary: i p)
  case (Suc k)
  have len: "map_option fst (blk_st p a v) = map_option fst p" for a v
    by (cases p) (auto simp: blk_st_def)
  from Suc.prems obtain v where "p' = blk_st p (24 * i) v
      \<or> dma_loop ctx k (Suc i) (blk_st p (24 * i) v) = Ret (b, p')"
    by (auto simp only: dma_loop.simps outcome_simps Let_def split: if_splits)
  then show ?case using Suc.IH len by metis
qed simp

lemma dma_loop_overrun:
  assumes "addr_map_ok ctx" "n < 24 * (i + k) - 16" "k > 0"
    and "\<And>j. i \<le> j \<Longrightarrow> 24 * j + 8 \<le> n \<Longrightarrow> vaddr_of ctx (addr (chunk_at m j)) \<noteq> 0"
  shows "dma_loop ctx k i (Some (n, m)) = Ub OutOfBounds"
  using assms(2-)
proof (induction k arbitrary: i m)
  case (Suc k)
  show ?case
  proof (cases "24 * i + 8 \<le> n")
    case True
    then have "k > 0" using Suc.prems(1) by (cases k) auto
    moreover have "vaddr_of ctx (addr (chunk_at (st 8 m (24 * i) v) j)) \<noteq> 0"
      if "Suc i \<le> j" "24 * j + 8 \<le> n" for j v
      using Suc.prems(3) [of j] that by (simp add: chunk_at_st)
    moreover have "vaddr_of ctx (ld 8 m (24 * i)) \<noteq> 0"
      using Suc.prems(3) [of i] True by (simp add: chunk_at_def)
    ultimately show ?thesis using Suc.IH [of "Suc i"] Suc.prems(1) True
      by (simp add: blk_ld_def blk_st_def lookup_vaddr_of [OF assms(1)]
          complain_irrelevant [of ctx _ True])
  qed (simp add: blk_ld_def)
qed simp

subsection \<open>What a request leaves alone\<close>

text \<open>
  \<open>reply_only\<close>: the header is as before and nothing outside the page is written.
\<close>

definition reply_only :: "mem \<Rightarrow> mem \<Rightarrow> bool" where
  "reply_only m m' \<longleftrightarrow> (\<forall>a. a < F_data \<or> unat ESCAPE_PAGE_SIZE \<le> a \<longrightarrow> m' a = m a)"

lemma reply_only_refl [simp]: "reply_only m m"
  by (simp add: reply_only_def)

lemma reply_only_trans: "reply_only m1 m2 \<Longrightarrow> reply_only m2 m3 \<Longrightarrow> reply_only m1 m3"
  by (simp add: reply_only_def)

lemma reply_only_st:
  assumes "32 \<le> a" "a + n \<le> 12288000"
  shows "reply_only m' (st n m' a v)"
  using assms by (auto simp: reply_only_def page_size_val st_def)

lemma reply_only_stores:
  "32 \<le> a \<Longrightarrow> a + n \<le> 12288000 \<Longrightarrow> reply_only m m' \<Longrightarrow> reply_only m (st n m' a w)"
  "32 \<le> a \<Longrightarrow> a + 4 \<le> 12288000 \<Longrightarrow> reply_only m m' \<Longrightarrow> reply_only m (st_int m' a v)"
  "32 \<le> a \<Longrightarrow> a + 8 \<le> 12288000 \<Longrightarrow> reply_only m m' \<Longrightarrow> reply_only m (st_long m' a v)"
  unfolding st_int_def st_long_def by (blast intro: reply_only_trans reply_only_st)+

lemma reply_only_ret: "reply_only m m' \<Longrightarrow> reply_only m (set_ret_and_err_no m' r e)"
  by (simp add: set_ret_and_err_no_def reply_only_stores)

lemma reply_only_ld: "reply_only m m' \<Longrightarrow> a + n \<le> 32 \<Longrightarrow> ld n m' a = ld n m a"
  by (rule ld_cong) (simp add: reply_only_def)

text \<open>Every part of the handler keeps the invariant of the buffer and only writes a reply.\<close>

definition keeps :: "host_state \<Rightarrow> host_state \<Rightarrow> bool" where
  "keeps s s' \<longleftrightarrow> (buffer_ok s \<longrightarrow> buffer_ok s') \<and> reply_only (page s) (page s')"

lemma keeps_call: "call os c s = (ret, errno, s') \<Longrightarrow> keeps s s' \<and> page s' = page s \<and> issued s' = issued s @ [c]"
  by (auto simp: call_def keeps_def split: prod.splits)

lemma keeps_transfer: "do_action_transfer_escape_data os ctx s = Ret (r, s') \<Longrightarrow> keeps s s'"
  unfolding keeps_def
proof (intro conjI impI)
  show "buffer_ok s \<Longrightarrow> do_action_transfer_escape_data os ctx s = Ret (r, s') \<Longrightarrow> buffer_ok s'"
    by (rule buffer_ok_step)
  show "do_action_transfer_escape_data os ctx s = Ret (r, s') \<Longrightarrow> reply_only (page s) (page s')"
    by (auto simp: do_action_transfer_escape_data_def Let_def outcome_simps intro!: reply_only_stores
        split: if_splits)
qed

lemma keeps_dma:
  assumes "do_dma os pid ctx s e = Ret (r, s')"
  shows "keeps s s'"
  using assms
  by (auto simp: do_dma_def Let_def outcome_simps keeps_def do_action_transfer_escape_data_free_def
      buffer_ok_def call_def intro!: reply_only_ret split: if_splits prod.splits)

lemma empty_loop_reply:
  "empty_loop ctx hi mx pfn i m = Ret (pfn', i', m') \<Longrightarrow> reply_only m m'"
proof (induction ctx hi mx pfn i m rule: empty_loop.induct)
  case (1 ctx hi mx pfn i m)
  show ?case
  proof (cases "pfn < hi \<and> i < mx")
    case True
    then obtain v where v: "get_addr_map_vaddr_verify ctx pfn False = Ret v"
      using "1.prems" by (subst (asm) empty_loop.simps) (auto simp: outcome_simps)
    show ?thesis
    proof (cases "v = 0")
      case v0: True
      then have b: "68 + 8 * unat i + 8 \<le> unat ESCAPE_PAGE_SIZE"
        and r: "empty_loop ctx hi mx (pfn + 1) (i + 1) (st 8 m (68 + 8 * unat i) pfn) = Ret (pfn', i', m')"
        using True v "1.prems" by (subst (asm) empty_loop.simps; simp split: if_splits)+
      have "reply_only m (st 8 m (68 + 8 * unat i) pfn)"
        using b by (intro reply_only_st) (simp_all add: page_size_val)
      moreover have "reply_only (st 8 m (68 + 8 * unat i) pfn) m'"
        using "1.IH"(1) [OF True _ v0] b v r by simp
      ultimately show ?thesis by (rule reply_only_trans)
    next
      case False
      then have "empty_loop ctx hi mx (pfn + 1) i m = Ret (pfn', i', m')"
        using True v "1.prems" by (subst (asm) empty_loop.simps) simp
      then show ?thesis using "1.IH"(2) [OF True _ False] v by simp
    qed
  next
    case False
    then show ?thesis using "1.prems" by (subst (asm) empty_loop.simps) auto
  qed
qed

lemma empty_mappings_reply: "get_empty_mappings ctx m = Ret m' \<Longrightarrow> reply_only m m'"
  by (auto simp: get_empty_mappings_def Let_def outcome_simps set_ret_and_err_no_direct_def
      get_addr_map_dims_def intro!: reply_only_stores dest: empty_loop_reply)

lemma keeps_mmap: "do_mmap os pid ctx s = Ret (ok, s') \<Longrightarrow> keeps s s'"
  by (auto simp: do_mmap_def Let_def outcome_simps keeps_def call_def intro!: reply_only_ret
      split: option.splits prod.splits)

lemma keeps_unmap: "do_unmap os pid ctx s = Ret (r, s') \<Longrightarrow> keeps s s'"
  by (auto simp: do_unmap_def Let_def outcome_simps keeps_def call_def intro!: reply_only_ret
      split: option.splits prod.splits)

lemma keeps_trans: "keeps s1 s2 \<Longrightarrow> keeps s2 s3 \<Longrightarrow> keeps s1 s3"
  by (auto simp: keeps_def intro: reply_only_trans)

lemma keeps_page: "reply_only (page s) m \<Longrightarrow> keeps s (s\<lparr>page := m\<rparr>)"
  by (simp add: keeps_def)

lemma keeps_refl [simp]: "keeps s s"
  by (simp add: keeps_def)

text \<open>A served request ends by handing the page over, or returns an error early.\<close>

definition serves :: "host_state \<Rightarrow> (int \<times> host_state) outcome \<Rightarrow> bool" where
  "serves s out \<longleftrightarrow> (case out of Ub _ \<Rightarrow> True
     | Ret r \<Rightarrow> \<exists>s1. keeps s s1 \<and> (r = hand_over s1 \<or> fst r < 0 \<and> snd r = s1))"

lemma serves_hand_over: "keeps s s1 \<Longrightarrow> serves s (Ret (hand_over s1))"
  by (auto simp: serves_def)

lemma serves_bind:
  assumes "\<And>x. out = Ret x \<Longrightarrow> serves s (f x)"
  shows "serves s (obind out f)"
  using assms by (cases out) (auto simp: serves_def)

lemma serves_or_return: "(\<And>r s'. out = Ret (r, s') \<Longrightarrow> keeps s s') \<Longrightarrow> serves s (obind out (\<lambda>r. Ret (or_return r)))"
  by (intro serves_bind) (force simp: serves_def or_return_def)

lemma keeps_call_ret:
  "call os c s = (ret, errno, s1) \<Longrightarrow> reply_only (page s) m \<Longrightarrow> keeps s (s1\<lparr>page := set_ret_and_err_no m ret e\<rparr>)"
  using keeps_call [of os c s ret errno s1] by (simp add: keeps_def reply_only_ret)

lemma serves_unmap:
  "serves s (obind (do_unmap os pid ctx s) (\<lambda>(r, s1). case r of None \<Rightarrow> Ret (- 1, s1)
     | Some errno \<Rightarrow> obind (do_dma os pid ctx s1 errno) (\<lambda>r. Ret (or_return r))))"
proof (rule serves_bind, clarify, rule option.split [THEN iffD2], intro conjI impI allI)
  fix r s1
  assume u: "do_unmap os pid ctx s = Ret (r, s1)"
  then show "serves s (Ret (- 1, s1))" by (auto simp: serves_def dest: keeps_unmap)
  show "serves s (obind (do_dma os pid ctx s1 errno) (\<lambda>r. Ret (or_return r)))" for errno
    using keeps_trans [OF keeps_unmap [OF u] keeps_dma] by (rule serves_or_return)
qed

lemma serves_mmap:
  "serves s (obind (do_mmap os pid ctx s) (\<lambda>(ok, s1). Ret (if ok then hand_over s1 else (- 1, s1))))"
  by (rule serves_bind) (auto simp: serves_def dest!: keeps_mmap)

lemma serves_open:
  "serves s (obind (cstr (page s) D_device sizeof_device) (\<lambda>path.
     let (fd, errno, s1) = call os (SysOpen path (ld 4 (page s) D_flags)) s
     in Ret (hand_over (s1\<lparr>page := set_ret_and_err_no (st_int (page s) D_fd fd) fd errno\<rparr>))))"
  by (auto simp: Let_def intro!: serves_bind serves_hand_over keeps_call_ret reply_only_stores split: prod.split)

lemma serves_close:
  "serves s (let (ret, errno, s1) = call os (SysClose (ld_int (page s) D_fd)) s
     in Ret (hand_over (s1\<lparr>page := set_ret_and_err_no (page s) ret errno\<rparr>)))"
  by (auto simp: Let_def intro!: serves_hand_over keeps_call_ret split: prod.split)

lemma serves_empty:
  "serves s (obind (get_empty_mappings ctx (page s)) (\<lambda>m'. Ret (hand_over (s\<lparr>page := m'\<rparr>))))"
  by (auto intro!: serves_bind serves_hand_over keeps_page intro: empty_mappings_reply)

lemma serves_verify:
  "serves s (obind (get_addr_map_vaddr_verify ctx (ld 8 (page s) D_verify_pfn) False) (\<lambda>vaddr.
     Ret (hand_over (s\<lparr>page := st 4 (page s) D_verify_status
       (verify_code (if vaddr \<noteq> 0 then action_verify_mappping_success else action_verify_mappping_fail))\<rparr>))))"
  by (intro serves_bind serves_hand_over keeps_page) (simp add: reply_only_stores)

lemma serves_ping: "serves s (Ret (hand_over (s\<lparr>page := st 4 (page s) D_ping v\<rparr>)))"
  by (intro serves_hand_over keeps_page) (simp add: reply_only_stores)

lemmas serves_parts = serves_hand_over [OF keeps_refl] serves_mmap serves_open serves_close serves_empty
  serves_verify serves_ping serves_unmap serves_or_return [OF keeps_dma] serves_or_return [OF keeps_transfer]

lemma on_fault_serves:
  assumes "ld 8 (page s) F_turn = turn_code FH_TURN_HOST"
  shows "serves s (on_fault os pid ctx e s)"
proof (cases "action_of (ld 8 (page s) F_action)")
  case None
  then show ?thesis by (simp only: on_fault_def Let_def assms if_False option.case simp_thms serves_parts)
next
  case (Some a)
  then show ?thesis using assms
    by (cases a; simp only: on_fault_def Let_def Some if_False option.case fh_action.case simp_thms
        serves_parts serves_parts [unfolded Let_def])
qed

lemma on_fault_shape:
  assumes "ld 8 (page s) F_turn = turn_code FH_TURN_HOST" "on_fault os pid ctx e s = Ret (r, s')"
  shows "\<exists>s1. keeps s s1 \<and> ((r, s') = hand_over s1 \<or> r < 0 \<and> s' = s1)"
  using on_fault_serves [OF assms(1), of os pid ctx e] assms(2) by (auto simp: serves_def)

text \<open>The handler for each action.\<close>

lemma on_fault_actions:
  assumes "ld 8 (page s) F_turn = turn_code FH_TURN_HOST"
  shows on_fault_setup: "ld 8 (page s) F_action = action_code FH_ACTION_SETUP \<Longrightarrow>
      on_fault os pid ctx e s = Ret (hand_over s)"
    and on_fault_teardown: "ld 8 (page s) F_action = action_code FH_ACTION_TEARDOWN \<Longrightarrow>
      on_fault os pid ctx e s = Ret (hand_over s)"
    and on_fault_empty: "ld 8 (page s) F_action = action_code FH_ACTION_GET_EMPTY_MAPPINGS \<Longrightarrow>
      on_fault os pid ctx e s =
        obind (get_empty_mappings ctx (page s)) (\<lambda>m'. Ret (hand_over (s\<lparr>page := m'\<rparr>)))"
    and on_fault_mmap_eq: "ld 8 (page s) F_action = action_code FH_ACTION_MMAP \<Longrightarrow>
      on_fault os pid ctx e s =
        obind (do_mmap os pid ctx s) (\<lambda>(ok, s1). Ret (if ok then hand_over s1 else (- 1, s1)))"
    and on_fault_unmap_eq: "ld 8 (page s) F_action = action_code FH_ACTION_UNMAP \<Longrightarrow>
      on_fault os pid ctx e s = obind (do_unmap os pid ctx s) (\<lambda>(r, s1).
        case r of None \<Rightarrow> Ret (- 1, s1)
        | Some errno \<Rightarrow> obind (do_dma os pid ctx s1 errno) (\<lambda>r. Ret (or_return r)))"
    and on_fault_dma: "ld 8 (page s) F_action = action_code FH_ACTION_DMA \<Longrightarrow>
      on_fault os pid ctx e s = obind (do_dma os pid ctx s e) (\<lambda>r. Ret (or_return r))"
    and on_fault_transfer: "ld 8 (page s) F_action = action_code FH_ACTION_TRANSFER_ESCAPE_DATA \<Longrightarrow>
      on_fault os pid ctx e s =
        obind (do_action_transfer_escape_data os ctx s) (\<lambda>r. Ret (or_return r))"
  using assms
  by (simp_all only: on_fault_def Let_def action_of_code option.case fh_action.case simp_thms if_False)

lemma do_dma_effect:
  assumes "addr_map_ok ctx" "action_transfer_data_info_ctx s = action_code FH_ACTION_DMA"
    and "action_transfer_data_ptr s = Some (n, b)"
    and "pages_nr = ld 8 (page s) D_dma_pages_nr" "24 * unat pages_nr \<le> n"
    and "cs = map (chunk_at b) [0..<unat pages_nr]"
    and "dma = \<lparr>dma_pid = pid, dma_phy_addr = ld 8 (page s) D_dma_phy_addr,
      dma_do_write = ld_int (page s) D_dma_do_write, dma_do_aperture = ld_int (page s) D_dma_do_aperture,
      dma_user_buf = ld 8 (page s) D_dma_user_buf, dma_len = ld 8 (page s) D_dma_len,
      dma_chunks_nr = pages_nr, dma_chunks = map (translated ctx) cs\<rparr>"
    and "sys_call os (issued s) (IocDma (ld_int (page s) D_fd) dma) = (ret, errno)"
  shows "do_dma os pid ctx s e =
    Ret (if \<forall>c \<in> set cs. vaddr_of ctx (addr c) \<noteq> 0
         then (ret, do_action_transfer_escape_data_free
                (s\<lparr>issued := issued s @ [IocDma (ld_int (page s) D_fd) dma],
                   page := set_ret_and_err_no (page s) ret errno\<rparr>))
         else (- 1, do_action_transfer_escape_data_free (s\<lparr>page := set_ret_and_err_no (page s) (- 1) e\<rparr>)))"
proof -
  let ?k = "unat pages_nr"
  let ?all = "\<forall>j \<in> {0..<?k}. vaddr_of ctx (addr (chunk_at b j)) \<noteq> 0"
  obtain m' where m': "dma_loop ctx ?k 0 (Some (n, b)) = Ret (?all, Some (n, m'))"
    "?all \<longrightarrow> (\<forall>j. chunk_at m' j = (if j \<in> {0..<?k} then translated ctx (chunk_at b j) else chunk_at b j))"
    using dma_loop_in_bounds [OF assms(1), of 0 ?k n b] assms(5) by auto
  have all: "(\<forall>c \<in> set cs. vaddr_of ctx (addr c) \<noteq> 0) = ?all" by (simp add: assms(6))
  show ?thesis
  proof (cases ?all)
    case True
    then have "chunks_of (Some (n, m')) ?k = map (translated ctx) cs"
      using m'(2) by (simp add: chunks_of_def assms(6))
    then show ?thesis using True m'(1) assms(8) unfolding all
      by (simp add: do_dma_def assms(2,3,4,7) Let_def call_def do_action_transfer_escape_data_free_def)
  next
    case False
    then have none: "?all = False" by blast
    show ?thesis using m'(1) unfolding all none
      by (simp add: do_dma_def assms(2,3,4) Let_def do_action_transfer_escape_data_free_def)
  qed
qed

subsection \<open>Properties of the handler\<close>


text \<open>A fault that is not a request. When it is not the host's turn the handler changes
  nothing and returns 0.\<close>

theorem on_fault_spurious:
  assumes "ld 8 (page s) F_turn \<noteq> turn_code FH_TURN_HOST"
  shows "on_fault os pid ctx e s = Ret (0, s)"
  using assms by (simp add: on_fault_def)

text \<open>C4: The transfer buffer is never overrun. With the invariant of the buffer, a transfer
  request, whatever sizes the guest writes, either returns or dereferences the null pointer that
  a failed allocation leaves behind together with a non-zero size.\<close>

theorem transfer_never_overruns:
  assumes "buffer_ok s"
  shows "(\<exists>r s'. do_action_transfer_escape_data os ctx s = Ret (r, s'))
    \<or> do_action_transfer_escape_data os ctx s = Ub NullDeref
      \<and> action_transfer_data_ptr s = None \<and> 0 < action_transfer_data_size s"
proof (cases "ld_int (page s) D_tr_status = status_code status_transfer_data")
  case True
  let ?t = "min (ld 4 (page s) D_tr_chunk_data_size) (transfer_max ctx)"
  show ?thesis
  proof (cases "action_transfer_data_ptr s")
    case None
    show ?thesis
    proof (cases "action_transfer_data_chunk s + ?t > action_transfer_data_size s \<or> ?t = 0")
      case True
      with \<open>ld_int (page s) D_tr_status = status_code status_transfer_data\<close> show ?thesis
        by (auto simp: do_action_transfer_escape_data_def Let_def blk_write_def)
    next
      case False
      then have "unat (action_transfer_data_chunk s) + unat ?t \<le> unat (action_transfer_data_size s)"
        using assms by (intro transfer_fits(2)) (simp_all add: buffer_ok_def)
      moreover have "unat ?t \<noteq> 0" using False by (simp add: unat_eq_0)
      ultimately have "0 < action_transfer_data_size s" "ld_bytes (page s) D_tr_chunk_data (unat ?t) \<noteq> []"
        by (auto simp: word_less_nat_alt simp flip: length_0_conv)
      with True False None show ?thesis
        by (auto simp: do_action_transfer_escape_data_def Let_def blk_write_def)
    qed
  next
    case (Some b)
    then show ?thesis using transfer_chunk_effect [OF assms _ True refl] by (cases b) auto
  qed
qed (auto simp: do_action_transfer_escape_data_def Let_def)

text \<open>C5: DMA requests are translated frame by frame. When the transferred data holds the chunks
  the guest announces, the handler passes one request to the device driver in which the frame
  of every chunk is replaced by the simulator's address of that frame, with offset, length and
  order kept, and reports the driver's value; when one frame has no mapping no request is
  issued and the answer is an error. The transfer buffer is released in both cases.\<close>

theorem do_dma_translates:
  assumes "addr_map_ok ctx" "action_transfer_data_info_ctx s = action_code FH_ACTION_DMA"
    and "action_transfer_data_ptr s = Some (n, b)"
    and "pages_nr = ld 8 (page s) D_dma_pages_nr" "24 * unat pages_nr \<le> n"
    and "cs = map (chunk_at b) [0..<unat pages_nr]"
    and "dma = \<lparr>dma_pid = pid, dma_phy_addr = ld 8 (page s) D_dma_phy_addr,
      dma_do_write = ld_int (page s) D_dma_do_write, dma_do_aperture = ld_int (page s) D_dma_do_aperture,
      dma_user_buf = ld 8 (page s) D_dma_user_buf, dma_len = ld 8 (page s) D_dma_len,
      dma_chunks_nr = pages_nr, dma_chunks = map (translated ctx) cs\<rparr>"
    and "sys_call os (issued s) (IocDma (ld_int (page s) D_fd) dma) = (ret, errno)"
  shows "\<exists>s'. do_dma os pid ctx s e =
      Ret (if \<forall>c \<in> set cs. vaddr_of ctx (addr c) \<noteq> 0 then ret else - 1, s')
    \<and> issued s' = (if \<forall>c \<in> set cs. vaddr_of ctx (addr c) \<noteq> 0
                   then issued s @ [IocDma (ld_int (page s) D_fd) dma] else issued s)
    \<and> action_transfer_data_ptr s' = None \<and> action_transfer_data_info_ctx s' = 0"
  using do_dma_effect [OF assms] by (auto simp: do_action_transfer_escape_data_free_def)

text \<open>The number of chunks is not checked against the transferred data. When the guest
  announces more chunks than it transferred and every transferred frame is mapped, the
  translation loop runs past the end of the buffer.\<close>

theorem do_dma_length_unchecked:
  assumes "addr_map_ok ctx" "action_transfer_data_info_ctx s = action_code FH_ACTION_DMA"
    and "action_transfer_data_ptr s = Some (n, b)"
    and "n + 16 < 24 * unat (ld 8 (page s) D_dma_pages_nr)"
    and "\<And>j. 24 * j + 8 \<le> n \<Longrightarrow> vaddr_of ctx (addr (chunk_at b j)) \<noteq> 0"
  shows "do_dma os pid ctx s e = Ub OutOfBounds"
proof -
  have "unat (ld 8 (page s) D_dma_pages_nr) > 0" using assms(4) by simp
  then have "dma_loop ctx (unat (ld 8 (page s) D_dma_pages_nr)) 0 (Some (n, b)) = Ub OutOfBounds"
    using assms(4,5) by (intro dma_loop_overrun [OF assms(1)]) auto
  then show ?thesis by (simp add: do_dma_def assms(2,3) Let_def)
qed

lemma translate_pfns_ok:
  assumes "addr_map_ok ctx" "base + 8 * n \<le> unat ESCAPE_PAGE_SIZE" "8 * n \<le> blk"
  shows "translate_pfns ctx m base blk n = Ret (map (\<lambda>i. vaddr_of ctx (ld 8 m (base + 8 * i))) [0..<n])"
proof -
  have "ofold (\<lambda>i xs. if base + 8 * i + 8 \<le> unat ESCAPE_PAGE_SIZE \<and> 8 * i + 8 \<le> blk
        then obind (get_addr_map_vaddr ctx (ld 8 m (base + 8 * i))) (\<lambda>v. Ret (xs @ [v]))
        else Ub OutOfBounds) is xs = Ret (xs @ map (\<lambda>i. vaddr_of ctx (ld 8 m (base + 8 * i))) is)"
    if "\<forall>i \<in> set is. i < n" for "is" xs
    using that
  proof (induction "is" arbitrary: xs)
    case (Cons i "is")
    then have "base + 8 * i + 8 \<le> unat ESCAPE_PAGE_SIZE" "8 * i + 8 \<le> blk" using assms(2,3) by auto
    then show ?case using Cons by (simp add: get_vaddr_lookup lookup_vaddr_of [OF assms(1)])
  qed simp
  then show ?thesis by (simp add: translate_pfns_def)
qed

lemma frames_fit:
  assumes "base + 8 * unat k \<le> unat ESCAPE_PAGE_SIZE" "base \<ge> 0"
  shows "unat (k * 8 :: u64) = 8 * unat k"
  using assms by (simp add: page_size_val unat_word_ariths)

text \<open>A mapping request of the guest reaches the device driver with the simulator's address of
  every frame, and the guest gets the driver's value.\<close>

theorem on_fault_mmap:
  assumes "addr_map_ok ctx" "ld 8 (page s) F_turn = turn_code FH_TURN_HOST"
    and "ld 8 (page s) F_action = action_code FH_ACTION_MMAP" "k = ld 8 (page s) D_mmap_pfn_size"
    and "D_mmap_pfn + 8 * unat k \<le> unat ESCAPE_PAGE_SIZE" "sys_malloc os (k * 8) \<noteq> None"
    and "ioc = \<lparr>ioc_pid = pid, ioc_vm_pgoff = ld 8 (page s) D_mmap_vm_pgoff,
      ioc_vm_flags = ld 8 (page s) D_mmap_vm_flags, ioc_vm_page_prot = ld 8 (page s) D_mmap_vm_page_prot,
      ioc_addr_size = k,
      ioc_addr = map (\<lambda>i. vaddr_of ctx (ld 8 (page s) (D_mmap_pfn + 8 * i))) [0..<unat k]\<rparr>"
    and "sys_call os (issued s) (IocMmap (ld_int (page s) D_fd) ioc) = (ret, errno)"
    and "- (2 ^ 31) \<le> ret" "ret < 2 ^ 31"
  shows "\<exists>s'. on_fault os pid ctx e s = Ret (0, s')
    \<and> issued s' = issued s @ [IocMmap (ld_int (page s) D_fd) ioc]
    \<and> ld_long (page s') D_ret = ret \<and> ld 8 (page s') F_turn = turn_code FH_TURN_GUEST"
proof -
  obtain m where "malloc os (k * 8) = Some (8 * unat k, m)"
    using assms(6) frames_fit [OF assms(5)] by (auto simp: malloc_def)
  then have "do_mmap os pid ctx s = Ret (True, s\<lparr>issued := issued s @ [IocMmap (ld_int (page s) D_fd) ioc],
      page := set_ret_and_err_no (page s) ret errno\<rparr>)"
    using translate_pfns_ok [OF assms(1) assms(5) order_refl] assms(8)
    by (simp add: do_mmap_def Let_def assms(4) [symmetric, simplified] assms(7) call_def)
  then show ?thesis using assms(9,10)
    by (simp add: on_fault_mmap_eq [OF assms(2,3)] hand_over_def set_ret_and_err_no_def mem_simps)
qed

text \<open>An unmap request never succeeds for the guest. The case of \<open>FH_ACTION_UNMAP\<close> has no
  \<open>break\<close>: after the driver was told to unmap, the handler goes on with a DMA request, fails for
  want of transferred data, and returns an error without handing the turn back.\<close>

theorem unmap_falls_through:
  assumes "addr_map_ok ctx" "ld 8 (page s) F_turn = turn_code FH_TURN_HOST"
    and "ld 8 (page s) F_action = action_code FH_ACTION_UNMAP" "k = ld 8 (page s) D_unmap_pfn_size"
    and "D_unmap_pfn + 8 * unat k \<le> unat ESCAPE_PAGE_SIZE" "sys_malloc os (k * 8) \<noteq> None"
    and "action_transfer_data_info_ctx s \<noteq> action_code FH_ACTION_DMA"
  shows "\<exists>s' ioc. on_fault os pid ctx e s = Ret (- 1, s')
    \<and> issued s' = issued s @ [IocUnmmap (ld_int (page s) D_fd) ioc]
    \<and> iou_addr ioc = map (\<lambda>i. vaddr_of ctx (ld 8 (page s) (D_unmap_pfn + 8 * i))) [0..<unat k]
    \<and> ld 8 (page s') F_turn = turn_code FH_TURN_HOST \<and> ld_long (page s') D_ret = - 1"
proof -
  let ?ioc = "\<lparr>iou_pid = pid, iou_addr_size = k,
    iou_addr = map (\<lambda>i. vaddr_of ctx (ld 8 (page s) (D_unmap_pfn + 8 * i))) [0..<unat k]\<rparr>"
  obtain ret errno where sc: "sys_call os (issued s) (IocUnmmap (ld_int (page s) D_fd) ?ioc) = (ret, errno)"
    by fastforce
  obtain m where "malloc os (k * 8) = Some (8 * unat k, m)"
    using assms(6) frames_fit [OF assms(5)] by (auto simp: malloc_def)
  then have "do_unmap os pid ctx s = Ret (Some errno, s\<lparr>issued := issued s @ [IocUnmmap (ld_int (page s) D_fd) ?ioc],
      page := set_ret_and_err_no (page s) ret errno\<rparr>)"
    using translate_pfns_ok [OF assms(1) assms(5) order_refl] sc
    by (simp add: do_unmap_def Let_def assms(4) [symmetric, simplified] call_def)
  then show ?thesis using assms(2,7)
    by (simp add: on_fault_unmap_eq [OF assms(2,3)] do_dma_def or_return_def set_ret_and_err_no_def mem_simps)
qed

subsection \<open>Witnesses\<close>

text \<open>A host with the frames 5 and 7 mapped that has received one chunk, for frame 5.\<close>

definition demo_os :: host_os where
  "demo_os = \<lparr>sys_malloc = (\<lambda>_. Some (\<lambda>_. 0)), sys_call = (\<lambda>_ c. case c of IocDma _ d \<Rightarrow> (sint (dma_len d), 0) | _ \<Rightarrow> (0, 0))\<rparr>"

definition demo_buffer :: mem where
  "demo_buffer = st 8 (st 8 (st 8 (\<lambda>_. 0) 0 5) 8 16) 16 100"

definition demo_page :: "fh_action \<Rightarrow> mem" where
  "demo_page a = st 8 (st 8 (\<lambda>_. 0) F_turn (turn_code FH_TURN_HOST)) F_action (action_code a)"

definition demo_host :: "mem \<Rightarrow> host_state" where
  "demo_host m = \<lparr>page = m, action_transfer_data_ptr = Some (24, demo_buffer), action_transfer_data_size = 24,
     action_transfer_data_info_ctx = action_code FH_ACTION_DMA, action_transfer_data_chunk = 24, issued = []\<rparr>"

lemma demo_page_header:
  "ld 8 (demo_page a) F_turn = turn_code FH_TURN_HOST" "ld 8 (demo_page a) F_action = action_code a"
  by (simp_all add: demo_page_def mem_simps)

lemma demo_chunk: "chunk_at demo_buffer 0 = \<lparr>addr = 5, offset = 16, nbytes = 100\<rparr>"
  by (simp add: chunk_at_def demo_buffer_def mem_simps)

lemma demo_buffer_ok: "buffer_ok (demo_host m)"
  by (simp add: buffer_ok_def demo_host_def)

text \<open>A DMA request for \<open>n\<close> chunks of 100 bytes.\<close>

definition demo_dma_page :: "u64 \<Rightarrow> mem" where
  "demo_dma_page n = st 8 (st 8 (demo_page FH_ACTION_DMA) D_dma_len 100) D_dma_pages_nr n"

lemma demo_dma_fields:
  "ld 8 (demo_dma_page n) D_dma_pages_nr = n" "ld 8 (demo_dma_page n) D_dma_len = 100"
  "ld_int (demo_dma_page n) D_fd = 0"
  "ld 8 (demo_dma_page n) F_turn = turn_code FH_TURN_HOST"
  "ld 8 (demo_dma_page n) F_action = action_code FH_ACTION_DMA"
  by (simp_all add: demo_dma_page_def demo_page_def ld_int_def mem_simps)

lemma demo_host_sel [simp]:
  "page (demo_host m) = m" "issued (demo_host m) = []"
  "action_transfer_data_ptr (demo_host m) = Some (24, demo_buffer)"
  "action_transfer_data_info_ctx (demo_host m) = action_code FH_ACTION_DMA"
  by (simp_all add: demo_host_def)

theorem do_dma_translates_witness:
  "\<exists>s' dma. do_dma demo_os 77 demo_table (demo_host (demo_dma_page 1)) 0 = Ret (100, s')
    \<and> issued s' = [IocDma 0 dma] \<and> dma_chunks dma = [\<lparr>addr = 0x10000, offset = 16, nbytes = 100\<rparr>]
    \<and> action_transfer_data_ptr s' = None"
proof -
  let ?m = "demo_dma_page 1"
  define dma where "dma = \<lparr>dma_pid = 77, dma_phy_addr = ld 8 ?m D_dma_phy_addr,
      dma_do_write = ld_int ?m D_dma_do_write, dma_do_aperture = ld_int ?m D_dma_do_aperture,
      dma_user_buf = ld 8 ?m D_dma_user_buf, dma_len = ld 8 ?m D_dma_len,
      dma_chunks_nr = 1, dma_chunks = map (translated demo_table) (map (chunk_at demo_buffer) [0..<1])\<rparr>"
  have "sys_call demo_os [] (IocDma 0 dma) = (100, 0)"
    unfolding dma_def demo_dma_fields by (simp add: demo_os_def)
  then show ?thesis
    using do_dma_translates [OF demo_table_ok, of "demo_host ?m" 24 demo_buffer 1
        "map (chunk_at demo_buffer) [0..<1]" dma 77 demo_os 100 0 0]
    unfolding demo_host_sel demo_dma_fields
    by (auto simp: dma_def demo_chunk demo_vaddr translated_def demo_dma_fields [simplified])
qed

theorem do_dma_length_unchecked_witness:
  "do_dma demo_os 77 demo_table (demo_host (demo_dma_page 2)) 0 = Ub OutOfBounds"
proof -
  have "vaddr_of demo_table (addr (chunk_at demo_buffer j)) \<noteq> 0" if "24 * j + 8 \<le> 24" for j
    using that by (cases j) (simp_all add: demo_chunk demo_vaddr)
  then show ?thesis
    using do_dma_length_unchecked [OF demo_table_ok, of "demo_host (demo_dma_page 2)" 24 demo_buffer demo_os 77 0]
    unfolding demo_host_sel demo_dma_fields by simp
qed

theorem on_fault_spurious_witness:
  "on_fault demo_os 77 demo_table 0 (demo_host (\<lambda>_. 0)) = Ret (0, demo_host (\<lambda>_. 0))"
  by (rule on_fault_spurious) simp

theorem transfer_never_overruns_witness:
  "\<exists>r s'. do_action_transfer_escape_data demo_os demo_table (demo_host (\<lambda>_. 0xFF)) = Ret (r, s')"
  using transfer_never_overruns [OF demo_buffer_ok, of demo_os demo_table] by simp


text \<open>A request to map two pages, of the frames 5 and 7, and one to unmap them.\<close>

definition demo_mmap_page :: mem where
  "demo_mmap_page = st 8 (st 8 (st 8 (demo_page FH_ACTION_MMAP) D_mmap_pfn_size 2) D_mmap_pfn 5) (D_mmap_pfn + 8) 7"

definition demo_unmap_page :: mem where
  "demo_unmap_page = st 8 (st 8 (st 8 (demo_page FH_ACTION_UNMAP) D_unmap_pfn_size 2) D_unmap_pfn 5) (D_unmap_pfn + 8) 7"

lemma demo_mmap_fields:
  "ld 8 demo_mmap_page F_turn = turn_code FH_TURN_HOST"
  "ld 8 demo_mmap_page F_action = action_code FH_ACTION_MMAP"
  "ld 8 demo_mmap_page D_mmap_pfn_size = 2" "ld_int demo_mmap_page D_fd = 0"
  "map (\<lambda>i. vaddr_of demo_table (ld 8 demo_mmap_page (D_mmap_pfn + 8 * i))) [0..<2] = [0x10000, 0x12000]"
  by (simp_all add: demo_mmap_page_def demo_page_def ld_int_def mem_simps demo_vaddr upt_rec
      vaddr_of_def demo_table_lookup)

lemma demo_unmap_fields:
  "ld 8 demo_unmap_page F_turn = turn_code FH_TURN_HOST"
  "ld 8 demo_unmap_page F_action = action_code FH_ACTION_UNMAP"
  "ld 8 demo_unmap_page D_unmap_pfn_size = 2" "ld_int demo_unmap_page D_fd = 0"
  "map (\<lambda>i. vaddr_of demo_table (ld 8 demo_unmap_page (D_unmap_pfn + 8 * i))) [0..<2] = [0x10000, 0x12000]"
  by (simp_all add: demo_unmap_page_def demo_page_def ld_int_def mem_simps demo_vaddr upt_rec
      vaddr_of_def demo_table_lookup)

theorem on_fault_mmap_witness:
  "\<exists>s' ioc. on_fault demo_os 77 demo_table 0 (demo_host demo_mmap_page) = Ret (0, s')
    \<and> issued s' = [IocMmap 0 ioc] \<and> ioc_addr ioc = [0x10000, 0x12000] \<and> ld_long (page s') D_ret = 0"
proof -
  let ?m = demo_mmap_page
  define ioc where "ioc = \<lparr>ioc_pid = 77, ioc_vm_pgoff = ld 8 ?m D_mmap_vm_pgoff,
      ioc_vm_flags = ld 8 ?m D_mmap_vm_flags, ioc_vm_page_prot = ld 8 ?m D_mmap_vm_page_prot,
      ioc_addr_size = 2, ioc_addr = map (\<lambda>i. vaddr_of demo_table (ld 8 ?m (D_mmap_pfn + 8 * i))) [0..<unat (2 :: u64)]\<rparr>"
  have "ioc_addr ioc = [0x10000, 0x12000]"
    using demo_mmap_fields(5) by (simp add: ioc_def)
  moreover have "sys_call demo_os [] (IocMmap 0 ioc) = (0, 0)" by (simp add: demo_os_def)
  moreover have "sys_malloc demo_os (2 * 8) \<noteq> None" by (simp add: demo_os_def)
  ultimately show ?thesis
    using on_fault_mmap [OF demo_table_ok, of "demo_host ?m" 2 demo_os ioc 77 0 0 0]
    unfolding demo_host_sel demo_mmap_fields ioc_def [symmetric] by (auto simp: page_size_val)
qed

theorem unmap_falls_through_witness:
  "\<exists>s' ioc. on_fault demo_os 77 demo_table 0 (do_action_transfer_escape_data_free (demo_host demo_unmap_page)) = Ret (- 1, s')
    \<and> issued s' = [IocUnmmap 0 ioc] \<and> iou_addr ioc = [0x10000, 0x12000]
    \<and> ld 8 (page s') F_turn = turn_code FH_TURN_HOST"
proof -
  let ?s = "do_action_transfer_escape_data_free (demo_host demo_unmap_page)"
  have sel: "page ?s = demo_unmap_page" "issued ?s = []" "action_transfer_data_info_ctx ?s = 0"
    by (simp_all add: do_action_transfer_escape_data_free_def)
  have "sys_malloc demo_os (2 * 8) \<noteq> None" by (simp add: demo_os_def)
  then show ?thesis
    using unmap_falls_through [OF demo_table_ok, of ?s 2 demo_os 77 0] demo_unmap_fields(5)
    unfolding sel demo_unmap_fields(1-4) by (auto simp: page_size_val)
qed

end
