(* ===== verification/Guest_Escape.thy ===== *)
theory Guest_Escape
  imports Fh_Protocol
begin

text \<open>
  The guest's side of the escape (\<open>xdma_stub/linux-kernel/xdma/fvp_escape.c\<close>). A write
  to the nonce of the escape page traps into the host, which serves the request on the
  same page before the guest goes on; \<open>serve\<close> stands for that host, from its state and the
  page to its new state and the page. The page has \<open>fvp_escape_size\<close> bytes; writes with a
  computed index are checked against it. Kernel services are arguments.
\<close>

subsection \<open>State\<close>

type_synonym 'h serve = "'h \<Rightarrow> mem \<Rightarrow> ('h \<times> mem) outcome"

record 'h guest_state =
  fd_data :: mem
  fvp_escape_size :: u64
  fh_nonce :: u64
  faultdata_lock :: bool
  host :: 'h

definition fd_data_lock :: "'h guest_state \<Rightarrow> 'h guest_state outcome" where
  "fd_data_lock g = (if faultdata_lock g then Ub Deadlock else Ret (g\<lparr>faultdata_lock := True\<rparr>))"

definition fd_data_unlock :: "'h guest_state \<Rightarrow> 'h guest_state" where
  "fd_data_unlock g = g\<lparr>faultdata_lock := False\<rparr>"

definition fh_do_faulthook ::
  "'h serve \<Rightarrow> fh_action \<Rightarrow> 'h guest_state \<Rightarrow> (int \<times> 'h guest_state) outcome" where
  "fh_do_faulthook serve action g =
    (let nonce = fh_nonce g + 1;
         m = st 8 (st 8 (fd_data g) F_turn (turn_code FH_TURN_HOST)) F_action (action_code action)
     in obind (serve (host g) m) (\<lambda>(h, m1).
          let m2 = st 8 m1 F_nonce nonce
          in Ret (if ld 8 m2 F_turn \<noteq> turn_code FH_TURN_GUEST then - ENXIO else 0,
                  g\<lparr>fd_data := m2, fh_nonce := nonce, host := h\<rparr>)))"

abbreviation upd_page :: "(mem \<Rightarrow> mem) \<Rightarrow> 'h guest_state \<Rightarrow> 'h guest_state" where
  "upd_page f g \<equiv> g\<lparr>fd_data := f (fd_data g)\<rparr>"

definition memset0 :: "nat \<Rightarrow> nat \<Rightarrow> mem \<Rightarrow> mem" where
  "memset0 a n m = (\<lambda>i. if a \<le> i \<and> i < a + n then 0 else m i)"

subsection \<open>Opening and closing the device\<close>

text \<open>
  \<open>fh_char_open\<close>. The value is the return value, whether \<open>private_data\<close> was allocated,
  and the descriptor stored there (\<open>None\<close>: the allocation is left uninitialised).
  \<open>name\<close> is \<open>d_iname\<close>, the device path \<open>/dev/\<close> and the name with its zero.
\<close>

definition dev_prefix :: bytes where
  "dev_prefix = map (of_char :: char \<Rightarrow> u8) ''/dev/''"

definition fh_char_open ::
  "'h serve \<Rightarrow> bool \<Rightarrow> bytes \<Rightarrow> u64 \<Rightarrow> 'h guest_state \<Rightarrow> (int \<times> int option \<times> 'h guest_state) outcome" where
  "fh_char_open serve kmalloc_ok name f_flags g =
    (if \<not> kmalloc_ok then Ret (- ENOMEM, None, g)
     else obind (fd_data_lock g) (\<lambda>g.
       let g1 = upd_page (\<lambda>m. st 4 (st_bytes (st_bytes m D_device (dev_prefix @ [0]))
                                (D_device + length dev_prefix) (name @ [0])) D_flags f_flags) g
       in obind (fh_do_faulthook serve FH_ACTION_OPEN_DEVICE g1) (\<lambda>(ret, g2).
            if ret < 0 then Ret (ret, None, fd_data_unlock g2)
            else if ld_long (fd_data g2) D_ret < 0
            then Ret (ld_int (fd_data g2) D_err_no, None, fd_data_unlock g2)
            else Ret (0, Some (ld_int (fd_data g2) D_fd), fd_data_unlock g2))))"

definition fh_char_close :: "'h serve \<Rightarrow> int \<Rightarrow> 'h guest_state \<Rightarrow> (int \<times> 'h guest_state) outcome" where
  "fh_char_close serve fd g =
    obind (fd_data_lock g) (\<lambda>g.
    obind (fh_do_faulthook serve FH_ACTION_CLOSE_DEVICE (upd_page (\<lambda>m. st_int m D_fd fd) g)) (\<lambda>(ret, g2).
      if ret < 0 then Ret (ret, fd_data_unlock g2)
      else if ld_long (fd_data g2) D_ret < 0
      then Ret (ld_int (fd_data g2) D_err_no, fd_data_unlock g2)
      else Ret (0, fd_data_unlock g2)))"

subsection \<open>Taking unmapped frames out of use\<close>

record kernel_mm =
  pfn_valid :: "u64 \<Rightarrow> bool"
  PagePoisoned :: "u64 \<Rightarrow> bool"
  is_free_buddy_page :: "u64 \<Rightarrow> bool"
  soft_offline_page :: "u64 \<Rightarrow> int"

record verify_acc =
  offline_calls :: "u64 list"
  pages_offline :: int
  pages_busy :: int
  pages_no_mapping :: int

definition offline_one :: "kernel_mm \<Rightarrow> u64 \<Rightarrow> verify_acc \<Rightarrow> verify_acc" where
  "offline_one k pfn acc =
    (let acc1 = acc\<lparr>pages_no_mapping := pages_no_mapping acc + 1\<rparr>
     in if pfn_valid k pfn \<and> \<not> PagePoisoned k pfn
        then if is_free_buddy_page k pfn
             then acc1\<lparr>offline_calls := offline_calls acc1 @ [pfn], pages_offline := pages_offline acc1 + 1\<rparr>
             else acc1\<lparr>pages_busy := pages_busy acc1 + 1\<rparr>
        else acc1)"

text \<open>\<open>a->pfn[0 .. pfn_nr - 1]\<close>, as the loop reads it.\<close>

definition reply_pfns :: "'h guest_state \<Rightarrow> u64 list outcome" where
  "reply_pfns g =
    (let n = unat (ld 8 (fd_data g) D_em_pfn_nr)
     in if D_em_pfn + 8 * n \<le> unat (fvp_escape_size g)
        then Ret (map (\<lambda>i. ld 8 (fd_data g) (D_em_pfn + 8 * i)) [0..<n])
        else Ub OutOfBounds)"

text \<open>
  The \<open>do ... while (a->last_pfn != 0)\<close> loop; \<open>None\<close>: the host keeps the loop going for ever.
\<close>

partial_function (option) verify_loop ::
  "'h serve \<Rightarrow> kernel_mm \<Rightarrow> verify_acc \<Rightarrow> 'h guest_state \<Rightarrow> (verify_acc \<times> 'h guest_state) outcome option" where
  "verify_loop serve k acc g =
    (case fh_do_faulthook serve FH_ACTION_GET_EMPTY_MAPPINGS g of
       Ub u \<Rightarrow> Some (Ub u)
     | Ret (ret, g1) \<Rightarrow>
        if ret < 0 \<or> ld_long (fd_data g1) D_ret < 0 then Some (Ret (acc, g1))
        else (case reply_pfns g1 of
                Ub u \<Rightarrow> Some (Ub u)
              | Ret ps \<Rightarrow>
                 let acc1 = fold (offline_one k) ps acc
                 in if ld 4 (fd_data g1) D_em_last_pfn \<noteq> 0 then verify_loop serve k acc1 g1
                    else Some (Ret (acc1, g1))))"

definition verify_acc0 :: verify_acc where
  "verify_acc0 = \<lparr>offline_calls = [], pages_offline = 0, pages_busy = 0, pages_no_mapping = 0\<rparr>"

definition verify_request :: "'h guest_state \<Rightarrow> 'h guest_state" where
  "verify_request g =
     upd_page (\<lambda>m. st 8 (st 4 m D_em_last_pfn 0) D_em_pfn_max_nr_guest
       ((fvp_escape_size g - of_nat sizeof_faultdata_struct - of_nat sizeof_action_empty_mappings) div 8)) g"

definition fh_verify_mapping ::
  "'h serve \<Rightarrow> kernel_mm \<Rightarrow> 'h guest_state \<Rightarrow> (int \<times> verify_acc \<times> 'h guest_state) outcome option" where
  "fh_verify_mapping serve k g =
    (case fd_data_lock g of
       Ub u \<Rightarrow> Some (Ub u)
     | Ret g1 \<Rightarrow>
        map_option (\<lambda>r. obind r (\<lambda>(acc, g2). Ret (0, acc, fd_data_unlock g2)))
          (verify_loop serve k verify_acc0 (verify_request g1)))"

subsection \<open>Module set-up and tear-down\<close>

text \<open>
  \<open>faulthook_init\<close>. With a page given by module parameters that page is used as it is;
  otherwise the driver's state and the built-in page are cleared. \<open>setup_lookup\<close> finds
  kernel symbols; its result is not used.
\<close>

definition faulthook_init ::
  "'h serve \<Rightarrow> kernel_mm \<Rightarrow> (mem \<times> u64) option \<Rightarrow> bool \<Rightarrow> 'h guest_state
     \<Rightarrow> (int \<times> 'h guest_state) outcome option" where
  "faulthook_init serve k param_escape_page param_do_verify g =
    (let g1 = (case param_escape_page of
                 Some (m, sz) \<Rightarrow> g\<lparr>fd_data := m, fvp_escape_size := sz\<rparr>
               | None \<Rightarrow> g\<lparr>fh_nonce := 0, fd_data := memset0 0 (unat (fvp_escape_size g)) (fd_data g)\<rparr>)
     in case obind (fd_data_lock g1) (\<lambda>g2.
          obind (fh_do_faulthook serve FH_ACTION_SETUP g2) (\<lambda>(_, g3). Ret (fd_data_unlock g3))) of
          Ub u \<Rightarrow> Some (Ub u)
        | Ret g4 \<Rightarrow>
           if param_do_verify
           then map_option (\<lambda>r. obind r (\<lambda>(_, _, g5). Ret (0, g5))) (fh_verify_mapping serve k g4)
           else Some (Ret (0, g4)))"

definition faulthook_cleanup :: "'h serve \<Rightarrow> 'h guest_state \<Rightarrow> (int \<times> 'h guest_state) outcome" where
  "faulthook_cleanup serve g =
    obind (fd_data_lock g) (\<lambda>g.
    obind (fh_do_faulthook serve FH_ACTION_TEARDOWN g) (\<lambda>(_, g1).
      Ret (0, fd_data_unlock (upd_page (memset0 0 (unat (fvp_escape_size g1))) g1))))"

subsection \<open>The control device\<close>

text \<open>
  \<open>fh_char_ctrl_read\<close>: the value, the new position, and the source and length handed to
  \<open>copy_to_user\<close>, whose value (the bytes not copied) is the argument \<open>copy\<close>.
\<close>

definition fh_char_ctrl_read ::
  "'h serve \<Rightarrow> (u64 \<Rightarrow> int \<Rightarrow> int) \<Rightarrow> int \<Rightarrow> u64 \<Rightarrow> int \<Rightarrow> 'h guest_state \<Rightarrow> (int \<times> int \<times> 'h guest_state) outcome" where
  "fh_char_ctrl_read serve copy fd count pos g =
    obind (fd_data_lock g) (\<lambda>g.
    obind (fh_do_faulthook serve FH_ACTION_READ
            (upd_page (\<lambda>m. st 8 (st_long (st_int m D_fd fd) D_rw_offset pos) D_rw_count count) g)) (\<lambda>(_, g1).
      let m = fd_data g1; ret = ld_long m D_ret
      in if ret < 0 then Ret (ret, pos, fd_data_unlock g1)
         else let ret = copy (ld 8 m D_rw_buffer) (ld_long m D_rw_buffer_size)
              in if ret < 0 then Ret (ret, pos, fd_data_unlock g1)
                 else Ret (ld_long m D_rw_buffer_size, sint (ld 8 m D_rw_count), fd_data_unlock g1)))"

text \<open>
  \<open>fh_char_ctrl_write\<close>: every path ends with a second \<open>fd_data_lock\<close> where the lock
  should be released.
\<close>

definition fh_char_ctrl_write ::
  "'h serve \<Rightarrow> (u64 \<Rightarrow> u64 \<Rightarrow> int) \<Rightarrow> int \<Rightarrow> int \<Rightarrow> 'h guest_state \<Rightarrow> (int \<times> int \<times> 'h guest_state) outcome" where
  "fh_char_ctrl_write serve copy fd pos g =
    obind (fd_data_lock g) (\<lambda>g.
    let g1 = upd_page (\<lambda>m. st 8 (st_long (st_int m D_fd fd) D_rw_offset pos) D_rw_count 4) g;
        ret = copy (ld 8 (fd_data g1) D_rw_buffer) 4
    in if ret \<noteq> 0 then obind (fd_data_lock g1) (\<lambda>g2. Ret (ret, pos, g2))
       else obind (fh_do_faulthook serve FH_ACTION_WRITE g1) (\<lambda>(_, g2).
         let ret = ld_long (fd_data g2) D_ret
         in if ret < 0 then obind (fd_data_lock g2) (\<lambda>g3. Ret (ret, pos, g3))
            else obind (fd_data_lock g2) (\<lambda>g3.
              Ret (ld_long (fd_data g2) D_rw_buffer_size, pos + sint (ld 8 (fd_data g2) D_rw_count), g3))))"

definition fh_char_ctrl_ioctl :: "int \<Rightarrow> u64 \<Rightarrow> u64 \<Rightarrow> 'h guest_state \<Rightarrow> int \<times> 'h guest_state" where
  "fh_char_ctrl_ioctl fd cmd arg g =
     (0, upd_page (\<lambda>m. st 8 (st 4 (st_int m D_fd fd) D_ioctl_cmd cmd) D_ioctl_arg arg) g)"

subsection \<open>Mapping device memory\<close>

record vm_area_struct =
  vm_start :: u64
  vm_end :: u64
  vm_pgoff :: u64
  vm_flags :: u64
  vm_page_prot :: u64

record mmap_info =
  data_pfn :: u64
  data_size :: u64
  order :: u64

text \<open>\<open>__roundup_pow_of_two(n)\<close>: \<open>1UL << fls_long(n - 1)\<close>.\<close>

fun fls :: "nat \<Rightarrow> nat" where
  "fls n = (if n = 0 then 0 else Suc (fls (n div 2)))"

declare fls.simps [simp del]

definition roundup_pow_of_two :: "u64 \<Rightarrow> u64" where
  "roundup_pow_of_two n = push_bit (fls (unat (n - 1))) 1"

text \<open>\<open>escape->pfn[i] = pfn_start + i * PAGE_SIZE\<close>, from \<open>base\<close> on.\<close>

primrec store_pfns :: "nat \<Rightarrow> nat \<Rightarrow> nat \<Rightarrow> u64 \<Rightarrow> nat \<Rightarrow> mem \<Rightarrow> mem outcome" where
  "store_pfns limit base 0 pfn_start i m = Ret m"
| "store_pfns limit base (Suc k) pfn_start i m =
    (if base + 8 * i + 8 \<le> limit
     then store_pfns limit base k pfn_start (Suc i)
            (st 8 m (base + 8 * i) (pfn_start + of_nat i * PAGE_SIZE))
     else Ub OutOfBounds)"

text \<open>
  Kernel services used by \<open>fh_bridge_mmap\<close>: \<open>kmalloc\<close>, \<open>__get_free_pages\<close> (the first
  frame of \<open>2 ^ order\<close> pages), the bits \<open>VM_IO | VM_DONTEXPAND | VM_DONTDUMP\<close>,
  \<open>pgprot_noncached\<close> and \<open>remap_pfn_range\<close>.
\<close>

record kernel_map =
  kmalloc_ok :: bool
  get_free_pages :: "u64 \<Rightarrow> u64 option"
  vm_io_flags :: u64
  pgprot_noncached :: "u64 \<Rightarrow> u64"
  remap_pfn_range :: "u64 \<Rightarrow> u64 \<Rightarrow> u64 \<Rightarrow> u64 \<Rightarrow> int"

text \<open>
  The outcome of a mapping call: the value returned, the area, the \<open>mmap_info\<close> it keeps
  (on success), and the frame and order handed to \<open>free_pages\<close> (on the error paths).
\<close>

record mmap_result =
  mr_ret :: int
  mr_vma :: vm_area_struct
  mr_info :: "mmap_info option"
  mr_freed :: "(u64 \<times> u64) option"

definition mmap_request ::
  "int \<Rightarrow> vm_area_struct \<Rightarrow> u64 \<Rightarrow> mem \<Rightarrow> mem" where
  "mmap_request fd vma pfn_size m =
    (let m1 = memset0 F_data sizeof_action_mmap_device m;
         m2 = st_int m1 D_fd fd;
         m3 = st 8 (st 8 m2 D_mmap_vm_start (vm_start vma)) D_mmap_vm_end (vm_end vma);
         m4 = st 8 (st 8 m3 D_mmap_vm_pgoff (vm_pgoff vma)) D_mmap_vm_flags (vm_flags vma)
     in st 8 (st 8 m4 D_mmap_vm_page_prot (vm_page_prot vma)) D_mmap_pfn_size pfn_size)"

definition fh_bridge_mmap ::
  "'h serve \<Rightarrow> kernel_map \<Rightarrow> int \<Rightarrow> vm_area_struct \<Rightarrow> 'h guest_state \<Rightarrow> (mmap_result \<times> 'h guest_state) outcome" where
  "fh_bridge_mmap serve k fd vma g =
    (if \<not> kmalloc_ok k then Ret (\<lparr>mr_ret = - ENOMEM, mr_vma = vma, mr_info = None, mr_freed = None\<rparr>, g)
     else
       let size = vm_end vma - vm_start vma
       in if sint size \<le> 0
          then Ret (\<lparr>mr_ret = - EINVAL, mr_vma = vma, mr_info = None, mr_freed = None\<rparr>, g)
          else case get_free_pages k 0 of
            None \<Rightarrow> Ret (\<lparr>mr_ret = - ENOMEM, mr_vma = vma, mr_info = None, mr_freed = None\<rparr>, g)
          | Some pfn_start \<Rightarrow>
             let info = \<lparr>data_pfn = pfn_start, data_size = size,
                         order = roundup_pow_of_two (drop_bit PAGE_SHIFT size)\<rparr>;
                 vma1 = vma\<lparr>vm_page_prot := pgprot_noncached k (vm_page_prot vma),
                            vm_flags := vm_flags vma OR vm_io_flags k\<rparr>;
                 pfn_size = drop_bit PAGE_SHIFT size;
                 failed = (\<lambda>ret g. Ret (\<lparr>mr_ret = ret, mr_vma = vma1, mr_info = None,
                                         mr_freed = Some (pfn_start, order info)\<rparr>, g))
             in obind (store_pfns (unat (fvp_escape_size g)) D_mmap_pfn (unat pfn_size) pfn_start 0
                         (mmap_request fd vma1 pfn_size (fd_data g))) (\<lambda>m.
                obind (fh_do_faulthook serve FH_ACTION_MMAP (g\<lparr>fd_data := m\<rparr>)) (\<lambda>(ret, g1).
                  if ret < 0 then failed ret g1
                  else if ld_long (fd_data g1) D_ret < 0
                  then failed (ld_int (fd_data g1) D_err_no) g1
                  else
                    let ret = remap_pfn_range k (vm_start vma1) pfn_start size (vm_page_prot vma1)
                    in if ret \<noteq> 0 then failed ret g1
                       else Ret (\<lparr>mr_ret = 0, mr_vma = vma1, mr_info = Some info, mr_freed = None\<rparr>, g1))))"

text \<open>\<open>vm_close\<close>: the frame and order given unat_back.\<close>

definition vm_close ::
  "'h serve \<Rightarrow> int \<Rightarrow> vm_area_struct \<Rightarrow> mmap_info \<Rightarrow> 'h guest_state \<Rightarrow> ((u64 \<times> u64) \<times> 'h guest_state) outcome" where
  "vm_close serve fd vma info g =
    (let pfn_size = drop_bit PAGE_SHIFT (data_size info);
         m1 = memset0 F_data sizeof_action_unmap (fd_data g);
         m2 = st 8 (st 8 (st_int m1 D_fd fd) D_unmap_vm_start (vm_start vma)) D_unmap_vm_end (vm_end vma);
         m3 = st 8 m2 D_unmap_pfn_size pfn_size
     in obind (store_pfns (unat (fvp_escape_size g)) D_unmap_pfn (unat pfn_size) (data_pfn info) 0 m3) (\<lambda>m.
        obind (fh_do_faulthook serve FH_ACTION_UNMAP (g\<lparr>fd_data := m\<rparr>)) (\<lambda>(_, g1).
          Ret ((data_pfn info, order info), g1))))"

subsection \<open>Pinning user pages\<close>

definition fh_get_page_count :: "u64 \<Rightarrow> u64 \<Rightarrow> u64" where
  "fh_get_page_count buf len =
     drop_bit PAGE_SHIFT ((buf + len + PAGE_SIZE - 1) - (buf AND NOT (PAGE_SIZE - 1)))"

text \<open>A pinned page is known by its frame.\<close>

record pin_pages_struct =
  user_buf :: u64
  pin_len :: u64
  pages :: "u64 list option"
  pages_nr :: u64
  priv_data :: "(u64 \<times> u64 \<times> u64) list option"
  page_chunks :: "page_chunk list"

text \<open>\<open>fh_unpin_pages\<close>: the pages \<open>put_page\<close> is called on (those of \<open>pages[0 .. pages_nr - 1]\<close>).\<close>

definition fh_unpin_pages :: "pin_pages_struct option \<Rightarrow> u64 list" where
  "fh_unpin_pages pinned =
    (case pinned of None \<Rightarrow> []
     | Some p \<Rightarrow> (case pages p of None \<Rightarrow> [] | Some ps \<Rightarrow> take (unat (pages_nr p)) ps))"

text \<open>
  The chunk loop, one chunk per page; \<open>min_t(unsigned int, ...)\<close> compares 32-bit values. A
  chunk is stored at \<open>sizeof(struct pin_pages_struct) + 24 * i\<close> of a block of \<open>blk\<close> bytes.
\<close>

primrec pin_loop ::
  "nat \<Rightarrow> nat \<Rightarrow> u64 list \<Rightarrow> u64 \<Rightarrow> u64 \<Rightarrow> page_chunk list \<Rightarrow> (u64 \<times> u64 \<times> page_chunk list) outcome" where
  "pin_loop blk i [] buf len cs = Ret (buf, len, cs)"
| "pin_loop blk i (pfn # pfns) buf len cs =
    (let off = buf AND (PAGE_SIZE - 1);
         nbytes = ucast (min (ucast (PAGE_SIZE - off) :: u32) (ucast len :: u32)) :: u64
     in if 40 + 24 * i + 24 \<le> blk
        then pin_loop blk (Suc i) pfns (buf + nbytes) (len - nbytes)
               (cs @ [\<lparr>addr = pfn, offset = off, nbytes = nbytes\<rparr>])
        else Ub OutOfBounds)"

definition adjacent_dup :: "u64 list \<Rightarrow> bool" where
  "adjacent_dup ps \<longleftrightarrow> list_ex (\<lambda>(a, b). a = b) (zip ps (tl ps))"

text \<open>\<open>vmalloc\<close> provides whole pages.\<close>

definition vmalloc_bytes :: "u64 \<Rightarrow> nat" where
  "vmalloc_bytes n = 4096 * ((unat n + 4095) div 4096)"

text \<open>
  Kernel services: two \<open>vmalloc\<close> calls and \<open>get_user_pages_fast\<close> (its value and the
  frames of the pages it pinned). The outcome holds the value returned, the structure passed
  to the caller, and the pages released again.
\<close>

record kernel_pin =
  vmalloc1_ok :: bool
  vmalloc2_ok :: bool
  get_user_pages_fast :: "u64 \<Rightarrow> u64 \<Rightarrow> int \<times> u64 list"

definition fh_pin_pages ::
  "kernel_pin \<Rightarrow> u64 \<Rightarrow> u64 \<Rightarrow> (int \<times> pin_pages_struct option \<times> u64 list) outcome" where
  "fh_pin_pages k buf count =
    (let n = fh_get_page_count buf count;
         alloc_size = 8 + n * 24;
         fresh = \<lparr>user_buf = 0, pin_len = 0, pages = None, pages_nr = 0, priv_data = None, page_chunks = []\<rparr>;
         err_out = (\<lambda>rv p. Ret (rv, None, fh_unpin_pages p))
     in if n = 0 then Ret (- EINVAL, None, [])
        else if \<not> vmalloc1_ok k then err_out (- ENOMEM) None
        else if \<not> vmalloc2_ok k then err_out (- ENOMEM) (Some fresh)
        else case get_user_pages_fast k buf n of (rv, pfns) \<Rightarrow>
          if rv < 0 then err_out rv (Some fresh)
          else if (word_of_int rv :: u64) \<noteq> n then err_out (- EFAULT) (Some fresh)
          else if adjacent_dup pfns then err_out (- EFAULT) (Some fresh)
          else obind (pin_loop (vmalloc_bytes alloc_size) 0 pfns buf count []) (\<lambda>(buf', len, cs).
            if len \<noteq> 0 then err_out (- EINVAL) (Some fresh)
            else Ret (0, Some (fresh\<lparr>pages_nr := n, user_buf := buf', pin_len := count, pages := Some pfns,
                                    page_chunks := cs\<rparr>), [])))"

subsection \<open>The pieces of a user buffer\<close>

text \<open>Reference: the buffer cut at page boundaries.\<close>

fun page_pieces :: "nat \<Rightarrow> nat \<Rightarrow> (nat \<times> nat) list" where
  "page_pieces a len =
    (if len = 0 then []
     else let n = min (4096 - a mod 4096) len in (a, n) # page_pieces (a + n) (len - n))"

declare page_pieces.simps [simp del]

lemma page_pieces_0 [simp]: "page_pieces a 0 = []"
  by (simp add: page_pieces.simps)

lemma page_pieces_concat: "concat (map (\<lambda>(a, n). [a..<a + n]) (page_pieces a len)) = [a..<a + len]"
proof (induction a len rule: page_pieces.induct)
  case (1 a len)
  show ?case
  proof (cases "len = 0")
    case False
    define n where "n = min (4096 - a mod 4096) len"
    have "concat (map (\<lambda>(a, n). [a..<a + n]) (page_pieces a len)) = [a..<a + n] @ [a + n..<a + n + (len - n)]"
      using "1.IH" [OF False n_def] False by (subst page_pieces.simps) (simp add: n_def Let_def)
    also have "\<dots> = [a..<a + len]"
      using upt_add_eq_append [of a "a + n" "len - n"] by (simp add: n_def)
    finally show ?thesis .
  qed simp
qed

lemma page_pieces_in_page:
  "(b, n) \<in> set (page_pieces a len) \<Longrightarrow> 0 < n \<and> b mod 4096 + n \<le> 4096"
proof (induction a len rule: page_pieces.induct)
  case (1 a len)
  have m: "a mod 4096 < 4096" by simp
  show ?case
  proof (cases "len = 0 \<or> (b, n) = (a, min (4096 - a mod 4096) len)")
    case True
    moreover have "len \<noteq> 0" using "1.prems" by (metis empty_iff list.set(1) page_pieces_0)
    ultimately show ?thesis using m by (auto simp del: mod_less_divisor)
  next
    case False
    then show ?thesis using "1.IH" "1.prems"
      by (subst (asm) (2) page_pieces.simps) (auto simp: Let_def)
  qed
qed

lemma pages_step:
  fixes a len n :: nat
  assumes "len > 0" "n = min (4096 - a mod 4096) len"
  shows "(a mod 4096 + len + 4095) div 4096 =
    Suc (if len = n then 0 else ((a + n) mod 4096 + (len - n) + 4095) div 4096)"
proof (cases "len \<le> 4096 - a mod 4096")
  case True
  moreover have "a mod 4096 < 4096" by simp
  ultimately have "a mod 4096 + len + 4095 = (a mod 4096 + len - 1) + 4096" "a mod 4096 + len - 1 < 4096"
    using assms(1) by linarith+
  then have "(a mod 4096 + len + 4095) div 4096 = 1" by (simp del: mod_less_divisor)
  then show ?thesis using True assms(2) by simp
next
  case False
  have m: "a mod 4096 < 4096" by simp
  define r where "r = len - n"
  have n: "n = 4096 - a mod 4096" using False assms(2) by simp
  have "a + n = 4096 * (a div 4096) + 4096"
    using mult_div_mod_eq [of 4096 a] m n by linarith
  then have "(a + n) mod 4096 = 0" by simp
  moreover have "a mod 4096 + len + 4095 = r + 4095 + 4096" using False m n by (simp add: r_def)
  moreover have "(r + 4095 + 4096) div 4096 = Suc ((r + 4095) div 4096)" by simp
  moreover have "len \<noteq> n" using False n by simp
  ultimately show ?thesis by (simp only: r_def add_0_left if_False)
qed

lemma length_page_pieces:
  "len > 0 \<Longrightarrow> length (page_pieces a len) = (a mod 4096 + len + 4095) div 4096"
proof (induction a len rule: page_pieces.induct)
  case (1 a len)
  define n where "n = min (4096 - a mod 4096) len"
  have "length (page_pieces a len) = Suc (length (page_pieces (a + n) (len - n)))"
    using "1.prems" by (subst page_pieces.simps) (simp add: n_def Let_def)
  moreover have "len - n > 0 \<Longrightarrow> length (page_pieces (a + n) (len - n)) = ((a + n) mod 4096 + (len - n) + 4095) div 4096"
    using "1.prems" by (intro "1.IH" [OF _ n_def]) simp_all
  moreover have "n \<le> len" by (simp add: n_def)
  ultimately show ?case
    unfolding pages_step [OF "1.prems" n_def] by (cases "len = n") simp_all
qed

lemma page_offset: "unat (buf AND 4095 :: u64) = unat buf mod 4096"
proof -
  have "buf AND 4095 = take_bit 12 buf" by (simp add: take_bit_eq_mask mask_eq_exp_minus_1)
  then have "unat (buf AND 4095) = take_bit 12 (unat buf)" by (simp only: unsigned_take_bit_eq)
  then show ?thesis by (simp add: take_bit_eq_mod)
qed

lemma pin_nbytes:
  assumes "unat len < 2 ^ 32"
  shows "unat (ucast (min (ucast (PAGE_SIZE - ((buf :: u64) AND (PAGE_SIZE - 1))) :: u32) (ucast len :: u32)) :: u64) =
    min (4096 - unat buf mod 4096) (unat (len :: u64))"
proof -
  have m: "unat buf mod 4096 < 4096" by simp
  have "unat (PAGE_SIZE - (buf AND (PAGE_SIZE - 1))) = 4096 - unat buf mod 4096"
    using m by (subst unat_sub) (simp_all add: word_le_nat_alt page_offset)
  moreover from this m have "unat (ucast (PAGE_SIZE - (buf AND (PAGE_SIZE - 1))) :: u32) = 4096 - unat buf mod 4096"
    by (simp add: unsigned_ucast_eq take_bit_nat_eq_self)
  moreover have "unat (ucast len :: u32) = unat len"
    using assms by (simp add: unsigned_ucast_eq take_bit_nat_eq_self)
  ultimately show ?thesis
    by (simp add: unsigned_ucast_eq min_def word_le_nat_alt take_bit_nat_eq_self
        order_less_trans [OF unsigned_less])
qed

definition piece_chunk :: "u64 \<Rightarrow> nat \<times> nat \<Rightarrow> page_chunk" where
  "piece_chunk pfn piece =
     \<lparr>addr = pfn, offset = of_nat (fst piece mod 4096), nbytes = of_nat (snd piece)\<rparr>"

lemma pin_loop_pieces:
  assumes "unat len < 2 ^ 32" "unat buf + unat len < 2 ^ 64"
    and "length pfns = length (page_pieces (unat buf) (unat len))"
    and "40 + 24 * (i + length pfns) \<le> blk"
  shows "pin_loop blk i pfns buf len cs =
    Ret (buf + len, 0, cs @ map2 piece_chunk pfns (page_pieces (unat buf) (unat len)))"
  using assms
proof (induction pfns arbitrary: i buf len cs)
  case Nil
  then have "unat len = 0" by (subst (asm) page_pieces.simps) (simp add: Let_def split: if_splits)
  then show ?case by (simp add: unat_eq_0)
next
  case (Cons p ps)
  define n where "n = min (4096 - unat buf mod 4096) (unat len)"
  define w where "w = (ucast (min (ucast (PAGE_SIZE - (buf AND (PAGE_SIZE - 1))) :: u32) (ucast len :: u32)) :: u64)"
  have w: "unat w = n" unfolding w_def n_def by (rule pin_nbytes [OF Cons.prems(1)])
  have "of_nat (unat x) = x" for x :: u64 by simp
  note unat_back = this [symmetric]
  have wn: "w = of_nat n" by (subst unat_back) (simp only: w)
  have "len \<noteq> 0" using Cons.prems(3) by auto
  then have "unat len \<noteq> 0" by (simp add: unat_eq_0)
  then have pp: "page_pieces (unat buf) (unat len) = (unat buf, n) # page_pieces (unat buf + n) (unat len - n)"
    by (subst page_pieces.simps) (simp add: n_def Let_def)
  have u: "unat (buf + w) = unat buf + n" "unat (len - w) = unat len - n"
    using Cons.prems(2) by (simp_all add: unat_word_ariths w unat_sub word_le_nat_alt n_def)
  have off: "buf AND (PAGE_SIZE - 1) = of_nat (unat buf mod 4096)"
    by (subst unat_back) (simp add: page_offset)
  have "pin_loop blk i (p # ps) buf len cs =
      pin_loop blk (Suc i) ps (buf + w) (len - w) (cs @ [piece_chunk p (unat buf, n)])"
    using Cons.prems(4) unfolding pin_loop.simps Let_def unfolding w_def [symmetric] unfolding off
    by (simp add: piece_chunk_def wn [symmetric])
  also have "\<dots> = Ret (buf + w + (len - w), 0, cs @ [piece_chunk p (unat buf, n)]
      @ map2 piece_chunk ps (page_pieces (unat (buf + w)) (unat (len - w))))"
    using Cons.prems by (subst Cons.IH) (simp_all add: u pp, simp_all add: n_def)
  finally show ?case by (simp add: pp u)
qed

lemma page_count_pieces:
  assumes "0 < len" "unat buf + unat len + 4095 < 2 ^ 64"
  shows "unat (fh_get_page_count buf len) = length (page_pieces (unat buf) (unat len))"
proof -
  have m: "buf AND NOT 4095 = buf - (buf AND 4095)"
    by (subst disjunctive_diff) (auto simp: bit_simps intro!: bit_word_eqI)
  have b: "unat (buf AND NOT 4095) = unat buf - unat buf mod 4096"
    unfolding m by (subst unat_sub) (simp_all add: word_le_nat_alt page_offset)
  have s: "unat (buf + len + PAGE_SIZE - 1) = unat buf + unat len + 4095"
  proof -
    have "buf + len + PAGE_SIZE - 1 = buf + len + 4095" by simp
    moreover have "unat (buf + len + 4095) = unat buf + unat len + 4095"
      using assms(2) by (simp add: unat_word_ariths)
    ultimately show ?thesis by (simp only:)
  qed
  have sub: "(b + l + 4095) - (b - r) = r + l + 4095" if "r \<le> b" for b l r :: nat using that by simp
  have "buf AND NOT 4095 \<le> buf + len + PAGE_SIZE - 1"
    unfolding word_le_nat_alt b s by simp
  then have "unat ((buf + len + PAGE_SIZE - 1) - (buf AND NOT 4095)) = unat buf mod 4096 + unat len + 4095"
    unfolding unat_sub [OF \<open>buf AND NOT 4095 \<le> _\<close>] b s
    by (simp add: sub)
  moreover have "unat buf mod 4096 + unat len + 4095 < 2 ^ 64"
    using assms(2) mod_less_eq_dividend [of "unat buf" 4096] by linarith
  moreover have "(4096 - 1 :: u64) = 4095" by simp
  ultimately have "unat (fh_get_page_count buf len) = (unat buf mod 4096 + unat len + 4095) div 4096"
    unfolding fh_get_page_count_def unsigned_drop_bit_eq
    by (simp only: drop_bit_eq_div) (simp add: take_bit_nat_eq_self)
  moreover have "0 < unat len" using assms(1) by (simp add: word_less_nat_alt)
  ultimately show ?thesis by (simp add: length_page_pieces)
qed

text \<open>The kernel pins every page of the buffer, and the frames of neighbouring pages differ.\<close>

definition pins_all :: "kernel_pin \<Rightarrow> u64 \<Rightarrow> u64 \<Rightarrow> u64 list \<Rightarrow> bool" where
  "pins_all k buf count pfns \<longleftrightarrow>
     vmalloc1_ok k \<and> vmalloc2_ok k
     \<and> get_user_pages_fast k buf (fh_get_page_count buf count) = (int (length pfns), pfns)
     \<and> length pfns = unat (fh_get_page_count buf count) \<and> \<not> adjacent_dup pfns"

lemma fh_pin_pages_loop:
  assumes "pins_all k buf count pfns" "pfns \<noteq> []"
  shows "fh_pin_pages k buf count =
    obind (pin_loop (vmalloc_bytes (8 + fh_get_page_count buf count * 24)) 0 pfns buf count [])
      (\<lambda>(buf', len, cs). if len \<noteq> 0 then Ret (- EINVAL, None, [])
        else Ret (0, Some \<lparr>user_buf = buf', pin_len = count, pages = Some pfns,
               pages_nr = fh_get_page_count buf count, priv_data = None, page_chunks = cs\<rparr>, []))"
proof -
  have "fh_get_page_count buf count \<noteq> 0" using assms by (auto simp: pins_all_def)
  then show ?thesis using assms(1)
    by (auto simp: fh_pin_pages_def pins_all_def Let_def fh_unpin_pages_def intro!: obind_cong)
qed

lemma fh_pin_pages_ok:
  assumes "pins_all k buf count pfns" "0 < count" "unat count < 2 ^ 32"
    and "unat buf + unat count + 4095 < 2 ^ 64"
    and "40 + 24 * length pfns \<le> vmalloc_bytes (8 + fh_get_page_count buf count * 24)"
  shows "\<exists>p. fh_pin_pages k buf count = Ret (0, Some p, [])
    \<and> unat (pages_nr p) = length pfns \<and> pin_len p = count \<and> pages p = Some pfns
    \<and> page_chunks p = map2 piece_chunk pfns (page_pieces (unat buf) (unat count))"
proof -
  have len: "length pfns = length (page_pieces (unat buf) (unat count))"
    using assms(1) page_count_pieces [OF assms(2,4)] by (simp add: pins_all_def)
  have "0 < unat count" using assms(2) by (simp add: word_less_nat_alt)
  then have "pfns \<noteq> []" using len by (subst (asm) page_pieces.simps) (auto simp: Let_def)
  then show ?thesis
    using pin_loop_pieces [OF assms(3) _ len, of 0] assms(1,4,5)
    by (auto simp: fh_pin_pages_loop [OF assms(1)] pins_all_def)
qed

subsection \<open>Properties: pinning a user buffer\<close>

text \<open>C6: Pinning a buffer yields the pieces of the buffer. For a non-empty buffer below 4 GiB whose
  pages the kernel pins, and as long as the chunk array stays inside the allocated pages,
  \<open>fh_pin_pages\<close> succeeds with exactly one chunk per page: the frames in order, each with the offset
  and the length of the part of the buffer on that page; the parts stay inside their pages and
  are, one after the other, the whole buffer.\<close>

theorem fh_pin_pages_covers:
  assumes "pins_all k buf count pfns" "0 < count" "unat count < 2 ^ 32"
    and "unat buf + unat count + 4095 < 2 ^ 64"
    and "40 + 24 * length pfns \<le> vmalloc_bytes (8 + fh_get_page_count buf count * 24)"
  shows "\<exists>p. fh_pin_pages k buf count = Ret (0, Some p, [])
    \<and> unat (pages_nr p) = length pfns \<and> pin_len p = count \<and> pages p = Some pfns
    \<and> page_chunks p = map2 piece_chunk pfns (page_pieces (unat buf) (unat count))
    \<and> concat (map (\<lambda>(a, n). [a..<a + n]) (page_pieces (unat buf) (unat count)))
        = [unat buf..<unat buf + unat count]
    \<and> (\<forall>(a, n) \<in> set (page_pieces (unat buf) (unat count)). 0 < n \<and> a mod 4096 + n \<le> 4096)"
  using fh_pin_pages_ok [OF assms] page_pieces_concat page_pieces_in_page by fastforce

lemma pin_loop_overflow:
  "blk < 40 + 24 * (i + length pfns) \<Longrightarrow> pfns \<noteq> [] \<Longrightarrow> pin_loop blk i pfns buf len cs = Ub OutOfBounds"
proof (induction pfns arbitrary: i buf len cs)
  case (Cons p ps)
  show ?case
  proof (cases "40 + 24 * i + 24 \<le> blk")
    case True
    then have "ps \<noteq> []" using Cons.prems(1) by auto
    then show ?thesis
      using Cons.IH [of "Suc i"] Cons.prems(1) True by (simp only: pin_loop.simps Let_def if_True) simp
  qed (simp only: pin_loop.simps Let_def if_False)
qed simp

text \<open>The chunk array can be overrun. The allocation reserves the size of a pointer where the
  header of the structure needs 40 bytes. Whenever the missing bytes are not hidden by the
  rounding of \<open>vmalloc\<close> to whole pages, for example for a buffer of 170 pages, the last
  chunk is written past the allocation.\<close>

theorem fh_pin_pages_overflow:
  assumes "pins_all k buf count pfns" "pfns \<noteq> []"
    and "vmalloc_bytes (8 + fh_get_page_count buf count * 24) < 40 + 24 * length pfns"
  shows "fh_pin_pages k buf count = Ub OutOfBounds"
  using pin_loop_overflow [of _ 0 pfns] assms by (simp add: fh_pin_pages_loop)

definition demo_pin :: "u64 list \<Rightarrow> kernel_pin" where
  "demo_pin pfns = \<lparr>vmalloc1_ok = True, vmalloc2_ok = True,
     get_user_pages_fast = (\<lambda>_ _. (int (length pfns), pfns))\<rparr>"

theorem fh_pin_pages_covers_witness:
  "\<exists>p. fh_pin_pages (demo_pin [5, 7]) 0x10FF0 0x20 = Ret (0, Some p, [])
    \<and> page_chunks p = [\<lparr>addr = 5, offset = 0xFF0, nbytes = 16\<rparr>, \<lparr>addr = 7, offset = 0, nbytes = 16\<rparr>]"
proof -
  have n: "fh_get_page_count 0x10FF0 0x20 = 2" by code_simp
  have "pins_all (demo_pin [5, 7]) 0x10FF0 0x20 [5, 7]"
    by (simp add: pins_all_def demo_pin_def n adjacent_dup_def)
  moreover have "page_pieces 0x10FF0 0x20 = [(0x10FF0, 16), (0x11000, 16)]"
    by (simp add: page_pieces.simps)
  ultimately show ?thesis
    using fh_pin_pages_covers [of "demo_pin [5, 7]" "0x10FF0" "0x20" "[5, 7]"]
    by (auto simp: n vmalloc_bytes_def piece_chunk_def)
qed

theorem fh_pin_pages_overflow_witness:
  "fh_pin_pages (demo_pin (map of_nat [0..<170])) 0x10000 (170 * 4096) = Ub OutOfBounds"
proof -
  have n: "fh_get_page_count 0x10000 (170 * 4096) = 170" by code_simp
  have "\<not> adjacent_dup (map of_nat [0..<170])" by code_simp
  then have "pins_all (demo_pin (map of_nat [0..<170])) 0x10000 (170 * 4096) (map of_nat [0..<170])"
    by (simp only: pins_all_def demo_pin_def n kernel_pin.simps) simp
  then show ?thesis by (rule fh_pin_pages_overflow) (simp_all add: n [simplified] vmalloc_bytes_def)
qed

subsection \<open>The host as the guest sees it\<close>

text \<open>
  What the guest relies on in any host: a served page differs only inside the page, the
  action word stays, and the turn is with one of the two sides.
\<close>

locale fault_service =
  fixes serve :: "'h serve" and page_bytes :: nat
  assumes serve_outside: "serve h m = Ret (h', m') \<Longrightarrow> page_bytes \<le> a \<Longrightarrow> m' a = m a"
    and serve_action: "serve h m = Ret (h', m') \<Longrightarrow> ld 8 m' F_action = ld 8 m F_action"
    and serve_turn: "serve h m = Ret (h', m') \<Longrightarrow> ld 8 m F_turn = turn_code FH_TURN_HOST \<Longrightarrow>
      ld 8 m' F_turn = turn_code FH_TURN_HOST \<or> ld 8 m' F_turn = turn_code FH_TURN_GUEST"
begin

lemma faulthook_result:
  assumes "fh_do_faulthook serve action g = Ret (r, g')" "8 \<le> page_bytes"
  shows "r = 0 \<and> ld 8 (fd_data g') F_turn = turn_code FH_TURN_GUEST
      \<or> r = - ENXIO \<and> ld 8 (fd_data g') F_turn = turn_code FH_TURN_HOST"
    and "ld 8 (fd_data g') F_action = action_code action" "ld 8 (fd_data g') F_nonce = fh_nonce g + 1"
    and "\<And>a. max page_bytes 24 \<le> a \<Longrightarrow> fd_data g' a = fd_data g a"
proof -
  let ?m = "st 8 (st 8 (fd_data g) F_turn (turn_code FH_TURN_HOST)) F_action (action_code action)"
  obtain h m1 where s: "serve (host g) ?m = Ret (h, m1)"
    and g': "fd_data g' = st 8 m1 F_nonce (fh_nonce g + 1)"
      "r = (if ld 8 m1 F_turn \<noteq> turn_code FH_TURN_GUEST then - ENXIO else 0)"
    using assms(1) by (auto simp: fh_do_faulthook_def Let_def outcome_simps mem_simps)
  have "ld 8 ?m F_turn = turn_code FH_TURN_HOST" "ld 8 ?m F_action = action_code action"
    by (simp_all add: mem_simps)
  then show "r = 0 \<and> ld 8 (fd_data g') F_turn = turn_code FH_TURN_GUEST
      \<or> r = - ENXIO \<and> ld 8 (fd_data g') F_turn = turn_code FH_TURN_HOST"
    "ld 8 (fd_data g') F_action = action_code action" "ld 8 (fd_data g') F_nonce = fh_nonce g + 1"
    using serve_turn [OF s] serve_action [OF s] g' by (auto simp: mem_simps)
  show "fd_data g' a = fd_data g a" if "max page_bytes 24 \<le> a" for a
    using serve_outside [OF s, of a] that by (simp add: g' mem_simps)
qed

end

lemma faulthook_keeps:
  "fh_do_faulthook serve a g = Ret (r, g') \<Longrightarrow> faultdata_lock g' = faultdata_lock g
    \<and> fvp_escape_size g' = fvp_escape_size g \<and> fh_nonce g' = fh_nonce g + 1"
  by (auto simp: fh_do_faulthook_def Let_def outcome_simps)

lemma locked [simp]: "faultdata_lock (fd_data_unlock g) = False"
  by (simp add: fd_data_unlock_def)

subsection \<open>Properties: the lock of the escape page\<close>


text \<open>Writing to the control device never returns. \<open>fh_char_ctrl_write\<close> takes the lock and ends by
  taking it again, on every path.\<close>

theorem fh_char_ctrl_write_never_returns:
  "fh_char_ctrl_write serve copy fd pos g \<noteq> Ret x"
proof -
  have "fd_data_lock g2 \<noteq> Ret g3" if "faultdata_lock g2" for g2 g3 :: "'a guest_state"
    using that by (simp add: fd_data_lock_def)
  then show ?thesis
    by (auto simp: fh_char_ctrl_write_def fd_data_lock_def outcome_simps Let_def dest!: faulthook_keeps
        split: if_splits)
qed

text \<open>A host that answers every request with success.\<close>

definition demo_serve :: "unit serve" where
  "demo_serve h m = Ret (h, st 8 (st_long m D_ret 0) F_turn (turn_code FH_TURN_GUEST))"

definition demo_guest :: "unit guest_state" where
  "demo_guest = \<lparr>fd_data = (\<lambda>_. 0), fvp_escape_size = 0x10000, fh_nonce = 0, faultdata_lock = False, host = ()\<rparr>"

lemma demo_close_returns: "\<exists>r g'. fh_char_close demo_serve 3 demo_guest = Ret (r, g')"
  by (simp add: fh_char_close_def fd_data_lock_def demo_guest_def fh_do_faulthook_def demo_serve_def mem_simps)


end
