(* ===== verification/Sgdma_Stub.thy ===== *)
theory Sgdma_Stub
  imports Guest_Escape
begin

text \<open>
  The guest's DMA character device (\<open>xdma_stub/linux-kernel/xdma/cdev_sgdma.c\<close>): sending
  data larger than the page in chunks, the simulated PCI mapping that announces the pages to
  the monitor, reads and writes, the aperture ioctl and seeking.
\<close>

subsection \<open>Sending data to the host\<close>

text \<open>
  The \<open>do ... while\<close> loop of \<open>transfer_chunk_to_host\<close>: the value is the last return value
  of \<open>fh_do_faulthook\<close> and the state; \<open>None\<close> when the loop does not end (a host that
  answers with a chunk size of 0).
\<close>

partial_function (option) transfer_loop ::
  "'h serve \<Rightarrow> bytes \<Rightarrow> u64 \<Rightarrow> u64 \<Rightarrow> 'h guest_state \<Rightarrow> (int \<times> 'h guest_state) outcome option" where
  "transfer_loop serve data transfer_size size_remain g =
    (let transfer = min transfer_size size_remain;
         sent = length data - unat size_remain;
         remain = size_remain - transfer
     in if \<not> D_tr_chunk_data + unat transfer \<le> unat (fvp_escape_size g) then Some (Ub OutOfBounds)
        else
          let m1 = st_bytes (fd_data g) D_tr_chunk_data (take (unat transfer) (drop sent data));
              m2 = st_int (st 4 m1 D_tr_chunk_data_size transfer) D_tr_status (status_code status_transfer_data)
          in case fh_do_faulthook serve FH_ACTION_TRANSFER_ESCAPE_DATA (g\<lparr>fd_data := m2\<rparr>) of
               Ub u \<Rightarrow> Some (Ub u)
             | Ret (ret, g1) \<Rightarrow>
                if ret \<noteq> 0 then Some (Ret (ret, g1))
                else if ld_int (fd_data g1) D_tr_status = status_code status_ok \<and> 0 < remain
                then transfer_loop serve data transfer_size remain g1
                else Some (Ret (0, g1)))"

definition transfer_chunk_to_host ::
  "'h serve \<Rightarrow> bytes \<Rightarrow> u64 \<Rightarrow> 'h guest_state \<Rightarrow> (int \<times> 'h guest_state) outcome option" where
  "transfer_chunk_to_host serve data info_ctx g =
    (let size = of_nat (length data) :: u64
     in if size = 0 then Some (Ret (0, g))
        else
          let m1 = st 4 (st_int (fd_data g) D_tr_status (status_code status_transfer_size)) D_tr_total_size size;
              m2 = st 8 (st 4 m1 D_tr_chunk_size 0) D_tr_info_ctx info_ctx
          in case fh_do_faulthook serve FH_ACTION_TRANSFER_ESCAPE_DATA (g\<lparr>fd_data := m2\<rparr>) of
               Ub u \<Rightarrow> Some (Ub u)
             | Ret (ret, g1) \<Rightarrow>
                if ret \<noteq> 0 then Some (Ret (ret, g1))
                else map_option (\<lambda>r. obind r (\<lambda>(ret, g2).
                       if ld_int (fd_data g2) D_tr_status \<noteq> status_code status_ok then Ret (- 1, g2)
                       else Ret (ret, g2)))
                     (transfer_loop serve data (ld 4 (fd_data g1) D_tr_chunk_size) size g1))"

subsection \<open>Announcing the pages\<close>

text \<open>
  \<open>simulate_pci_dma\<close> builds a scatter list, one entry (frame, length, offset) per chunk, and
  calls \<open>dma_map_sg\<close> on it, which the interception module observes. The arguments say
  whether the allocations succeed; the value is the return value, the structure, and the list
  \<open>dma_map_sg\<close> was called on.
\<close>

definition simulate_pci_dma ::
  "bool \<Rightarrow> bool \<Rightarrow> bool \<Rightarrow> pin_pages_struct
     \<Rightarrow> int \<times> pin_pages_struct \<times> (u64 \<times> u64 \<times> u64) list option" where
  "simulate_pci_dma kmalloc_sgt sg_alloc kmalloc_dev pinned =
    (if \<not> kmalloc_sgt then (- ENOMEM, pinned, None)
     else if \<not> sg_alloc then (- ENOMEM, pinned, None)
     else
       let sgl = map (\<lambda>c. (addr c, nbytes c, offset c)) (page_chunks pinned)
       in if \<not> kmalloc_dev then (- ENOMEM, pinned, None)
          else (0, pinned\<lparr>priv_data := Some sgl\<rparr>, Some sgl))"

definition simulate_pci_dma_cleanup :: "pin_pages_struct \<Rightarrow> pin_pages_struct" where
  "simulate_pci_dma_cleanup pinned =
    (if priv_data pinned = None then pinned else pinned\<lparr>priv_data := None\<rparr>)"

subsection \<open>Reads and writes\<close>

record kernel_dma = kernel_pin +
  sgt_ok :: bool
  sg_table_ok :: bool
  dev_ok :: bool

text \<open>
  The outcome of a read or write: the value returned, the scatter list announced, and the
  pages released.
\<close>

record dma_result =
  dr_ret :: int
  dr_sgl :: "(u64 \<times> u64 \<times> u64) list option"
  dr_put :: "u64 list"

definition dma_request :: "int \<Rightarrow> bool \<Rightarrow> bool \<Rightarrow> u64 \<Rightarrow> u64 \<Rightarrow> pin_pages_struct \<Rightarrow> mem \<Rightarrow> mem" where
  "dma_request fd do_write do_aperture phy_addr buf pinned m =
    (let m1 = st_int (st_int m D_dma_do_write (of_bool do_write)) D_fd fd;
         m2 = st 8 (st 8 m1 D_dma_phy_addr phy_addr) D_dma_len (pin_len pinned);
         m3 = st_int m2 D_dma_do_aperture (of_bool do_aperture)
     in st 8 (st 8 m3 D_dma_pages_nr (pages_nr pinned)) D_dma_user_buf buf)"

definition char_sgdma_read_write ::
  "'h serve \<Rightarrow> kernel_dma \<Rightarrow> int \<Rightarrow> u64 \<Rightarrow> u64 \<Rightarrow> u64 \<Rightarrow> bool \<Rightarrow> bool \<Rightarrow> 'h guest_state
     \<Rightarrow> (dma_result \<times> 'h guest_state) outcome option" where
  "char_sgdma_read_write serve k fd buf count phy_addr do_write do_aperture g =
    (case fh_pin_pages (kernel_pin.truncate k) buf count of
       Ub u \<Rightarrow> Some (Ub u)
     | Ret (ret, None, put) \<Rightarrow> Some (Ret (\<lparr>dr_ret = ret, dr_sgl = None, dr_put = put\<rparr>, g))
     | Ret (_, Some pinned0, _) \<Rightarrow>
        (case simulate_pci_dma (sgt_ok k) (sg_table_ok k) (dev_ok k) pinned0 of (_, pinned, sgl) \<Rightarrow>
          if of_nat sizeof_action_dma + pages_nr pinned * 24 > fvp_escape_size g
          then Some (Ret (\<lparr>dr_ret = - ENOMEM, dr_sgl = sgl, dr_put = []\<rparr>, g))
          else case fd_data_lock g of
            Ub u \<Rightarrow> Some (Ub u)
          | Ret g1 \<Rightarrow>
             let fin = (\<lambda>ret g2. Ret (\<lparr>dr_ret = ret, dr_sgl = sgl,
                            dr_put = fh_unpin_pages (Some (simulate_pci_dma_cleanup pinned))\<rparr>, fd_data_unlock g2))
             in map_option (\<lambda>r. obind r (\<lambda>(ret, g2).
                  if ret < 0 then fin ret g2
                  else obind (fh_do_faulthook serve FH_ACTION_DMA
                               (upd_page (dma_request fd do_write do_aperture phy_addr buf pinned) g2)) (\<lambda>(ret, g3).
                    if ret < 0 then fin ret g3
                    else if ld_long (fd_data g3) D_ret < 0 then fin (ld_int (fd_data g3) D_err_no) g3
                    else fin (sint (word_of_int (ld_long (fd_data g3) D_ret) :: u32)) g3)))
                (transfer_chunk_to_host serve (concat (map chunk_bytes (page_chunks pinned)))
                   (action_code FH_ACTION_DMA) g1)))"

definition char_sgdma_write ::
  "'h serve \<Rightarrow> kernel_dma \<Rightarrow> int \<Rightarrow> u64 \<Rightarrow> u64 \<Rightarrow> u64 \<Rightarrow> 'h guest_state \<Rightarrow> (dma_result \<times> 'h guest_state) outcome option" where
  "char_sgdma_write serve k fd buf count pos g = char_sgdma_read_write serve k fd buf count pos True False g"

definition char_sgdma_read ::
  "'h serve \<Rightarrow> kernel_dma \<Rightarrow> int \<Rightarrow> u64 \<Rightarrow> u64 \<Rightarrow> u64 \<Rightarrow> 'h guest_state \<Rightarrow> (dma_result \<times> 'h guest_state) outcome option" where
  "char_sgdma_read serve k fd buf count pos g = char_sgdma_read_write serve k fd buf count pos False False g"

text \<open>
  The aperture ioctl: \<open>cb\<close> is cleared and its \<open>count\<close> is never set, so the transfer is
  started with a count of 0 whatever \<open>io.len\<close> says. The value is the one returned and the new
  \<open>error\<close> and \<open>done\<close> fields of the user's structure.
\<close>

record xdma_aperture_ioctl =
  io_buffer :: u64
  io_len :: u64
  io_ep_addr :: u64
  io_error :: int
  io_done :: u64

definition ioctl_do_aperture_dma ::
  "'h serve \<Rightarrow> kernel_dma \<Rightarrow> int \<Rightarrow> xdma_aperture_ioctl \<Rightarrow> bool \<Rightarrow> 'h guest_state
     \<Rightarrow> (int \<times> xdma_aperture_ioctl \<times> 'h guest_state) outcome option" where
  "ioctl_do_aperture_dma serve k fd io write g =
    (let cb_count = 0
     in map_option (\<lambda>r. obind r (\<lambda>(res, g1).
          let rv = dr_ret res;
              io1 = io\<lparr>io_error := rv\<rparr>;
              io2 = (if rv > 0 then io1\<lparr>io_done := word_of_int rv\<rparr> else io1)
          in Ret (rv, io2, g1)))
        (char_sgdma_read_write serve k fd (io_buffer io) cb_count (io_ep_addr io) write True g))"

datatype sgdma_cmd = IOCTL_XDMA_APERTURE_R | IOCTL_XDMA_APERTURE_W | IOCTL_OTHER u64

definition char_sgdma_ioctl ::
  "'h serve \<Rightarrow> kernel_dma \<Rightarrow> int \<Rightarrow> sgdma_cmd \<Rightarrow> xdma_aperture_ioctl \<Rightarrow> 'h guest_state
     \<Rightarrow> (int \<times> xdma_aperture_ioctl \<times> 'h guest_state) outcome option" where
  "char_sgdma_ioctl serve k fd cmd io g =
    (case cmd of
       IOCTL_XDMA_APERTURE_R \<Rightarrow> ioctl_do_aperture_dma serve k fd io False g
     | IOCTL_XDMA_APERTURE_W \<Rightarrow> ioctl_do_aperture_dma serve k fd io True g
     | IOCTL_OTHER _ \<Rightarrow> Some (Ret (- EINVAL, io, g)))"

text \<open>\<open>char_sgdma_llseek\<close> on 64-bit offsets: the value and the new file position.\<close>

definition char_sgdma_llseek :: "u64 \<Rightarrow> u64 \<Rightarrow> int \<Rightarrow> int \<times> u64" where
  "char_sgdma_llseek f_pos off whence =
    (let result = (\<lambda>newpos. if sint (newpos :: u64) < 0 then (- EINVAL, f_pos) else (sint newpos, newpos))
     in if whence = 0 then result off
        else if whence = 1 then result (f_pos + off)
        else if whence = 2 then result (0xFFFFFFFF + off)
        else (- EINVAL, f_pos))"

subsection \<open>A request that reaches the host\<close>

lemma simulate_keeps:
  assumes "simulate_pci_dma a b c p0 = (r, p, sgl)"
  shows "page_chunks p = page_chunks p0" "pages_nr p = pages_nr p0"
    "dma_request fd wr ap pos buf p = dma_request fd wr ap pos buf p0"
    "fh_unpin_pages (Some (simulate_pci_dma_cleanup p)) = fh_unpin_pages (Some p0)"
  using assms by (auto simp: simulate_pci_dma_def Let_def simulate_pci_dma_cleanup_def fh_unpin_pages_def
      dma_request_def fun_eq_iff split: if_splits option.splits)

lemma char_sgdma_read_write_done:
  assumes "fh_pin_pages (kernel_pin.truncate k) buf count = Ret (0, Some p0, [])" "\<not> faultdata_lock g"
    and "\<not> of_nat sizeof_action_dma + pages_nr p0 * 24 > fvp_escape_size g"
    and "transfer_chunk_to_host serve (concat (map chunk_bytes (page_chunks p0))) (action_code FH_ACTION_DMA)
      (g\<lparr>faultdata_lock := True\<rparr>) = Some (Ret (0, g2))"
    and "fh_do_faulthook serve FH_ACTION_DMA (upd_page (dma_request fd wr ap pos buf p0) g2) = Ret (r, g3)"
    and "ld_long (fd_data g3) D_ret = ret" "0 \<le> r \<longrightarrow> 0 \<le> ret" "ret < 2 ^ 31"
  shows "\<exists>sgl. char_sgdma_read_write serve k fd buf count pos wr ap g =
    Some (Ret (\<lparr>dr_ret = if r < 0 then r else ret, dr_sgl = sgl, dr_put = fh_unpin_pages (Some p0)\<rparr>,
      fd_data_unlock g3))"
proof -
  obtain x p sgl where sim: "simulate_pci_dma (sgt_ok k) (sg_table_ok k) (dev_ok k) p0 = (x, p, sgl)"
    by (metis prod_cases3)
  note keep = simulate_keeps [OF sim]
  have "0 \<le> ret \<Longrightarrow> sint (word_of_int ret :: u32) = ret" using assms(8) by (simp add: sint_word_of_int)
  then show ?thesis
    using assms unfolding char_sgdma_read_write_def
    by (auto simp: sim keep fd_data_lock_def simp del: sizeof_action_dma_def)
qed

subsection \<open>A host that receives data\<close>

text \<open>
  The contract of the transfer protocol. \<open>pending\<close> is what the host has collected: the
  purpose, the announced length and the bytes so far. A size request of an acceptable size
  starts a collection and tells the largest chunk \<open>cap\<close>; a data request that fits is appended.
\<close>

locale transfer_host = fault_service serve page_bytes
  for serve :: "'h serve" and page_bytes :: nat +
  fixes inv :: "'h \<Rightarrow> bool"
    and pending :: "'h \<Rightarrow> (u64 \<times> nat \<times> bytes) option"
    and cap :: u64
    and accepts :: "u64 \<Rightarrow> bool"
  assumes cap_pos: "0 < cap" "unat cap < 2 ^ 32"
    and handshake: "inv h \<Longrightarrow> ld 8 m F_turn = turn_code FH_TURN_HOST \<Longrightarrow>
      ld 8 m F_action = action_code FH_ACTION_TRANSFER_ESCAPE_DATA \<Longrightarrow>
      ld_int m D_tr_status = status_code status_transfer_size \<Longrightarrow>
      \<exists>h' m'. serve h m = Ret (h', m') \<and>
        (ld 8 m' F_turn = turn_code FH_TURN_GUEST \<longleftrightarrow> accepts (ld 4 m D_tr_total_size)) \<and>
        (accepts (ld 4 m D_tr_total_size) \<longrightarrow> inv h' \<and>
           pending h' = Some (ld 8 m D_tr_info_ctx, unat (ld 4 m D_tr_total_size), [])
           \<and> ld 4 m' D_tr_chunk_size = cap)"
    and chunk: "inv h \<Longrightarrow> ld 8 m F_turn = turn_code FH_TURN_HOST \<Longrightarrow>
      ld 8 m F_action = action_code FH_ACTION_TRANSFER_ESCAPE_DATA \<Longrightarrow>
      ld_int m D_tr_status = status_code status_transfer_data \<Longrightarrow>
      pending h = Some (i, n, bs) \<Longrightarrow> ld 4 m D_tr_chunk_data_size \<le> cap \<Longrightarrow>
      length bs + unat (ld 4 m D_tr_chunk_data_size) \<le> n \<Longrightarrow>
      \<exists>h' m'. serve h m = Ret (h', m') \<and> inv h' \<and> ld 8 m' F_turn = turn_code FH_TURN_GUEST
        \<and> ld_int m' D_tr_status = status_code status_ok
        \<and> pending h' = Some (i, n, bs @ ld_bytes m D_tr_chunk_data (unat (ld 4 m D_tr_chunk_data_size)))"
begin

text \<open>One round of the loop appends the next piece of the data.\<close>

lemma send_piece:
  assumes "inv (host g)" "pending (host g) = Some (i, n, bs)" "unat t = length piece" "t \<le> cap"
    and "length bs + length piece \<le> n"
    and "m2 = st_int (st 4 (st_bytes (fd_data g) D_tr_chunk_data piece) D_tr_chunk_data_size t)
           D_tr_status (status_code status_transfer_data)"
  shows "\<exists>g1. fh_do_faulthook serve FH_ACTION_TRANSFER_ESCAPE_DATA (g\<lparr>fd_data := m2\<rparr>) = Ret (0, g1)
    \<and> inv (host g1) \<and> pending (host g1) = Some (i, n, bs @ piece)
    \<and> ld_int (fd_data g1) D_tr_status = status_code status_ok
    \<and> faultdata_lock g1 = faultdata_lock g \<and> fvp_escape_size g1 = fvp_escape_size g"
proof -
  let ?m = "st 8 (st 8 m2 F_turn (turn_code FH_TURN_HOST)) F_action
    (action_code FH_ACTION_TRANSFER_ESCAPE_DATA)"
  have "unat t < 2 ^ (8 * 4)" using assms(4) cap_pos(2) by (simp add: word_le_nat_alt)
  then have t: "ld 4 ?m D_tr_chunk_data_size = t"
    by (simp add: assms(6) mem_simps take_bit_small)
  have "ld 8 ?m F_turn = turn_code FH_TURN_HOST"
    "ld 8 ?m F_action = action_code FH_ACTION_TRANSFER_ESCAPE_DATA"
    "ld_int ?m D_tr_status = status_code status_transfer_data"
    "ld_bytes ?m D_tr_chunk_data (unat t) = piece"
    by (simp_all add: assms(3,6) mem_simps)
  with chunk [OF assms(1), of ?m i n bs] obtain h' m' where
    "serve (host g) ?m = Ret (h', m')" "inv h'" "ld 8 m' F_turn = turn_code FH_TURN_GUEST"
    "ld_int m' D_tr_status = status_code status_ok" "pending h' = Some (i, n, bs @ piece)"
    using assms(2-5) t by auto
  then show ?thesis by (simp add: fh_do_faulthook_def Let_def mem_simps)
qed

lemma transfer_loop_sends:
  assumes "inv (host g)" "pending (host g) = Some (i, length data, take (length data - unat rem) data)"
    and "0 < rem" "unat rem \<le> length data" "40 + length data \<le> unat (fvp_escape_size g)"
  shows "\<exists>g'. transfer_loop serve data cap rem g = Some (Ret (0, g'))
    \<and> inv (host g') \<and> pending (host g') = Some (i, length data, data)
    \<and> ld_int (fd_data g') D_tr_status = status_code status_ok
    \<and> faultdata_lock g' = faultdata_lock g \<and> fvp_escape_size g' = fvp_escape_size g"
  using assms
proof (induction "unat rem" arbitrary: rem g rule: less_induct)
  case less
  define t where "t = min cap rem"
  define sent where "sent = length data - unat rem"
  define piece where "piece = take (unat t) (drop sent data)"
  define m2 where "m2 = st_int (st 4 (st_bytes (fd_data g) D_tr_chunk_data piece) D_tr_chunk_data_size t)
    D_tr_status (status_code status_transfer_data)"
  have t: "t \<le> cap" "t \<le> rem" "0 < t" using cap_pos(1) less.prems(3) by (auto simp: t_def min_def)
  then have ut: "unat t \<le> unat rem" "0 < unat t" by (simp_all add: word_le_nat_alt word_less_nat_alt)
  have piece: "unat t = length piece" "length (take sent data) + length piece \<le> length data"
    using ut less.prems(4) by (auto simp: piece_def sent_def)
  obtain g1 where g1: "fh_do_faulthook serve FH_ACTION_TRANSFER_ESCAPE_DATA (g\<lparr>fd_data := m2\<rparr>) = Ret (0, g1)"
    "inv (host g1)" "pending (host g1) = Some (i, length data, take sent data @ piece)"
    "ld_int (fd_data g1) D_tr_status = status_code status_ok"
    "faultdata_lock g1 = faultdata_lock g" "fvp_escape_size g1 = fvp_escape_size g"
    using send_piece [OF less.prems(1,2) piece(1) t(1) _ m2_def] piece(2) sent_def by auto
  have r: "unat (rem - t) = unat rem - unat t" using t(2) by (rule unat_sub)
  have nxt: "take sent data @ piece = take (length data - unat (rem - t)) data"
    using ut less.prems(4) by (simp add: piece_def r sent_def take_add [symmetric])
  have room: "D_tr_chunk_data + unat t \<le> unat (fvp_escape_size g)"
    using ut(1) less.prems(4,5) by simp
  have step: "transfer_loop serve data cap rem g =
      (if 0 < rem - t then transfer_loop serve data cap (rem - t) g1 else Some (Ret (0, g1)))"
    using g1(1,4) room unfolding m2_def piece_def sent_def t_def
    by (subst transfer_loop.simps) (simp add: Let_def)
  show ?case
  proof (cases "0 < rem - t")
    case True
    have "unat (rem - t) < unat rem" using ut r by simp
    then show ?thesis
      using less.hyps [of "rem - t" g1] g1 True nxt less.prems(4,5) r ut by (simp add: step)
  next
    case False
    then have "unat (rem - t) = 0" by (simp add: word_less_nat_alt)
    then show ?thesis using False g1 nxt by (simp add: step)
  qed
qed

lemma transfer_chunk_to_host_sends:
  assumes "inv (host g)" "data \<noteq> []" "length data < 2 ^ 32"
    and "40 + length data \<le> unat (fvp_escape_size g)"
  shows "\<exists>r g'. transfer_chunk_to_host serve data info_ctx g = Some (Ret (r, g'))
    \<and> faultdata_lock g' = faultdata_lock g \<and> fvp_escape_size g' = fvp_escape_size g
    \<and> r = (if accepts (of_nat (length data)) then 0 else - ENXIO)
    \<and> (accepts (of_nat (length data)) \<longrightarrow> inv (host g') \<and> pending (host g') = Some (info_ctx, length data, data))"
proof -
  define m2 where "m2 = st 8 (st 4 (st 4 (st_int (fd_data g) D_tr_status (status_code status_transfer_size))
    D_tr_total_size (of_nat (length data))) D_tr_chunk_size 0) D_tr_info_ctx info_ctx"
  let ?m = "st 8 (st 8 m2 F_turn (turn_code FH_TURN_HOST)) F_action
    (action_code FH_ACTION_TRANSFER_ESCAPE_DATA)"
  have n: "unat (of_nat (length data) :: u64) = length data"
    using assms(3) by (simp add: unat_of_nat)
  then have sz: "(of_nat (length data) :: u64) \<noteq> 0" using assms(2) by (metis length_0_conv unsigned_0)
  have "ld 4 ?m D_tr_total_size = of_nat (length data)"
    using assms(3) n by (simp add: m2_def mem_simps take_bit_small)
  moreover have "ld 8 ?m F_turn = turn_code FH_TURN_HOST"
    "ld 8 ?m F_action = action_code FH_ACTION_TRANSFER_ESCAPE_DATA"
    "ld_int ?m D_tr_status = status_code status_transfer_size" "ld 8 ?m D_tr_info_ctx = info_ctx"
    by (simp_all add: m2_def mem_simps)
  ultimately obtain h' m' where h: "serve (host g) ?m = Ret (h', m')"
    "ld 8 m' F_turn = turn_code FH_TURN_GUEST \<longleftrightarrow> accepts (of_nat (length data))"
    "accepts (of_nat (length data)) \<longrightarrow> inv h' \<and>
       pending h' = Some (info_ctx, length data, []) \<and> ld 4 m' D_tr_chunk_size = cap"
    using handshake [OF assms(1), of ?m] n by auto
  define g1 where "g1 = g\<lparr>fd_data := st 8 m' F_nonce (fh_nonce g + 1), fh_nonce := fh_nonce g + 1, host := h'\<rparr>"
  have hook: "fh_do_faulthook serve FH_ACTION_TRANSFER_ESCAPE_DATA (g\<lparr>fd_data := m2\<rparr>) =
      Ret (if ld 8 m' F_turn \<noteq> turn_code FH_TURN_GUEST then - ENXIO else 0, g1)"
    using h(1) by (simp add: fh_do_faulthook_def Let_def g1_def mem_simps)
  show ?thesis
  proof (cases "ld 8 m' F_turn = turn_code FH_TURN_GUEST")
    case False
    then have "transfer_chunk_to_host serve data info_ctx g = Some (Ret (- ENXIO, g1))"
      unfolding transfer_chunk_to_host_def Let_def m2_def [symmetric] hook using sz by simp
    then show ?thesis using h(2) False by (simp add: g1_def)
  next
    case True
    then have "inv (host g1)" "pending (host g1) = Some (info_ctx, length data, take (length data - length data) data)"
      "ld 4 (fd_data g1) D_tr_chunk_size = cap"
      using h by (simp_all add: g1_def mem_simps)
    moreover have "0 < (of_nat (length data) :: u64)" using sz by (simp add: word_neq_0_conv [symmetric])
    ultimately obtain g' where g': "transfer_loop serve data cap (of_nat (length data)) g1 = Some (Ret (0, g'))"
      "inv (host g')" "pending (host g') = Some (info_ctx, length data, data)"
      "ld_int (fd_data g') D_tr_status = status_code status_ok"
      "faultdata_lock g' = faultdata_lock g1" "fvp_escape_size g' = fvp_escape_size g1"
      using transfer_loop_sends [of g1 info_ctx data "of_nat (length data)"] assms(4) n by (auto simp: g1_def)
    have "transfer_chunk_to_host serve data info_ctx g = Some (Ret (0, g'))"
      unfolding transfer_chunk_to_host_def Let_def m2_def [symmetric] hook
      using True sz g' \<open>ld 4 (fd_data g1) D_tr_chunk_size = cap\<close> by simp
    then show ?thesis using g' h(2) True by (simp add: g1_def)
  qed
qed

end

end
