(* ===== verification/Escape_Link.thy ===== *)
theory Escape_Link
  imports Fpga_Comm Sgdma_Stub Fh_Host
begin

text \<open>
  The guest driver linked with the host manager: the manager's fault handler is the service
  that the guest's escapes reach, and the two halves of the transfer protocol fit together.
\<close>

subsection \<open>The manager as fault service\<close>

text \<open>
  \<open>_on_fault\<close> of \<open>usr_manager.c\<close> as the listener of the loop in \<open>fh_host.c\<close>. A listener
  that returns a value other than 0 ends the loop; the manager then shuts down, the faulthook is
  switched off and later writes of the guest reach nobody.
\<close>

record manager =
  listening :: bool
  comm :: host_state

definition on_fault_listener :: "host_os \<Rightarrow> u32 \<Rightarrow> ctx_struct \<Rightarrow> int \<Rightarrow> host_state \<Rightarrow> (int \<times> host_state) outcome" where
  "on_fault_listener os pid ctx errno0 h = on_fault os pid ctx errno0 h"

definition fpga_serve :: "host_os \<Rightarrow> u32 \<Rightarrow> ctx_struct \<Rightarrow> int \<Rightarrow> manager serve" where
  "fpga_serve os pid ctx errno0 h m =
    (if \<not> listening h then Ret (h, m)
     else obind (on_fault_listener os pid ctx errno0 ((comm h)\<lparr>page := m\<rparr>)) (\<lambda>(ret, c).
       Ret (\<lparr>listening = (ret = 0), comm = c\<rparr>, page c)))"

text \<open>
  The loop of \<open>fh_host.c\<close>, for one event, on the same listener: it goes on exactly when the
  manager keeps listening, provided the completion of the hook does not fail.
\<close>

lemma fpga_serve_loop:
  assumes "on_fault os pid ctx e c = Ret (ret, c')" "fst (complete c') \<ge> 0"
  shows "fh_fault_handler True (\<lambda>c. case on_fault os pid ctx e c of Ret r \<Rightarrow> r | Ub _ \<Rightarrow> (- 1, c)) complete [PollEv True] c =
    (if ret = 0 then (Running, snd (complete c')) else (ListenerFailed ret, c'))"
  using assms by (cases "complete c'") simp

lemma fpga_serve_shape:
  assumes "fpga_serve os pid ctx e h m = Ret (h', m')"
  shows "\<exists>m1. reply_only m m1 \<and> (m' = m1 \<or> m' = st 8 m1 F_turn (turn_code FH_TURN_GUEST))"
proof (cases "listening h")
  case False
  then have "m' = m" using assms by (simp add: fpga_serve_def)
  then show ?thesis using reply_only_refl by blast
next
  case True
  then obtain r where r: "on_fault os pid ctx e ((comm h)\<lparr>page := m\<rparr>) = Ret (r, comm h')" "m' = page (comm h')"
    using assms by (auto simp: fpga_serve_def on_fault_listener_def outcome_simps)
  show ?thesis
  proof (cases "ld 8 m F_turn = turn_code FH_TURN_HOST")
    case True
    then obtain s1 where "keeps ((comm h)\<lparr>page := m\<rparr>) s1" "(r, comm h') = hand_over s1 \<or> r < 0 \<and> comm h' = s1"
      using on_fault_shape [OF _ r(1)] by auto
    then show ?thesis using r(2) by (intro exI [of _ "page s1"]) (auto simp: keeps_def hand_over_def)
  next
    case False
    then have "(comm h)\<lparr>page := m\<rparr> = comm h'" using r(1) by (simp add: on_fault_def)
    then have "m' = m" using r(2) by (metis host_state.select_convs(1) host_state.surjective
          host_state.update_convs(1))
    then show ?thesis using reply_only_refl by blast
  qed
qed

lemma fpga_serve_frame:
  assumes "fpga_serve os pid ctx e h m = Ret (h', m')"
  shows "unat ESCAPE_PAGE_SIZE \<le> a \<longrightarrow> m' a = m a" "ld 8 m' F_action = ld 8 m F_action"
    and "ld 8 m F_turn = turn_code FH_TURN_HOST \<longrightarrow>
      ld 8 m' F_turn = turn_code FH_TURN_HOST \<or> ld 8 m' F_turn = turn_code FH_TURN_GUEST"
proof -
  obtain m1 where m1: "reply_only m m1" "m' = m1 \<or> m' = st 8 m1 F_turn (turn_code FH_TURN_GUEST)"
    using fpga_serve_shape [OF assms] by blast
  have "ld 8 m1 a = ld 8 m a" if "a + 8 \<le> 32" for a using reply_only_ld [OF m1(1)] that by simp
  then show "ld 8 m' F_action = ld 8 m F_action"
    "ld 8 m F_turn = turn_code FH_TURN_HOST \<longrightarrow>
      ld 8 m' F_turn = turn_code FH_TURN_HOST \<or> ld 8 m' F_turn = turn_code FH_TURN_GUEST"
    using m1(2) by (auto simp: mem_simps)
  show "unat ESCAPE_PAGE_SIZE \<le> a \<longrightarrow> m' a = m a"
    using m1 by (auto simp: mem_simps page_size_val reply_only_def)
qed

interpretation fpga: fault_service "fpga_serve os pid ctx e" "unat ESCAPE_PAGE_SIZE"
  for os pid ctx e
  by unfold_locales (metis fpga_serve_frame)+

text \<open>Once the loop has ended, nobody answers.\<close>

lemma fpga_deaf:
  "\<not> listening (host g) \<Longrightarrow>
   \<exists>g'. fh_do_faulthook (fpga_serve os pid ctx e) action g = Ret (- ENXIO, g') \<and> host g' = host g"
  by (simp add: fh_do_faulthook_def fpga_serve_def Let_def mem_simps)

subsection \<open>The manager as receiver of data\<close>

definition fpga_pending :: "host_state \<Rightarrow> (u64 \<times> nat \<times> bytes) option" where
  "fpga_pending h = map_option (\<lambda>(n, b). (action_transfer_data_info_ctx h, n,
     ld_bytes b 0 (unat (action_transfer_data_chunk h)))) (action_transfer_data_ptr h)"

definition fpga_accepts :: "host_os \<Rightarrow> u64 \<Rightarrow> bool" where
  "fpga_accepts os n \<longleftrightarrow> sys_malloc os n \<noteq> None"

text \<open>
  The invariant of a receiving manager: it listens, the buffer is in order and no system call
  was made.
\<close>

definition receiving :: "syscall list \<Rightarrow> manager \<Rightarrow> bool" where
  "receiving log h \<longleftrightarrow> listening h \<and> buffer_ok (comm h) \<and> issued (comm h) = log"

lemma transfer_issues_nothing:
  "do_action_transfer_escape_data os ctx s = Ret (r, s') \<Longrightarrow> issued s' = issued s"
  by (auto simp: do_action_transfer_escape_data_def Let_def outcome_simps split: if_splits)

lemma fpga_handshake:
  assumes "receiving log h" "ld 8 m F_turn = turn_code FH_TURN_HOST"
    and "ld 8 m F_action = action_code FH_ACTION_TRANSFER_ESCAPE_DATA"
    and "ld_int m D_tr_status = status_code status_transfer_size"
  shows "\<exists>h' m'. fpga_serve os pid ctx e h m = Ret (h', m') \<and>
    (ld 8 m' F_turn = turn_code FH_TURN_GUEST \<longleftrightarrow> fpga_accepts os (ld 4 m D_tr_total_size)) \<and>
    (fpga_accepts os (ld 4 m D_tr_total_size) \<longrightarrow> receiving log h' \<and>
       fpga_pending (comm h') = Some (ld 8 m D_tr_info_ctx, unat (ld 4 m D_tr_total_size), [])
       \<and> ld 4 m' D_tr_chunk_size = transfer_max ctx)"
proof -
  let ?s = "(comm h)\<lparr>page := m\<rparr>"
  have "\<exists>r s1. do_action_transfer_escape_data os ctx ?s = Ret (r, s1)"
    using assms(4) by (auto simp: do_action_transfer_escape_data_def Let_def)
  then obtain r s1 where d: "do_action_transfer_escape_data os ctx ?s = Ret (r, s1)"
    by blast
  then have "buffer_ok s1" "issued s1 = log"
    using buffer_ok_step [OF _ d] transfer_issues_nothing [OF d] assms(1) by (simp_all add: receiving_def)
  moreover have "ld 4 (page s1) D_tr_chunk_size = transfer_max ctx"
    using d assms(4) by (auto simp: do_action_transfer_escape_data_def Let_def mem_simps take_bit_small
        transfer_max_val split: if_splits)
  moreover have "if fpga_accepts os (ld 4 m D_tr_total_size)
      then r = 0 \<and> fpga_pending s1 = Some (ld 8 m D_tr_info_ctx, unat (ld 4 m D_tr_total_size), [])
      else r < 0 \<and> ld 8 (page s1) F_turn = turn_code FH_TURN_HOST"
    using d assms(2,4) by (auto simp: do_action_transfer_escape_data_def Let_def mem_simps malloc_def
        fpga_pending_def fpga_accepts_def split: if_splits)
  moreover have "on_fault os pid ctx e ?s = Ret (or_return (r, s1))"
    using d assms(2,3) by (subst on_fault_transfer) simp_all
  ultimately show ?thesis
    using assms(1) unfolding fpga_serve_def on_fault_listener_def
    by (auto simp: or_return_def hand_over_def mem_simps fpga_pending_def receiving_def buffer_ok_def
        split: if_splits)
qed

lemma fpga_chunk:
  assumes "receiving log h" "ld 8 m F_turn = turn_code FH_TURN_HOST"
    and "ld 8 m F_action = action_code FH_ACTION_TRANSFER_ESCAPE_DATA"
    and "ld_int m D_tr_status = status_code status_transfer_data"
    and "fpga_pending (comm h) = Some (i, n, bs)" "ld 4 m D_tr_chunk_data_size \<le> transfer_max ctx"
    and "length bs + unat (ld 4 m D_tr_chunk_data_size) \<le> n"
  shows "\<exists>h' m'. fpga_serve os pid ctx e h m = Ret (h', m') \<and> receiving log h'
    \<and> ld 8 m' F_turn = turn_code FH_TURN_GUEST \<and> ld_int m' D_tr_status = status_code status_ok
    \<and> fpga_pending (comm h') = Some (i, n, bs @ ld_bytes m D_tr_chunk_data (unat (ld 4 m D_tr_chunk_data_size)))"
proof -
  let ?t = "ld 4 m D_tr_chunk_data_size" and ?s = "(comm h)\<lparr>page := m\<rparr>"
  let ?c = "action_transfer_data_chunk (comm h)"
  obtain b where b: "action_transfer_data_ptr (comm h) = Some (n, b)"
    "i = action_transfer_data_info_ctx (comm h)" "bs = ld_bytes b 0 (unat ?c)"
    using assms(5) by (auto simp: fpga_pending_def)
  have fits: "unat ?c + unat ?t \<le> n" using assms(7) b(3) by simp
  define p where "p = Some (n, st_bytes b (unat ?c) (ld_bytes m D_tr_chunk_data (unat ?t)))"
  define s1 where "s1 = ?s\<lparr>action_transfer_data_ptr := p, action_transfer_data_chunk := ?c + ?t,
    page := st_int m D_tr_status (status_code status_ok)\<rparr>"
  have d: "do_action_transfer_escape_data os ctx ?s = Ret (0, s1)"
    using transfer_chunk_effect [of ?s n b ?t ctx os] assms(1,4,6) b(1) fits
    by (simp add: s1_def p_def min_def receiving_def)
  have "buffer_ok s1" "issued s1 = log"
    using buffer_ok_step [OF _ d] transfer_issues_nothing [OF d] assms(1) by (simp_all add: receiving_def)
  moreover have "unat (?c + ?t) = unat ?c + unat ?t"
    using assms(1) fits b(1) by (simp add: receiving_def buffer_ok_def unat_word_ariths)
  then have "ld_bytes (st_bytes b (unat ?c) (ld_bytes m D_tr_chunk_data (unat ?t))) 0 (unat (?c + ?t)) =
      bs @ ld_bytes m D_tr_chunk_data (unat ?t)"
    using b(3) by (simp add: ld_bytes_append mem_simps)
  then have "fpga_pending s1 = Some (i, n, bs @ ld_bytes m D_tr_chunk_data (unat ?t))"
    using b(2) by (simp add: fpga_pending_def s1_def p_def)
  moreover have "on_fault os pid ctx e ?s = Ret (hand_over s1)"
    using d assms(2,3) by (subst on_fault_transfer) (simp_all add: or_return_def)
  ultimately show ?thesis
    using assms(1) unfolding fpga_serve_def on_fault_listener_def
    by (auto simp: hand_over_def mem_simps fpga_pending_def s1_def receiving_def buffer_ok_def)
qed

interpretation fpga_recv: transfer_host "fpga_serve os pid ctx e" "unat ESCAPE_PAGE_SIZE"
    "receiving log" "\<lambda>h. fpga_pending (comm h)" "transfer_max ctx" "fpga_accepts os"
  for os pid ctx e log
  using fpga_handshake fpga_chunk by unfold_locales (simp_all add: transfer_max_val)

subsection \<open>A DMA request of the guest at the host\<close>

text \<open>The request the host's device driver gets for a request page and a list of chunks.\<close>

definition driver_dma :: "u32 \<Rightarrow> ctx_struct \<Rightarrow> mem \<Rightarrow> page_chunk list \<Rightarrow> fh_host_ioctl_dma" where
  "driver_dma pid ctx m cs =
    \<lparr>dma_pid = pid, dma_phy_addr = ld 8 m D_dma_phy_addr, dma_do_write = ld_int m D_dma_do_write,
     dma_do_aperture = ld_int m D_dma_do_aperture, dma_user_buf = ld 8 m D_dma_user_buf,
     dma_len = ld 8 m D_dma_len, dma_chunks_nr = of_nat (length cs), dma_chunks = map (translated ctx) cs\<rparr>"

lemma pending_chunks:
  assumes "fpga_pending h = Some (i, 24 * length cs, concat (map chunk_bytes cs))"
  obtains b where "action_transfer_data_ptr h = Some (24 * length cs, b)"
    "action_transfer_data_info_ctx h = i" "map (chunk_at b) [0..<length cs] = cs"
proof -
  obtain b where b: "action_transfer_data_ptr h = Some (24 * length cs, b)"
    "action_transfer_data_info_ctx h = i"
    "ld_bytes b 0 (unat (action_transfer_data_chunk h)) = concat (map chunk_bytes cs)"
    using assms by (auto simp: fpga_pending_def)
  have "unat (action_transfer_data_chunk h) = 24 * length cs"
    using arg_cong [OF b(3), of length] length_concat_const [of "map chunk_bytes cs" 24] by simp
  then have "map (chunk_at b) [0..<length cs] = cs"
    using b(3) chunk_at_bytes [of b cs] by (intro nth_equalityI) simp_all
  with b that show ?thesis by blast
qed

text \<open>
  The handler on the request: the driver is called when all frames are mapped, otherwise the
  request fails and with it the loop of the manager.
\<close>

lemma fpga_dma_served:
  assumes "addr_map_ok ctx" "listening (host g)"
    and "fpga_pending (comm (host g)) = Some (action_code FH_ACTION_DMA, 24 * length cs, concat (map chunk_bytes cs))"
    and "length cs < 2 ^ 32" "ld 8 (fd_data g) D_dma_pages_nr = of_nat (length cs)"
    and "dma = driver_dma pid ctx (fd_data g) cs" "req = IocDma (ld_int (fd_data g) D_fd) dma"
    and "sys_call os (issued (comm (host g))) req = (ret, errno)" "- (2 ^ 31) \<le> ret" "ret < 2 ^ 31"
    and "ok \<longleftrightarrow> (\<forall>c \<in> set cs. vaddr_of ctx (addr c) \<noteq> 0)"
  shows "\<exists>g'. fh_do_faulthook (fpga_serve os pid ctx e) FH_ACTION_DMA g = Ret (if ok \<and> 0 \<le> ret then 0 else - ENXIO, g')
    \<and> issued (comm (host g')) = (if ok then issued (comm (host g)) @ [req] else issued (comm (host g)))
    \<and> listening (host g') = (ok \<and> 0 \<le> ret)
    \<and> ld_long (fd_data g') D_ret = (if ok then ret else - 1)
    \<and> buffer_ok (comm (host g')) \<and> fpga_pending (comm (host g')) = None
    \<and> faultdata_lock g' = faultdata_lock g \<and> fvp_escape_size g' = fvp_escape_size g"
proof -
  let ?m = "st 8 (st 8 (fd_data g) F_turn (turn_code FH_TURN_HOST)) F_action (action_code FH_ACTION_DMA)"
  let ?s = "(comm (host g))\<lparr>page := ?m\<rparr>"
  obtain b where b: "action_transfer_data_ptr ?s = Some (24 * length cs, b)"
    "action_transfer_data_info_ctx ?s = action_code FH_ACTION_DMA" "map (chunk_at b) [0..<length cs] = cs"
    using pending_chunks [OF assms(3)] by auto
  have n: "unat (of_nat (length cs) :: u64) = length cs" using assms(4) by (simp add: unat_of_nat)
  have same: "driver_dma pid ctx ?m cs = dma" "ld_int ?m D_fd = ld_int (fd_data g) D_fd"
    "ld 8 ?m D_dma_pages_nr = of_nat (length cs)"
    using assms(5,6) by (simp_all add: driver_dma_def mem_simps)
  have nr: "of_nat (length cs) = ld 8 (page ?s) D_dma_pages_nr" using same(3) by simp
  have len: "24 * unat (of_nat (length cs) :: u64) \<le> 24 * length cs" by (simp add: n)
  have cs: "cs = map (chunk_at b) [0..<unat (of_nat (length cs) :: u64)]" using b(3) by (simp only: n)
  have sc: "sys_call os (issued ?s) (IocDma (ld_int (page ?s) D_fd) (driver_dma pid ctx (page ?s) cs)) = (ret, errno)"
    using assms(7,8) same(1,2) by simp
  have d: "do_dma os pid ctx ?s e = Ret (if ok
      then (ret, do_action_transfer_escape_data_free (?s\<lparr>issued := issued (comm (host g)) @ [req],
              page := set_ret_and_err_no ?m ret errno\<rparr>))
      else (- 1, do_action_transfer_escape_data_free (?s\<lparr>page := set_ret_and_err_no ?m (- 1) e\<rparr>)))"
    using do_dma_effect [OF assms(1) b(2,1) nr len cs driver_dma_def sc, of e] assms(7,11) same(1,2)
    by (simp del: D_fd_def F_turn_def F_action_def)
  have "ld 8 (page ?s) F_turn = turn_code FH_TURN_HOST" "ld 8 (page ?s) F_action = action_code FH_ACTION_DMA"
    by (simp_all add: mem_simps)
  note served = on_fault_dma [OF this, of os pid ctx e, unfolded d]
  show ?thesis
    using assms(2,9,10) unfolding fh_do_faulthook_def fpga_serve_def on_fault_listener_def Let_def served
    by (cases ok; cases "0 \<le> ret")
      (simp_all add: or_return_def hand_over_def do_action_transfer_escape_data_free_def
        set_ret_and_err_no_def mem_simps fpga_pending_def buffer_ok_def)
qed

subsection \<open>A read or write of the guest\<close>

lemma translated_piece: "translated ctx (piece_chunk p q) = (piece_chunk p q)\<lparr>addr := vaddr_of ctx p\<rparr>"
  by (simp add: translated_def piece_chunk_def)

text \<open>What the guest's request page says, as the host reads it.\<close>

lemma dma_request_fields:
  assumes "- (2 ^ 31) \<le> fd" "fd < 2 ^ 31"
  shows "ld 8 (dma_request fd wr ap pos buf p m) D_dma_pages_nr = pages_nr p"
    "ld_int (dma_request fd wr ap pos buf p m) D_fd = fd"
    "ld 8 (dma_request fd wr ap pos buf p m) D_dma_phy_addr = pos"
    "ld 8 (dma_request fd wr ap pos buf p m) D_dma_len = pin_len p"
    "ld 8 (dma_request fd wr ap pos buf p m) D_dma_user_buf = buf"
    "ld_int (dma_request fd wr ap pos buf p m) D_dma_do_write = of_bool wr"
    "ld_int (dma_request fd wr ap pos buf p m) D_dma_do_aperture = of_bool ap"
  using assms by (simp_all add: dma_request_def Let_def mem_simps)

text \<open>The request for a buffer with pinned frames, as the driver sees it.\<close>

definition request_dma ::
  "u32 \<Rightarrow> ctx_struct \<Rightarrow> u64 \<Rightarrow> bool \<Rightarrow> bool \<Rightarrow> u64 \<Rightarrow> u64 \<Rightarrow> u64 list \<Rightarrow> fh_host_ioctl_dma" where
  "request_dma pid ctx pos wr ap buf count pfns =
    \<lparr>dma_pid = pid, dma_phy_addr = pos, dma_do_write = of_bool wr, dma_do_aperture = of_bool ap,
     dma_user_buf = buf, dma_len = count, dma_chunks_nr = of_nat (length pfns),
     dma_chunks = map2 (\<lambda>p q. (piece_chunk p q)\<lparr>addr := vaddr_of ctx p\<rparr>) pfns
       (page_pieces (unat buf) (unat count))\<rparr>"

lemma pinned_chunks:
  assumes "pins_all k buf count pfns" "0 < count" "unat count < 2 ^ 32"
    and "unat buf + unat count + 4095 < 2 ^ 64"
  defines "cs \<equiv> map2 piece_chunk pfns (page_pieces (unat buf) (unat count))"
  shows "length cs = length pfns" "length (concat (map chunk_bytes cs)) = 24 * length pfns"
    "cs \<noteq> []" "length pfns < 2 ^ 27"
    "(\<forall>c \<in> set cs. vaddr_of ctx (addr c) \<noteq> 0) \<longleftrightarrow> (\<forall>p \<in> set pfns. vaddr_of ctx p \<noteq> 0)"
    "map (translated ctx) cs = map2 (\<lambda>p q. (piece_chunk p q)\<lparr>addr := vaddr_of ctx p\<rparr>) pfns
       (page_pieces (unat buf) (unat count))"
proof -
  have len: "length pfns = length (page_pieces (unat buf) (unat count))"
    using assms(1) page_count_pieces [OF assms(2,4)] by (simp add: pins_all_def)
  then show l: "length cs = length pfns" by (simp add: cs_def)
  then show "length (concat (map chunk_bytes cs)) = 24 * length pfns"
    using length_concat_const [of "map chunk_bytes cs" 24] by simp
  have pos: "0 < unat count" using assms(2) by (simp add: word_less_nat_alt)
  then show "length pfns < 2 ^ 27"
    using length_page_pieces [of "unat count" "unat buf"] assms(3) len
      mod_less_divisor [of 4096 "unat buf"] by simp
  show "cs \<noteq> []" using pos len l by (subst (asm) page_pieces.simps) (auto simp: Let_def)
  have "map addr cs = pfns"
    using len by (intro nth_equalityI) (simp_all add: cs_def piece_chunk_def)
  then show "(\<forall>c \<in> set cs. vaddr_of ctx (addr c) \<noteq> 0) \<longleftrightarrow> (\<forall>p \<in> set pfns. vaddr_of ctx p \<noteq> 0)"
    by (metis (no_types, lifting) ex_map_conv in_set_conv_nth length_map nth_map)
  show "map (translated ctx) cs = map2 (\<lambda>p q. (piece_chunk p q)\<lparr>addr := vaddr_of ctx p\<rparr>) pfns
       (page_pieces (unat buf) (unat count))"
    by (simp add: cs_def translated_piece case_prod_unfold)
qed

lemma pinned_request_served:
  assumes "addr_map_ok ctx" "receiving log (host g)" "\<not> faultdata_lock g"
    and pin: "pins_all (kernel_pin.truncate k) buf count pfns" "0 < count" "unat count < 2 ^ 32"
      "unat buf + unat count + 4095 < 2 ^ 64"
    and "40 + 24 * length pfns \<le> vmalloc_bytes (8 + fh_get_page_count buf count * 24)"
    and "56 + 24 * length pfns \<le> unat (fvp_escape_size g)"
    and "sys_malloc os (of_nat (24 * length pfns)) \<noteq> None"
    and fd: "- (2 ^ 31) \<le> fd" "fd < 2 ^ 31"
    and "sys_call os log (IocDma fd (request_dma pid ctx pos wr ap buf count pfns)) = (ret, errno)"
      "- (2 ^ 31) \<le> ret" "ret < 2 ^ 31"
    and "ok \<longleftrightarrow> (\<forall>p \<in> set pfns. vaddr_of ctx p \<noteq> 0)"
  shows "\<exists>g3 sgl. char_sgdma_read_write (fpga_serve os pid ctx e) k fd buf count pos wr ap g =
      Some (Ret (\<lparr>dr_ret = if ok \<and> 0 \<le> ret then ret else - ENXIO, dr_sgl = sgl, dr_put = pfns\<rparr>, fd_data_unlock g3))
    \<and> listening (host g3) = (ok \<and> 0 \<le> ret) \<and> buffer_ok (comm (host g3)) \<and> fpga_pending (comm (host g3)) = None
    \<and> issued (comm (host g3)) =
        (if ok then log @ [IocDma fd (request_dma pid ctx pos wr ap buf count pfns)] else log)"
proof -
  define cs where "cs = map2 piece_chunk pfns (page_pieces (unat buf) (unat count))"
  note c = pinned_chunks [OF pin, folded cs_def]
  obtain p where p: "fh_pin_pages (kernel_pin.truncate k) buf count = Ret (0, Some p, [])"
    "unat (pages_nr p) = length pfns" "pin_len p = count" "pages p = Some pfns" "page_chunks p = cs"
    using fh_pin_pages_ok [OF pin assms(8)] by (auto simp: cs_def)
  obtain g2 where g2: "transfer_chunk_to_host (fpga_serve os pid ctx e) (concat (map chunk_bytes cs))
      (action_code FH_ACTION_DMA) (g\<lparr>faultdata_lock := True\<rparr>) = Some (Ret (0, g2))"
    "receiving log (host g2)"
    "fpga_pending (comm (host g2)) = Some (action_code FH_ACTION_DMA, 24 * length cs, concat (map chunk_bytes cs))"
    using fpga_recv.transfer_chunk_to_host_sends [of log "g\<lparr>faultdata_lock := True\<rparr>" "concat (map chunk_bytes cs)"
        os pid ctx e "action_code FH_ACTION_DMA"] assms(2,9,10) c(1-4)
    by (auto simp: fpga_accepts_def)
  define m where "m = dma_request fd wr ap pos buf p (fd_data g2)"
  note req = dma_request_fields [OF fd, of wr ap pos buf p "fd_data g2", folded m_def]
  have "of_nat (unat (pages_nr p)) = pages_nr p" by simp
  then have nr: "pages_nr p = of_nat (length cs)" using p(2) c(1) by simp
  have dma: "driver_dma pid ctx m cs = request_dma pid ctx pos wr ap buf count pfns"
    using req p(3) c(1,6) by (simp add: driver_dma_def request_dma_def)
  let ?g = "g2\<lparr>fd_data := m\<rparr>" and ?req = "IocDma fd (driver_dma pid ctx m cs)"
  have h: "listening (host ?g)" "issued (comm (host ?g)) = log" "fd_data ?g = m"
    using g2(2) by (simp_all add: receiving_def)
  have "length cs < 2 ^ 32" "ld 8 (fd_data ?g) D_dma_pages_nr = of_nat (length cs)"
    "driver_dma pid ctx m cs = driver_dma pid ctx (fd_data ?g) cs"
    "?req = IocDma (ld_int (fd_data ?g) D_fd) (driver_dma pid ctx m cs)"
    "sys_call os (issued (comm (host ?g))) ?req = (ret, errno)"
    "ok \<longleftrightarrow> (\<forall>c \<in> set cs. vaddr_of ctx (addr c) \<noteq> 0)"
    "fpga_pending (comm (host ?g)) = Some (action_code FH_ACTION_DMA, 24 * length cs, concat (map chunk_bytes cs))"
    using assms(13,16) req nr c(1,4,5) g2(3) h(2) by (simp_all add: dma)
  from fpga_dma_served [OF assms(1) h(1) this(7) this(1-5) assms(14,15) this(6), of e]
  obtain g3 where g3: "fh_do_faulthook (fpga_serve os pid ctx e) FH_ACTION_DMA ?g =
      Ret (if ok \<and> 0 \<le> ret then 0 else - ENXIO, g3)"
    "issued (comm (host g3)) = (if ok then log @ [?req] else log)"
    "listening (host g3) = (ok \<and> 0 \<le> ret)" "ld_long (fd_data g3) D_ret = (if ok then ret else - 1)"
    "buffer_ok (comm (host g3))" "fpga_pending (comm (host g3)) = None"
    unfolding h by blast
  have "fvp_escape_size g \<ge> of_nat sizeof_action_dma + pages_nr p * 24"
    using assms(9) c(1,4) by (simp add: nr word_le_nat_alt unat_word_ariths unat_of_nat)
  then have "\<exists>sgl. char_sgdma_read_write (fpga_serve os pid ctx e) k fd buf count pos wr ap g =
      Some (Ret (\<lparr>dr_ret = if ok \<and> 0 \<le> ret then ret else - ENXIO, dr_sgl = sgl,
        dr_put = fh_unpin_pages (Some p)\<rparr>, fd_data_unlock g3))"
    using char_sgdma_read_write_done [OF p(1) assms(3), of "fpga_serve os pid ctx e" g2 fd wr ap pos _ g3]
      g2(1) g3(1,4) p(5) assms(14,15) by (auto simp: m_def not_less)
  moreover have "fh_unpin_pages (Some p) = pfns" using p(2,4) by (simp add: fh_unpin_pages_def)
  ultimately show ?thesis using g3 dma by auto
qed

end
