(* ===== verification/Devmem.thy ===== *)
theory Devmem
  imports Acai_Prelude "HOL-Library.While_Combinator"
begin

text \<open>
  The kernel modules that change the state of device memory
  (\<open>devmem_intercept/devmem_intercept.c\<close>, \<open>devmem_intercept/devmem_undelegate.c\<close>). The realm
  monitor and the SMMU driver are reached through calls; their answers are an argument and the
  calls issued so far are the state. Shown: the merged range calls of a scatter list name exactly
  the pages of its entries, in order; an entry whose length is within a page of 4 GiB makes the
  page counter loop forever; undelegation covers every whole page of memory; the return value of
  the module's initialisation hides a failed probe.
\<close>

subsection \<open>Calls to the monitor\<close>

datatype rmm_call =
    RsiSetAddrRangeDevMem u64 u64 bool
  | RsiSetAddrDevMem u64 bool
  | RsiTriggerTestengine u64
  | MapPagesFromSid u64 u64

type_synonym monitor = "rmm_call list \<Rightarrow> rmm_call \<Rightarrow> int"

record devmem_params =
  realm :: bool
  no_delegate :: bool
  testengine :: bool
  kprobe :: bool

definition rmm :: "monitor \<Rightarrow> rmm_call \<Rightarrow> rmm_call list \<Rightarrow> int \<times> rmm_call list" where
  "rmm fw c log = (fw log c, log @ [c])"

text \<open>The test engine is triggered twice for an address; the second value counts.\<close>

definition test_twice :: "monitor \<Rightarrow> u64 \<Rightarrow> rmm_call list \<Rightarrow> int \<times> rmm_call list" where
  "test_twice fw a log = rmm fw (RsiTriggerTestengine a) (snd (rmm fw (RsiTriggerTestengine a) log))"

definition devmem_delegate_mem_range_device ::
  "monitor \<Rightarrow> devmem_params \<Rightarrow> u64 \<Rightarrow> u64 \<Rightarrow> bool \<Rightarrow> rmm_call list \<Rightarrow> int \<times> rmm_call list" where
  "devmem_delegate_mem_range_device fw P addr num_granules do_delegate log =
    (if no_delegate P then (0, log)
     else if realm P then
       let r = rmm fw (RsiSetAddrRangeDevMem addr num_granules do_delegate) log
       in if testengine P
          then fold (\<lambda>i r. test_twice fw (addr + of_nat i * PAGE_SIZE) (snd r)) [0..<unat num_granules] r
          else r
     else if do_delegate then rmm fw (MapPagesFromSid addr num_granules) log
     else (0, log))"

definition devmem_delegate_mem_device ::
  "monitor \<Rightarrow> devmem_params \<Rightarrow> u64 \<Rightarrow> rmm_call list \<Rightarrow> int \<times> rmm_call list" where
  "devmem_delegate_mem_device fw P addr log =
    (if no_delegate P then (0, log)
     else if realm P then
       let r = rmm fw (RsiSetAddrDevMem addr True) log
       in if testengine P then test_twice fw addr (snd r) else r
     else (0, log))"

definition devmem_undelegate_mem_device ::
  "monitor \<Rightarrow> devmem_params \<Rightarrow> u64 \<Rightarrow> rmm_call list \<Rightarrow> int \<times> rmm_call list" where
  "devmem_undelegate_mem_device fw P addr log =
    (if no_delegate P then (0, log)
     else if realm P then rmm fw (RsiSetAddrDevMem addr False) log
     else (0, log))"

text \<open>
  \<open>pre_remap_pfn_range\<close>: \<open>for (j = 0; j < size; j += PAGE_SIZE)\<close> on \<open>unsigned long\<close>; \<open>None\<close> when
  the counter wraps around and the loop does not end.
\<close>

definition pre_remap_pfn_range ::
  "monitor \<Rightarrow> devmem_params \<Rightarrow> u64 \<Rightarrow> u64 \<Rightarrow> rmm_call list \<Rightarrow> rmm_call list option" where
  "pre_remap_pfn_range fw P pfn sz log =
     map_option snd
       (while_option (\<lambda>(j, log). j < sz)
          (\<lambda>(j, log). (j + PAGE_SIZE, snd (devmem_delegate_mem_device fw P (push_bit PAGE_SHIFT pfn + j) log)))
          (0, log))"

subsection \<open>Scatter lists\<close>

text \<open>An entry by the physical address of its page, its offset and its length.\<close>

record scatterlist =
  sg_phys :: u64
  sg_offset :: u32
  sg_length :: u32

text \<open>\<open>for (j = 0; j < sg->length; j += PAGE_SIZE) base_nents += 1;\<close> with \<open>unsigned int j\<close>.\<close>

definition sg_pages :: "u32 \<Rightarrow> u64 \<Rightarrow> u64 option" where
  "sg_pages len base_nents =
     map_option snd
       (while_option (\<lambda>(j, n). j < len) (\<lambda>(j, n). (j + PAGE_SIZE, n + 1)) (0, base_nents))"

text \<open>The \<open>do ... while\<close> loop: merge entries while the next one continues the range.\<close>

fun sgl_run :: "u64 \<Rightarrow> u64 \<Rightarrow> scatterlist list \<Rightarrow> (u64 \<times> scatterlist list) option" where
  "sgl_run base n [] = Some (n, [])"
| "sgl_run base n (e # es) =
    (case sg_pages (sg_length e) n of
       None \<Rightarrow> None
     | Some n' \<Rightarrow>
        (case es of
           [] \<Rightarrow> Some (n', [])
         | e' # _ \<Rightarrow>
            if sg_phys e' = base + n' * PAGE_SIZE then sgl_run base n' es else Some (n', es)))"

lemma sgl_run_shorter: "sgl_run base n (e # es) = Some (n', rest) \<Longrightarrow> length rest \<le> length es"
proof (induction es arbitrary: n e)
  case (Cons a es)
  then show ?case
    unfolding sgl_run.simps(2) [of base n e "a # es"]
    by (auto simp del: sgl_run.simps split: option.splits if_splits intro: le_SucI)
qed (auto split: option.splits)

function devmem_delegate_mem_range_sgl ::
  "monitor \<Rightarrow> devmem_params \<Rightarrow> scatterlist list \<Rightarrow> bool \<Rightarrow> rmm_call list \<Rightarrow> (int \<times> rmm_call list) option" where
  "devmem_delegate_mem_range_sgl fw P [] do_delegate log = Some (0, log)"
| "devmem_delegate_mem_range_sgl fw P (e # es) do_delegate log =
    (case sgl_run (sg_phys e) 0 (e # es) of
       None \<Rightarrow> None
     | Some (n, rest) \<Rightarrow>
        devmem_delegate_mem_range_sgl fw P rest do_delegate
          (snd (devmem_delegate_mem_range_device fw P (sg_phys e) n do_delegate log)))"
  by pat_completeness auto
termination
  by (relation "measure (\<lambda>(fw, P, sgl, d, log). length sgl)") (auto simp del: sgl_run.simps dest: sgl_run_shorter)

declare sgl_run.simps(2) [simp del]

definition pre_dma_map_sg_attrs ::
  "monitor \<Rightarrow> devmem_params \<Rightarrow> scatterlist list \<Rightarrow> rmm_call list \<Rightarrow> (int \<times> rmm_call list) option" where
  "pre_dma_map_sg_attrs fw P sgl log =
     map_option (\<lambda>r. (0, snd r)) (devmem_delegate_mem_range_sgl fw P sgl True log)"

definition pre_dma_unmap_sg_attrs :: "rmm_call list \<Rightarrow> int \<times> rmm_call list" where
  "pre_dma_unmap_sg_attrs log = (0, log)"

subsection \<open>Loading the module\<close>

text \<open>
  Which probes are installed. \<open>register_kprobe\<close> of \<open>dma_map_sg_attrs\<close> and of
  \<open>dma_unmap_sg_attrs\<close> is an argument each.
\<close>

record probes =
  dma_map_sg_attrs_probe :: bool
  dma_unmap_sg_attrs_probe :: bool

definition devmem_register_kprobes :: "int \<Rightarrow> int \<Rightarrow> probes \<Rightarrow> int \<times> probes" where
  "devmem_register_kprobes reg_map reg_unmap s =
    (let s1 = (if reg_map = 0 then s\<lparr>dma_map_sg_attrs_probe := True\<rparr> else s);
         s2 = (if reg_unmap = 0 then s1\<lparr>dma_unmap_sg_attrs_probe := True\<rparr> else s1)
     in (reg_unmap, s2))"

definition devmem_unregister_kprobes :: "probes \<Rightarrow> probes" where
  "devmem_unregister_kprobes s = s\<lparr>dma_map_sg_attrs_probe := False, dma_unmap_sg_attrs_probe := False\<rparr>"

definition devmem_init :: "devmem_params \<Rightarrow> int \<Rightarrow> int \<Rightarrow> probes \<Rightarrow> int \<times> probes" where
  "devmem_init P reg_map reg_unmap s =
    (if kprobe P then
       case devmem_register_kprobes reg_map reg_unmap s of
         (ret, s') \<Rightarrow> if ret < 0 then (ret, s') else (0, s')
     else (0, s))"

definition devmem_exit :: "devmem_params \<Rightarrow> probes \<Rightarrow> probes" where
  "devmem_exit P s = (if kprobe P then devmem_unregister_kprobes s else s)"

subsection \<open>Undelegating all memory\<close>

definition devmem_delegate_mem_range ::
  "monitor \<Rightarrow> bool \<Rightarrow> u64 \<Rightarrow> u64 \<Rightarrow> rmm_call list \<Rightarrow> int \<times> rmm_call list" where
  "devmem_delegate_mem_range fw in_realm addr num_granules log =
    (if in_realm then rmm fw (RsiSetAddrRangeDevMem addr num_granules False) log else (0, log))"

definition delegate_chunk :: int where
  "delegate_chunk = 4096 * 0x800"

text \<open>The loop of \<open>undelegate\<close>; \<open>left\<close> is a \<open>long long\<close>.\<close>

function undelegate_loop :: "monitor \<Rightarrow> bool \<Rightarrow> int \<Rightarrow> u64 \<Rightarrow> rmm_call list \<Rightarrow> rmm_call list" where
  "undelegate_loop fw in_realm left start log =
    (if left > 0 then
       let range = min delegate_chunk left; num_pages = range div 4096
       in undelegate_loop fw in_realm (left - range) (start + of_int range)
            (snd (devmem_delegate_mem_range fw in_realm start (of_int num_pages) log))
     else log)"
  by pat_completeness auto
termination
  by (relation "measure (\<lambda>(fw, in_realm, left, start, log). nat left)")
    (auto simp: delegate_chunk_def min_def)

declare undelegate_loop.simps [simp del]

definition undelegate :: "monitor \<Rightarrow> bool \<Rightarrow> u64 \<Rightarrow> u64 \<Rightarrow> rmm_call list \<Rightarrow> int \<times> rmm_call list" where
  "undelegate fw in_realm dram_start dram_end log =
     (0, undelegate_loop fw in_realm (sint (dram_end - dram_start)) dram_start log)"

text \<open>\<open>myinit\<close>: the three symbols are looked up first.\<close>

definition myinit ::
  "monitor \<Rightarrow> bool \<Rightarrow> bool \<Rightarrow> u64 option \<Rightarrow> u64 option \<Rightarrow> rmm_call list \<Rightarrow> int \<times> rmm_call list" where
  "myinit fw in_realm kallsyms dram_start dram_end log =
    (if \<not> kallsyms then (- ENXIO, log)
     else case dram_start of
       None \<Rightarrow> (- ENXIO, log)
     | Some start \<Rightarrow>
        (case dram_end of
           None \<Rightarrow> (- ENXIO, log)
         | Some e \<Rightarrow> (0, snd (undelegate fw in_realm start e log))))"

subsection \<open>The pages of a call\<close>

definition granules :: "u64 \<Rightarrow> nat \<Rightarrow> u64 list" where
  "granules base n = map (\<lambda>i. base + of_nat i * PAGE_SIZE) [0..<n]"

lemma granules_append: "granules base (m + n) = granules base m @ granules (base + of_nat m * PAGE_SIZE) n"
  by (auto simp: granules_def algebra_simps nth_append intro!: nth_equalityI)

lemma granules_0 [simp]: "granules base 0 = []"
  by (simp add: granules_def)

primrec assigned :: "bool \<Rightarrow> rmm_call \<Rightarrow> u64 list" where
  "assigned d (RsiSetAddrRangeDevMem a n d') = (if d' = d then granules a (unat n) else [])"
| "assigned d (RsiSetAddrDevMem a d') = (if d' = d then [a] else [])"
| "assigned d (RsiTriggerTestengine a) = []"
| "assigned d (MapPagesFromSid a n) = (if d then granules a (unat n) else [])"

abbreviation assigned_pages :: "bool \<Rightarrow> rmm_call list \<Rightarrow> u64 list" where
  "assigned_pages d log \<equiv> concat (map (assigned d) log)"

definition pages_of_len :: "u32 \<Rightarrow> nat" where
  "pages_of_len len = (unat len + 4095) div 4096"

abbreviation sg_granules :: "scatterlist \<Rightarrow> u64 list" where
  "sg_granules e \<equiv> granules (sg_phys e) (pages_of_len (sg_length e))"

abbreviation sgl_total :: "scatterlist list \<Rightarrow> nat" where
  "sgl_total sgl \<equiv> sum_list (map (\<lambda>e. pages_of_len (sg_length e)) sgl)"

lemma sgl_total_le: "\<forall>x\<in>set sgl. unat (sg_length x) \<le> 4096 \<Longrightarrow> sgl_total sgl \<le> length sgl"
  by (induction sgl) (auto simp: pages_of_len_def)

text \<open>The counter of a loop over pages ends when the length leaves room for one more page.\<close>

lemma sg_pages_loop:
  assumes "unat len \<le> 2 ^ 32 - 4096" "unat j = 4096 * i" "4096 * i < unat len + 4096"
  shows "map_option snd (while_option (\<lambda>(j, n). j < len) (\<lambda>(j, n). (j + PAGE_SIZE, n + 1)) (j :: u32, n :: u64))
    = Some (n + of_nat (pages_of_len len - i))"
  using assms(2,3)
proof (induction "pages_of_len len - i" arbitrary: i j n)
  case 0
  then have "unat len \<le> unat j" by (simp add: pages_of_len_def)
  with 0 show ?case
    by (subst while_option_unfold) (simp add: word_less_nat_alt)
next
  case (Suc k)
  from Suc.hyps(2) have i: "4096 * i < unat len" by (simp add: pages_of_len_def)
  have j': "unat (j + PAGE_SIZE) = 4096 * Suc i"
    using Suc.prems(1) i assms(1) by (subst unat_plus_if') simp
  from Suc.hyps(2) have k: "k = pages_of_len len - Suc i" by simp
  from Suc.hyps(1) [OF k j', where n = "n + 1"] i Suc.prems(1) show ?case
    by (subst while_option_unfold) (simp add: word_less_nat_alt k [symmetric] Suc.hyps(2) [symmetric] add.assoc)
qed

lemma sg_pages_Some:
  "unat len \<le> 2 ^ 32 - 4096 \<Longrightarrow> sg_pages len n = Some (n + of_nat (pages_of_len len))"
  using sg_pages_loop [of len 0 0 n] by (simp add: sg_pages_def)

lemma sg_pages_None:
  assumes "2 ^ 32 - 4096 < unat len"
  shows "sg_pages len n = None"
proof (cases "while_option (\<lambda>(j, n). j < len) (\<lambda>(j, n). (j + PAGE_SIZE, n + 1)) (0, n)")
  case (Some t)
  have "unat (fst t) mod 4096 = 0"
    by (rule while_option_rule [OF _ Some, where P = "\<lambda>s. unat (fst s) mod 4096 = 0"])
      (auto simp: unat_word_ariths mod_mod_cancel mod_simps)
  moreover have "unat len \<le> unat (fst t)"
    using while_option_stop [OF Some] by (auto simp: word_less_nat_alt)
  moreover have "unat (fst t) < 2 ^ 32"
    using unsigned_less [where ?'a = nat, of "fst t"] by simp
  moreover obtain q where "unat (fst t) = 4096 * q"
    using calculation(1) by (auto elim!: dvdE simp: mod_eq_0_iff_dvd)
  ultimately show ?thesis using assms by simp
qed (simp add: sg_pages_def)

text \<open>One merged range: the entries it takes, its number of pages, and why it stops.\<close>

lemma sgl_run_effect:
  assumes "\<forall>x\<in>set (e # es). unat (sg_length x) \<le> 2 ^ 32 - 4096"
    and "unat n + sgl_total (e # es) < 2 ^ 64" "sg_phys e = base + n * PAGE_SIZE"
  shows "\<exists>n' taken rest. sgl_run base n (e # es) = Some (n', rest) \<and> e # es = taken @ rest
    \<and> length rest \<le> length es \<and> unat n' = unat n + sgl_total taken
    \<and> granules base (unat n') = granules base (unat n) @ concat (map sg_granules taken)
    \<and> (rest \<noteq> [] \<longrightarrow> sg_phys (hd rest) \<noteq> base + n' * PAGE_SIZE)"
  using assms
proof (induction es arbitrary: n e)
  case Nil
  let ?n' = "n + of_nat (pages_of_len (sg_length e))"
  have "unat ?n' = unat n + pages_of_len (sg_length e)"
    using Nil.prems(2) by (subst unat_plus_if') (simp add: unat_of_nat)
  with Nil.prems show ?case
    by (intro exI [of _ ?n'] exI [of _ "[e]"] exI [of _ "[]"]) (simp add: sg_pages_Some granules_append sgl_run.simps)
next
  case (Cons e2 es)
  let ?n' = "n + of_nat (pages_of_len (sg_length e))"
  have un: "unat ?n' = unat n + pages_of_len (sg_length e)"
    using Cons.prems(2) by (subst unat_plus_if') (simp add: unat_of_nat)
  have gr: "granules base (unat ?n') = granules base (unat n) @ sg_granules e"
    using Cons.prems(3) by (simp add: un granules_append)
  show ?case
  proof (cases "sg_phys e2 = base + ?n' * PAGE_SIZE")
    case True
    have total: "unat ?n' + sgl_total (e2 # es) < 2 ^ 64" using Cons.prems(2) by (simp add: un)
    have short: "\<forall>x\<in>set (e2 # es). unat (sg_length x) \<le> 2 ^ 32 - 4096" using Cons.prems(1) by simp
    from Cons.IH [OF short total True] obtain m taken rest where run:
      "sgl_run base ?n' (e2 # es) = Some (m, rest)" and es: "e2 # es = taken @ rest"
      and eff: "length rest \<le> length es" "unat m = unat ?n' + sgl_total taken"
      "granules base (unat m) = granules base (unat ?n') @ concat (map sg_granules taken)"
      "rest \<noteq> [] \<longrightarrow> sg_phys (hd rest) \<noteq> base + m * PAGE_SIZE"
      by (elim exE conjE)
    have "sgl_run base n (e # e2 # es) = Some (m, rest)"
      using Cons.prems(1) True run
      unfolding sgl_run.simps(2) [of base n e "e2 # es"]
      by (simp add: sg_pages_Some)
    with es eff gr un show ?thesis
      by - (rule exI [of _ m], rule exI [of _ "e # taken"], rule exI [of _ rest], simp)
  next
    case False
    then show ?thesis
      using Cons.prems(1) gr un
      by (intro exI [of _ ?n'] exI [of _ "[e]"] exI [of _ "e2 # es"]) (simp add: sg_pages_Some sgl_run.simps)
  qed
qed

lemma fold_test_twice:
  "\<exists>ts ret. fold (\<lambda>i r. test_twice fw (a + of_nat i * PAGE_SIZE) (snd r)) is r = (ret, snd r @ ts)
    \<and> assigned_pages d ts = []"
proof (induction "is" arbitrary: r)
  case (Cons i "is")
  let ?a = "a + of_nat i * PAGE_SIZE"
  from Cons.IH [of "test_twice fw ?a (snd r)"] show ?case
    by (auto simp: test_twice_def rmm_def)
qed (auto intro: exI [of _ "[]"] exI [of _ "fst r" for r] simp: prod_eq_iff)

text \<open>What one range call adds to the calls: the pages of the range, as far as it applies.\<close>

lemma range_device_effect:
  assumes "\<not> no_delegate P" "realm P \<or> d"
  shows "\<exists>ret new. devmem_delegate_mem_range_device fw P a n d log = (ret, log @ new)
    \<and> assigned_pages d new = granules a (unat n)"
proof (cases "realm P \<and> testengine P")
  case True
  let ?r = "rmm fw (RsiSetAddrRangeDevMem a n d) log"
  obtain ts ret where
    "fold (\<lambda>i r. test_twice fw (a + of_nat i * PAGE_SIZE) (snd r)) [0..<unat n] ?r = (ret, snd ?r @ ts)"
    "assigned_pages d ts = []"
    using fold_test_twice [of fw a "[0..<unat n]" ?r d] by blast
  with True assms show ?thesis
    by (intro exI [of _ ret] exI [of _ "RsiSetAddrRangeDevMem a n d # ts"])
      (simp add: devmem_delegate_mem_range_device_def Let_def, simp add: rmm_def)
next
  case False
  with assms show ?thesis
    by (auto simp: devmem_delegate_mem_range_device_def rmm_def)
qed

text \<open>A whole list, by induction over its merged ranges.\<close>

lemma sgl_effect:
  assumes "\<not> no_delegate P" "realm P \<or> d"
    and "\<forall>x\<in>set sgl. unat (sg_length x) \<le> 2 ^ 32 - 4096" "sgl_total sgl < 2 ^ 64"
  shows "\<exists>new. devmem_delegate_mem_range_sgl fw P sgl d log = Some (0, log @ new)
    \<and> assigned_pages d new = concat (map sg_granules sgl)"
  using assms(3,4)
proof (induction "length sgl" arbitrary: sgl log rule: less_induct)
  case less
  show ?case
  proof (cases sgl)
    case (Cons e es)
    have start: "\<forall>x\<in>set (e # es). unat (sg_length x) \<le> 2 ^ 32 - 4096"
      "unat (0 :: u64) + sgl_total (e # es) < 2 ^ 64" "sg_phys e = sg_phys e + 0 * PAGE_SIZE"
      using less.prems Cons by simp_all
    from sgl_run_effect [OF start] obtain n taken rest
      where run: "sgl_run (sg_phys e) 0 (e # es) = Some (n, rest)"
      and sgl: "e # es = taken @ rest" and len: "length rest \<le> length es"
      and gr: "granules (sg_phys e) (unat n) = granules (sg_phys e) (unat (0 :: u64)) @ concat (map sg_granules taken)"
      by (elim exE conjE)
    obtain ret new where dev: "devmem_delegate_mem_range_device fw P (sg_phys e) n d log = (ret, log @ new)"
      "assigned_pages d new = granules (sg_phys e) (unat n)"
      using range_device_effect [OF assms(1,2)] by blast
    have "\<forall>x\<in>set rest. unat (sg_length x) \<le> 2 ^ 32 - 4096" "sgl_total rest < 2 ^ 64"
      using less.prems unfolding Cons sgl by auto
    then obtain new2 where rest: "devmem_delegate_mem_range_sgl fw P rest d (log @ new) = Some (0, (log @ new) @ new2)"
      "assigned_pages d new2 = concat (map sg_granules rest)"
      using less.hyps [of rest "log @ new"] len Cons by auto
    have "devmem_delegate_mem_range_sgl fw P sgl d log = Some (0, log @ new @ new2)"
      using dev(1) rest(1) run by (simp add: Cons)
    moreover have "assigned_pages d (new @ new2) = concat (map sg_granules sgl)"
      using dev(2) gr rest(2) unfolding Cons sgl by simp
    ultimately show ?thesis by blast
  qed simp
qed

lemma sgl_run_stuck:
  assumes "e \<in> set (x # xs)" "2 ^ 32 - 4096 < unat (sg_length e)"
    and "sgl_run base n (x # xs) = Some (n', rest)"
  shows "e \<in> set rest"
  using assms
proof (induction xs arbitrary: x n)
  case (Cons y ys)
  from Cons.prems(2,3) have "e \<noteq> x"
    by (auto simp: sgl_run.simps(2) [of _ _ x] sg_pages_None)
  with Cons.prems Cons.IH show ?case
    by (fastforce simp: sgl_run.simps(2) [of _ _ x] split: option.splits if_splits)
qed (simp add: sgl_run.simps sg_pages_None)

lemma sgl_stuck:
  assumes "e \<in> set sgl" "2 ^ 32 - 4096 < unat (sg_length e)"
  shows "devmem_delegate_mem_range_sgl fw P sgl d log = None"
  using assms(1)
proof (induction fw P sgl d log rule: devmem_delegate_mem_range_sgl.induct)
  case (2 fw P x xs d log)
  then show ?case
    using sgl_run_stuck [OF 2(2) assms(2)] by (auto split: option.splits)
qed simp

text \<open>The pages of a scatter list are delegated.\<close>


text \<open>An entry whose length exceeds 0xFFFFF000 never gets delegated: the 32-bit page counter wraps
  around before it reaches the length, and the walk does not end.\<close>

theorem sgl_long_entry_diverges:
  assumes "e \<in> set sgl" "0xFFFFF000 < sg_length e"
  shows "devmem_delegate_mem_range_sgl fw P sgl d log = None"
  using sgl_stuck [OF assms(1)] assms(2) by (simp add: word_less_nat_alt)

definition demo_params :: devmem_params where
  "demo_params = \<lparr>realm = True, no_delegate = False, testengine = False, kprobe = True\<rparr>"

definition demo_sgl :: "scatterlist list" where
  "demo_sgl = [\<lparr>sg_phys = 0x5000, sg_offset = 0, sg_length = 4096\<rparr>,
     \<lparr>sg_phys = 0x6000, sg_offset = 0, sg_length = 5000\<rparr>, \<lparr>sg_phys = 0xA000, sg_offset = 0, sg_length = 1\<rparr>]"


theorem sgl_long_entry_diverges_witness:
  "devmem_delegate_mem_range_sgl (\<lambda>_ _. 0) demo_params
     [\<lparr>sg_phys = 0x5000, sg_offset = 0, sg_length = 0xFFFFFFFF\<rparr>] True [] = None"
  by (rule sgl_long_entry_diverges [of "\<lparr>sg_phys = 0x5000, sg_offset = 0, sg_length = 0xFFFFFFFF\<rparr>"]) simp_all

subsection \<open>Undelegation and initialisation\<close>

lemma nat_sint: "0 \<le> sint w \<Longrightarrow> nat (sint w) = unat w" for w :: u64
proof -
  assume "0 \<le> sint w"
  moreover have "sint w < 2 ^ 64" using sint_less [of w] by simp
  ultimately have "unat (of_int (sint w) :: u64) = nat (sint w)"
    by (simp only: unsigned_of_int) (simp add: take_bit_int_eq_self)
  then show ?thesis by simp
qed

lemma undelegate_loop_effect:
  assumes "0 \<le> left"
  shows "\<exists>new. undelegate_loop fw True left start log = log @ new
    \<and> assigned_pages False new = granules start (nat left div 4096)"
  using assms
proof (induction "nat left" arbitrary: left start log rule: less_induct)
  case less
  let ?range = "min delegate_chunk left"
  let ?call = "RsiSetAddrRangeDevMem start (of_int (?range div 4096)) False"
  have pages: "unat (of_int (?range div 4096) :: u64) = nat ?range div 4096"
  proof -
    have "0 \<le> ?range div 4096" "?range div 4096 \<le> 2048"
      using less.prems by (auto simp: delegate_chunk_def min_def)
    then have "unat (of_int (?range div 4096) :: u64) = nat (?range div 4096)"
      by (simp add: unsigned_of_int take_bit_int_eq_self)
    with less.prems show ?thesis by (simp add: nat_div_distrib delegate_chunk_def min_def)
  qed
  show ?case
  proof (cases "left > 0")
    case True
    have r: "0 < ?range" "?range \<le> left" using True by (auto simp: delegate_chunk_def min_def)
    from less.hyps [of "left - ?range" "start + of_int ?range" "log @ [?call]"] r
    obtain new where new:
      "undelegate_loop fw True (left - ?range) (start + of_int ?range) (log @ [?call]) = (log @ [?call]) @ new"
      "assigned_pages False new = granules (start + of_int ?range) (nat (left - ?range) div 4096)"
      by auto
    have "undelegate_loop fw True left start log = log @ ?call # new"
      using True new(1) by (subst undelegate_loop.simps) (simp add: devmem_delegate_mem_range_def rmm_def Let_def)
    moreover have "assigned_pages False (?call # new) = granules start (nat left div 4096)"
    proof (cases "delegate_chunk < left")
      case True
      then have "nat left div 4096 = 2048 + nat (left - delegate_chunk) div 4096"
        by (simp add: delegate_chunk_def nat_diff_distrib' div_add_self1 [symmetric])
      then show ?thesis
        using new(2) pages True by (simp add: min_def delegate_chunk_def granules_append)
    next
      case False
      with new(2) pages show ?thesis by (simp add: min_def)
    qed
    ultimately show ?thesis by blast
  next
    case False
    with less.prems show ?thesis by (simp add: undelegate_loop.simps)
  qed
qed

text \<open>C39: Undelegating the memory of the realm. For a memory of less than 2^63 bytes the loop ends, and
  the calls it makes in chunks of 2048 pages undelegate every whole page from the start of memory to
  its end exactly once, in order; a partial page at the end is left out.\<close>

theorem undelegate_covers_dram:
  assumes "0 \<le> sint (dram_end - dram_start)"
  shows "\<exists>new. undelegate fw True dram_start dram_end log = (0, log @ new)
    \<and> assigned_pages False new = granules dram_start (unat (dram_end - dram_start) div 4096)"
  using undelegate_loop_effect [OF assms, of fw dram_start log] assms
  by (simp add: undelegate_def nat_sint)

text \<open>What loading the interception module reports. The value of the first registration is
  overwritten: when \<open>dma_map_sg_attrs\<close> cannot be probed but \<open>dma_unmap_sg_attrs\<close> can, loading succeeds
  although no page will ever be delegated; when only the second fails, loading fails and the first
  probe stays installed.\<close>

theorem devmem_init_hides_failure:
  assumes "kprobe P" "\<not> dma_map_sg_attrs_probe s"
  shows "(reg_map \<noteq> 0 \<longrightarrow> (\<exists>s'. devmem_init P reg_map 0 s = (0, s') \<and> \<not> dma_map_sg_attrs_probe s'))
    \<and> (reg_unmap < 0 \<longrightarrow> (\<exists>s'. devmem_init P 0 reg_unmap s = (reg_unmap, s') \<and> dma_map_sg_attrs_probe s'))"
  using assms by (simp add: devmem_init_def devmem_register_kprobes_def)

theorem undelegate_covers_dram_witness:
  "\<exists>new. undelegate (\<lambda>_ _. 0) True 0x80000000 0x80003800 [] = (0, new)
    \<and> assigned_pages False new = [0x80000000, 0x80001000, 0x80002000]"
  using undelegate_covers_dram [of "0x80003800" "0x80000000" "\<lambda>_ _. 0" "[]"]
  by (simp add: granules_def upt_rec)

theorem devmem_init_hides_failure_witness:
  "(\<exists>s'. devmem_init demo_params (- 2) 0 \<lparr>dma_map_sg_attrs_probe = False, dma_unmap_sg_attrs_probe = False\<rparr>
       = (0, s') \<and> \<not> dma_map_sg_attrs_probe s')"
  using devmem_init_hides_failure [of demo_params "\<lparr>dma_map_sg_attrs_probe = False, dma_unmap_sg_attrs_probe = False\<rparr>" "- 2" 0]
  by (simp add: demo_params_def)

end
