(* ===== verification/Libhook.thy ===== *)
theory Libhook
  imports Hex_Text
begin

text \<open>
  The allocation hook preloaded into the simulator (\<open>libhook/hook.c\<close>). Blocks of 4128 bytes, the size
  the simulator allocates per guest page, come from one shared mapping whose range is written to a
  file for the manager; everything else goes to the C library. \<open>dlsym\<close> and \<open>stdio\<close> may call back into
  the hook while a symbol is resolved or the mapping is set up: the calls they make are an
  argument, and the depth of the nesting is bounded by fuel. Shown: under any sequence of calls the
  mapping and the bootstrap buffer keep their invariant, page blocks are distinct pages of the mapping
  in increasing order (and overlap their successor by 32 bytes), and \<open>free\<close> never gives memory of the
  hook to the C library.
\<close>

subsection \<open>Requests, environment, state\<close>

datatype hook_req = Malloc u64 | Calloc u64 u64 | Realloc u64 u64 | Free u64

record hook_env =
  buffer_at :: u64
  mmap_at :: "u64 option"
  own_pid :: string
  stat_fopen :: bool
  real_result :: "hook_req list \<Rightarrow> hook_req \<Rightarrow> u64"
  dlsym_ok :: "string \<Rightarrow> bool"
  nested :: "string \<Rightarrow> hook_req list"

record hook_state =
  map_at :: u64
  map_start :: u64
  is_do_init :: bool
  do_malloc_init :: bool
  do_calloc_init :: bool
  real_malloc :: bool
  real_calloc :: bool
  real_realloc :: bool
  real_free :: bool
  buffer_used :: u64
  malloc_count :: u64
  stat_text :: "string option"
  libc_calls :: "hook_req list"

definition hook_init :: hook_state where
  "hook_init = \<lparr>map_at = 0, map_start = 0, is_do_init = False, do_malloc_init = False,
     do_calloc_init = False, real_malloc = False, real_calloc = False, real_realloc = False,
     real_free = False, buffer_used = 0, malloc_count = 0, stat_text = None, libc_calls = []\<rparr>"

definition map_size :: u64 where "map_size = 1024 * 1024 * 1024 * 3"
definition buffer_size :: u64 where "buffer_size = 40960"

type_synonym 'a run = "'a outcome option"

definition rbind :: "'a run \<Rightarrow> ('a \<Rightarrow> 'b run) \<Rightarrow> 'b run" where
  "rbind x f = (case x of None \<Rightarrow> None | Some (Ub u) \<Rightarrow> Some (Ub u) | Some (Ret v) \<Rightarrow> f v)"

lemma rbind_eq [simp]: "rbind x f = Some (Ret y) \<longleftrightarrow> (\<exists>v. x = Some (Ret v) \<and> f v = Some (Ret y))"
  by (auto simp: rbind_def split: option.splits outcome.splits)

type_synonym nested_run = "hook_req list \<Rightarrow> hook_state \<Rightarrow> hook_state run"

text \<open>A call of the C library's own function.\<close>

definition libc :: "hook_env \<Rightarrow> hook_req \<Rightarrow> hook_state \<Rightarrow> u64 \<times> hook_state" where
  "libc env r s = (real_result env (libc_calls s) r, s\<lparr>libc_calls := libc_calls s @ [r]\<rparr>)"

subsection \<open>The functions of the hook\<close>

definition init_symbol :: "nested_run \<Rightarrow> hook_env \<Rightarrow> string \<Rightarrow> hook_state \<Rightarrow> hook_state run" where
  "init_symbol go env name s =
     rbind (go (nested env name) s) (\<lambda>s1. if dlsym_ok env name then Some (Ret s1) else Some (Ub Aborted))"

definition mm_alloc :: "hook_env \<Rightarrow> u64 \<Rightarrow> hook_state \<Rightarrow> (u64 \<times> hook_state) outcome" where
  "mm_alloc env sz s =
    (if buffer_used s + sz \<le> buffer_size
     then Ret (buffer_at env + buffer_used s, s\<lparr>buffer_used := buffer_used s + sz\<rparr>)
     else Ub Aborted)"

definition mm_is_address :: "hook_env \<Rightarrow> u64 \<Rightarrow> bool" where
  "mm_is_address env p \<longleftrightarrow> buffer_at env \<le> p \<and> p < buffer_at env + buffer_size"

text \<open>\<open>stat_file\<close> prints the range of the mapping and the process id.\<close>

definition range_text :: "u64 \<Rightarrow> u64 \<Rightarrow> string \<Rightarrow> string" where
  "range_text from to pid = ''0x'' @ hex_nat (unat from) @ ''-0x'' @ hex_nat (unat to) @ '';'' @ pid"

definition hook_stat_file :: "hook_env \<Rightarrow> hook_state \<Rightarrow> hook_state outcome" where
  "hook_stat_file env s =
    (if \<not> stat_fopen env then Ub Aborted
     else Ret (s\<lparr>stat_text := Some (range_text (map_start s) (map_start s + map_size) (own_pid env))\<rparr>))"

text \<open>A failing \<open>mlock2\<close> is only reported.\<close>

definition mmap_annon :: "hook_env \<Rightarrow> hook_state \<Rightarrow> hook_state outcome" where
  "mmap_annon env s =
    (case mmap_at env of
       None \<Rightarrow> Ub Aborted
     | Some a \<Rightarrow> Ret (s\<lparr>map_at := a, map_start := a\<rparr>))"

definition is_map_address :: "hook_state \<Rightarrow> u64 \<Rightarrow> bool" where
  "is_map_address s p \<longleftrightarrow> map_start s \<le> p \<and> p < map_start s + map_size"

definition do_init :: "nested_run \<Rightarrow> hook_env \<Rightarrow> hook_state \<Rightarrow> hook_state run" where
  "do_init go env s =
    (if is_do_init s then Some (Ret s)
     else rbind (Some (mmap_annon env (s\<lparr>is_do_init := True\<rparr>))) (\<lambda>s1.
          rbind (go (nested env ''stdio'') s1) (\<lambda>s2.
          Some (hook_stat_file env s2))))"

definition page_malloc :: "hook_state \<Rightarrow> (u64 \<times> hook_state) outcome" where
  "page_malloc s =
    (let s1 = s\<lparr>map_at := map_at s + PAGE_SIZE\<rparr>
     in if map_at s1 \<ge> map_start s1 + map_size then Ub Aborted
        else Ret (map_at s, s1\<lparr>malloc_count := malloc_count s1 + 1\<rparr>))"

definition hook_malloc :: "nested_run \<Rightarrow> hook_env \<Rightarrow> u64 \<Rightarrow> hook_state \<Rightarrow> (u64 \<times> hook_state) run" where
  "hook_malloc go env sz s =
    (let rest = (\<lambda>s. rbind (do_init go env s) (\<lambda>s1.
           if sz = 4128 then Some (page_malloc s1) else Some (Ret (libc env (Malloc sz) s1))))
     in if real_malloc s then rest s
        else if do_malloc_init s then Some (mm_alloc env sz s)
        else rbind (init_symbol go env ''malloc'' (s\<lparr>do_malloc_init := True\<rparr>)) (\<lambda>s1.
               rest (s1\<lparr>real_malloc := True\<rparr>)))"

text \<open>During the look-up of \<open>calloc\<close> the block is cleared byte by byte.\<close>

definition hook_calloc :: "nested_run \<Rightarrow> hook_env \<Rightarrow> u64 \<Rightarrow> u64 \<Rightarrow> hook_state \<Rightarrow> (u64 \<times> hook_state) run" where
  "hook_calloc go env nmemb sz s =
    (let rest = (\<lambda>s. rbind (do_init go env s) (\<lambda>s1. Some (Ret (libc env (Calloc nmemb sz) s1))))
     in if real_calloc s then rest s
        else if do_calloc_init s
        then rbind (Some (mm_alloc env (nmemb * sz) s)) (\<lambda>(p, s1).
               if unat (p - buffer_at env) + unat (nmemb * sz) \<le> unat buffer_size
               then Some (Ret (p, s1)) else Some (Ub OutOfBounds))
        else rbind (init_symbol go env ''calloc'' (s\<lparr>do_calloc_init := True\<rparr>)) (\<lambda>s1.
               rest (s1\<lparr>real_calloc := True\<rparr>)))"

definition hook_realloc :: "nested_run \<Rightarrow> hook_env \<Rightarrow> u64 \<Rightarrow> u64 \<Rightarrow> hook_state \<Rightarrow> (u64 \<times> hook_state) run" where
  "hook_realloc go env p sz s =
     rbind (if real_realloc s then Some (Ret s)
            else rbind (init_symbol go env ''realloc'' s) (\<lambda>s1. Some (Ret (s1\<lparr>real_realloc := True\<rparr>)))) (\<lambda>s2.
     rbind (do_init go env s2) (\<lambda>s3. Some (Ret (libc env (Realloc p sz) s3))))"

definition hook_free :: "nested_run \<Rightarrow> hook_env \<Rightarrow> u64 \<Rightarrow> hook_state \<Rightarrow> (u64 \<times> hook_state) run" where
  "hook_free go env p s =
    (if mm_is_address env p then Some (Ret (0, s))
     else rbind (if real_free s then Some (Ret s)
                 else rbind (init_symbol go env ''free'' s) (\<lambda>s1. Some (Ret (s1\<lparr>real_free := True\<rparr>)))) (\<lambda>s2.
          rbind (do_init go env s2) (\<lambda>s3.
            if is_map_address s3 p then Some (Ret (0, s3)) else Some (Ret (libc env (Free p) s3)))))"

fun hook_step :: "nested_run \<Rightarrow> hook_env \<Rightarrow> hook_req \<Rightarrow> hook_state \<Rightarrow> (u64 \<times> hook_state) run" where
  "hook_step go env (Malloc sz) s = hook_malloc go env sz s"
| "hook_step go env (Calloc n sz) s = hook_calloc go env n sz s"
| "hook_step go env (Realloc p sz) s = hook_realloc go env p sz s"
| "hook_step go env (Free p) s = hook_free go env p s"

text \<open>A sequence of requests, and calls nested to a given depth; \<open>None\<close> when the depth is exceeded.\<close>

primrec run_seq :: "(hook_req \<Rightarrow> hook_state \<Rightarrow> (u64 \<times> hook_state) run) \<Rightarrow> nested_run" where
  "run_seq f [] s = Some (Ret s)"
| "run_seq f (r # rs) s = rbind (f r s) (\<lambda>(_, s1). run_seq f rs s1)"

primrec hook_call :: "nat \<Rightarrow> hook_env \<Rightarrow> hook_req \<Rightarrow> hook_state \<Rightarrow> (u64 \<times> hook_state) run" where
  "hook_call 0 env r s = None"
| "hook_call (Suc n) env r s = hook_step (run_seq (hook_call n env)) env r s"

subsection \<open>The invariant\<close>

text \<open>
  \<open>mmap\<close> returns a page-aligned range of the address space, and the buffer is an object of the program.
\<close>

definition env_ok :: "hook_env \<Rightarrow> bool" where
  "env_ok env \<longleftrightarrow> (\<forall>a. mmap_at env = Some a \<longrightarrow> unat a mod 4096 = 0 \<and> unat a + unat map_size < 2 ^ 64)
     \<and> unat (buffer_at env) + unat buffer_size < 2 ^ 64"

definition map_ok :: "hook_env \<Rightarrow> hook_state \<Rightarrow> bool" where
  "map_ok env s \<longleftrightarrow> mmap_at env = Some (map_start s) \<and> unat (map_start s) \<le> unat (map_at s)
     \<and> unat (map_at s) mod 4096 = 0 \<and> unat (map_at s) < unat (map_start s) + unat map_size"

definition frees_ok :: "hook_env \<Rightarrow> hook_state \<Rightarrow> bool" where
  "frees_ok env s \<longleftrightarrow> (\<forall>p. Free p \<in> set (libc_calls s) \<longrightarrow>
     is_do_init s \<and> \<not> mm_is_address env p \<and> \<not> is_map_address s p)"

definition hook_inv :: "hook_env \<Rightarrow> hook_state \<Rightarrow> bool" where
  "hook_inv env s \<longleftrightarrow> env_ok env \<and> buffer_used s \<le> buffer_size
     \<and> (is_do_init s \<longrightarrow> map_ok env s) \<and> frees_ok env s"

text \<open>How a state may develop: the mapping is set up once and its fill level only grows.\<close>

definition later :: "hook_state \<Rightarrow> hook_state \<Rightarrow> bool" where
  "later s s' \<longleftrightarrow> (real_malloc s \<longrightarrow> real_malloc s') \<and> (do_malloc_init s \<longrightarrow> do_malloc_init s')
     \<and> (do_calloc_init s \<longrightarrow> do_calloc_init s') \<and> (is_do_init s \<longrightarrow>
     is_do_init s' \<and> map_start s' = map_start s \<and> unat (map_at s) \<le> unat (map_at s'))"

lemma later_refl [simp]: "later s s"
  by (simp add: later_def)

lemma later_trans: "later s s1 \<Longrightarrow> later s1 s2 \<Longrightarrow> later s s2"
  by (auto simp: later_def)

lemma flags_irrelevant [simp]:
  "hook_inv env (s\<lparr>do_malloc_init := b\<rparr>) = hook_inv env s" "hook_inv env (s\<lparr>do_calloc_init := b\<rparr>) = hook_inv env s"
  "hook_inv env (s\<lparr>real_malloc := b\<rparr>) = hook_inv env s" "hook_inv env (s\<lparr>real_calloc := b\<rparr>) = hook_inv env s"
  "hook_inv env (s\<lparr>real_realloc := b\<rparr>) = hook_inv env s" "hook_inv env (s\<lparr>real_free := b\<rparr>) = hook_inv env s"
  "hook_inv env (s\<lparr>stat_text := x\<rparr>) = hook_inv env s"
  "later t (s\<lparr>real_calloc := b\<rparr>) = later t s"
  "later t (s\<lparr>real_realloc := b\<rparr>) = later t s" "later t (s\<lparr>real_free := b\<rparr>) = later t s"
  "later t (s\<lparr>stat_text := x\<rparr>) = later t s"
  by (simp_all add: hook_inv_def map_ok_def frees_ok_def is_map_address_def later_def)

lemma later_flags:
  "later t s \<Longrightarrow> later t (s\<lparr>real_malloc := True\<rparr>)"
  "later (s\<lparr>do_malloc_init := True\<rparr>) t \<Longrightarrow> later s t" "later (s\<lparr>do_calloc_init := True\<rparr>) t \<Longrightarrow> later s t"
  by (simp_all add: later_def)

lemma mm_alloc_keeps:
  assumes "hook_inv env s" "mm_alloc env sz s = Ret (p, s')"
  shows "hook_inv env s'" "later s s'"
  using assms by (auto simp: mm_alloc_def hook_inv_def map_ok_def frees_ok_def is_map_address_def later_def split: if_splits)

lemma libc_keeps:
  assumes "hook_inv env s" "libc env r s = (v, s')" "is_do_init s"
    and "\<And>p. r = Free p \<Longrightarrow> \<not> mm_is_address env p \<and> \<not> is_map_address s p"
  shows "hook_inv env s'" "later s s'"
  using assms by (auto simp: libc_def hook_inv_def map_ok_def frees_ok_def is_map_address_def later_def)

lemma page_malloc_keeps:
  assumes "hook_inv env s" "is_do_init s" "page_malloc s = Ret (p, s')"
  shows "hook_inv env s'" "later s s'" "p = map_at s" "unat (map_at s') = unat p + 4096"
    "is_do_init s'" "map_start s' = map_start s"
proof -
  have env: "unat (map_start s) mod 4096 = 0" "unat (map_start s) + unat map_size < 2 ^ 64"
    and m: "unat (map_start s) \<le> unat (map_at s)" "unat (map_at s) mod 4096 = 0"
      "unat (map_at s) < unat (map_start s) + unat map_size" and eq: "mmap_at env = Some (map_start s)"
    using assms(1,2) by (auto simp: hook_inv_def map_ok_def env_ok_def)
  have top: "unat (map_start s + map_size) = unat (map_start s) + unat map_size"
    using env(2) by (simp add: unat_word_ariths)
  have next_page: "unat (map_at s + PAGE_SIZE) = unat (map_at s) + 4096"
  proof -
    obtain q r where qr: "unat (map_at s) = 4096 * q" "unat (map_start s) = 4096 * r"
      using env(1) m(2) by (auto elim!: dvdE simp: mod_eq_0_iff_dvd)
    have size: "unat map_size = 4096 * 786432" by (simp add: map_size_def)
    have "4096 * q < 4096 * (r + 786432)" using m(3) unfolding qr size by (simp add: distrib_left)
    then have "q < r + 786432" by (simp only: mult_less_cancel1)
    then have "q + 1 \<le> r + 786432" by simp
    then have "4096 * (q + 1) \<le> 4096 * (r + 786432)" by (rule mult_le_mono2)
    then have "unat (map_at s) + 4096 \<le> unat (map_start s) + unat map_size"
      unfolding qr size by (simp only: distrib_left mult_1_right)
    with env(2) show ?thesis by (simp add: unat_word_ariths)
  qed
  have s': "p = map_at s" "s' = s\<lparr>map_at := map_at s + PAGE_SIZE, malloc_count := malloc_count s + 1\<rparr>"
    and lt: "unat (map_at s) + 4096 < unat (map_start s) + unat map_size"
    using assms(3) by (auto simp: page_malloc_def Let_def word_le_nat_alt next_page top split: if_splits)
  then show "p = map_at s" "unat (map_at s') = unat p + 4096" "is_do_init s'" "map_start s' = map_start s" "later s s'"
    using assms(2) by (simp_all add: next_page later_def)
  show "hook_inv env s'"
    using assms(1,2) m lt by (simp add: s' hook_inv_def map_ok_def next_page frees_ok_def is_map_address_def mod_simps)
qed

lemma mapped_inv:
  assumes "hook_inv env s" "\<not> is_do_init s" "mmap_at env = Some a"
  shows "hook_inv env (s\<lparr>is_do_init := True, map_at := a, map_start := a\<rparr>)"
  using assms by (auto simp: hook_inv_def map_ok_def env_ok_def frees_ok_def map_size_def)

text \<open>
  What every function of the hook relies on: calls that \<open>dlsym\<close> and \<open>stdio\<close> make back into the hook
  keep the invariant.
\<close>

locale nested_calls =
  fixes env :: hook_env and go :: nested_run
  assumes go_keeps: "hook_inv env s \<Longrightarrow> go rs s = Some (Ret s') \<Longrightarrow> hook_inv env s' \<and> later s s'"
begin

lemma init_symbol_keeps:
  assumes "hook_inv env s" "init_symbol go env name s = Some (Ret s')"
  shows "hook_inv env s'" "later s s'"
  using assms go_keeps by (auto simp: init_symbol_def split: if_splits)

lemma do_init_keeps:
  assumes "hook_inv env s" "do_init go env s = Some (Ret s')"
  shows "hook_inv env s'" "later s s'" "is_do_init s'"
proof -
  have "hook_inv env s' \<and> later s s' \<and> is_do_init s'"
  proof (cases "is_do_init s")
    case True
    with assms show ?thesis by (simp add: do_init_def)
  next
    case False
    with assms(2) obtain a s2 where a: "mmap_at env = Some a"
      and go: "go (nested env ''stdio'') (s\<lparr>is_do_init := True, map_at := a, map_start := a\<rparr>) = Some (Ret s2)"
      and s': "hook_stat_file env s2 = Ret s'"
      by (auto simp: do_init_def mmap_annon_def split: option.splits)
    let ?s1 = "s\<lparr>is_do_init := True, map_at := a, map_start := a\<rparr>"
    have "hook_inv env ?s1" by (rule mapped_inv [OF assms(1) False a])
    from go_keeps [OF this go] have "hook_inv env s2" "later ?s1 s2" by auto
    then show ?thesis
      using s' False by (auto simp: hook_stat_file_def later_def split: if_splits)
  qed
  then show "hook_inv env s'" "later s s'" "is_do_init s'" by auto
qed

lemma malloc_keeps:
  assumes "hook_inv env s" "hook_malloc go env sz s = Some (Ret (p, s'))"
  shows "hook_inv env s' \<and> later s s'"
proof -
  have rest: "hook_inv env s' \<and> later t s'"
    if "hook_inv env t" "rbind (do_init go env t) (\<lambda>s1. if sz = 4128 then Some (page_malloc s1)
        else Some (Ret (libc env (Malloc sz) s1))) = Some (Ret (p, s'))" for t
  proof -
    from that(2) obtain s1 where s1: "do_init go env t = Some (Ret s1)"
      "(if sz = 4128 then Some (page_malloc s1) else Some (Ret (libc env (Malloc sz) s1))) = Some (Ret (p, s'))"
      by auto
    note k = do_init_keeps [OF that(1) s1(1)]
    show ?thesis
      using s1(2) page_malloc_keeps(1,2) [OF k(1,3)] libc_keeps [OF k(1) _ k(3), of "Malloc sz"] later_trans [OF k(2)]
      by (auto split: if_splits)
  qed
  show ?thesis
  proof (cases "real_malloc s \<or> do_malloc_init s")
    case True
    then show ?thesis
      using assms rest [of s] mm_alloc_keeps by (auto simp: hook_malloc_def Let_def split: if_splits)
  next
    case False
    with assms(2) obtain s1 where s1: "init_symbol go env ''malloc'' (s\<lparr>do_malloc_init := True\<rparr>) = Some (Ret s1)"
      and r: "rbind (do_init go env (s1\<lparr>real_malloc := True\<rparr>)) (\<lambda>s1. if sz = 4128 then Some (page_malloc s1)
        else Some (Ret (libc env (Malloc sz) s1))) = Some (Ret (p, s'))"
      by (auto simp: hook_malloc_def Let_def)
    have "hook_inv env (s\<lparr>do_malloc_init := True\<rparr>)" using assms(1) by simp
    from init_symbol_keeps [OF this s1] have "hook_inv env (s1\<lparr>real_malloc := True\<rparr>)" "later s (s1\<lparr>real_malloc := True\<rparr>)"
      by (auto intro: later_flags)
    then show ?thesis using rest [OF _ r] later_trans by blast
  qed
qed

lemma libc_rest_keeps:
  assumes "hook_inv env t" "rbind (do_init go env t) (\<lambda>s1. Some (Ret (libc env r s1))) = Some (Ret (p, s'))"
    and "\<And>q. r \<noteq> Free q"
  shows "hook_inv env s' \<and> later t s'"
proof -
  from assms(2) obtain s1 where s1: "do_init go env t = Some (Ret s1)" "libc env r s1 = (p, s')" by auto
  note k = do_init_keeps [OF assms(1) s1(1)]
  show ?thesis using libc_keeps [OF k(1) s1(2) k(3)] assms(3) later_trans [OF k(2)] by blast
qed

lemma calloc_keeps:
  assumes "hook_inv env s" "hook_calloc go env n sz s = Some (Ret (p, s'))"
  shows "hook_inv env s' \<and> later s s'"
proof (cases "real_calloc s \<or> do_calloc_init s")
  case True
  then show ?thesis
    using assms libc_rest_keeps [of s "Calloc n sz" p s'] mm_alloc_keeps
    by (auto simp: hook_calloc_def Let_def split: if_splits)
next
  case False
  with assms(2) obtain s1 where s1: "init_symbol go env ''calloc'' (s\<lparr>do_calloc_init := True\<rparr>) = Some (Ret s1)"
    and r: "rbind (do_init go env (s1\<lparr>real_calloc := True\<rparr>)) (\<lambda>s1. Some (Ret (libc env (Calloc n sz) s1))) = Some (Ret (p, s'))"
    by (auto simp: hook_calloc_def Let_def)
  have "hook_inv env (s\<lparr>do_calloc_init := True\<rparr>)" using assms(1) by simp
  from init_symbol_keeps [OF this s1] have "hook_inv env (s1\<lparr>real_calloc := True\<rparr>)" "later s (s1\<lparr>real_calloc := True\<rparr>)"
    by (auto intro: later_flags)
  then show ?thesis using libc_rest_keeps [OF _ r] later_trans by blast
qed

lemma resolve_keeps:
  assumes "hook_inv env s" "\<And>t. hook_inv env (upd t) = hook_inv env t" "\<And>t. later s (upd t) = later s t"
    and "(if b then Some (Ret s) else rbind (init_symbol go env name s) (\<lambda>s1. Some (Ret (upd s1)))) = Some (Ret s')"
  shows "hook_inv env s' \<and> later s s'"
  using assms init_symbol_keeps [OF assms(1)] by (auto split: if_splits)

lemma realloc_keeps:
  assumes "hook_inv env s" "hook_realloc go env q sz s = Some (Ret (p, s'))"
  shows "hook_inv env s' \<and> later s s'"
proof -
  from assms(2) obtain s2 where s2: "(if real_realloc s then Some (Ret s)
      else rbind (init_symbol go env ''realloc'' s) (\<lambda>s1. Some (Ret (s1\<lparr>real_realloc := True\<rparr>)))) = Some (Ret s2)"
    and r: "rbind (do_init go env s2) (\<lambda>s3. Some (Ret (libc env (Realloc q sz) s3))) = Some (Ret (p, s'))"
    unfolding hook_realloc_def rbind_eq [of _ "\<lambda>s2. rbind (do_init go env s2) _"] by blast
  have "hook_inv env s2 \<and> later s s2"
    by (rule resolve_keeps [OF assms(1) _ _ s2]) simp_all
  then show ?thesis using libc_rest_keeps [OF _ r] later_trans by blast
qed

lemma free_keeps:
  assumes "hook_inv env s" "hook_free go env q s = Some (Ret (p, s'))"
  shows "hook_inv env s' \<and> later s s'"
proof (cases "mm_is_address env q")
  case True
  with assms show ?thesis by (simp add: hook_free_def)
next
  case False
  with assms(2) obtain s2 s3 where s2: "(if real_free s then Some (Ret s)
      else rbind (init_symbol go env ''free'' s) (\<lambda>s1. Some (Ret (s1\<lparr>real_free := True\<rparr>)))) = Some (Ret s2)"
    and s3: "do_init go env s2 = Some (Ret s3)"
    and r: "(if is_map_address s3 q then Some (Ret (0, s3)) else Some (Ret (libc env (Free q) s3))) = Some (Ret (p, s'))"
    unfolding hook_free_def rbind_eq by (auto simp del: rbind_eq simp: rbind_eq [of _ "\<lambda>s2. rbind (do_init go env s2) _"]
        rbind_eq [of "do_init go env _"])
  have k2: "hook_inv env s2 \<and> later s s2"
    by (rule resolve_keeps [OF assms(1) _ _ s2]) simp_all
  note k3 = do_init_keeps [OF conjunct1 [OF k2] s3]
  have "hook_inv env s' \<and> later s3 s'"
  proof (cases "is_map_address s3 q")
    case True
    with r k3 show ?thesis by simp
  next
    case no: False
    with r have "libc env (Free q) s3 = (p, s')" by simp
    from libc_keeps [OF k3(1) this k3(3)] False no show ?thesis by blast
  qed
  with k2 k3 show ?thesis by (meson later_trans)
qed

lemma step_keeps:
  "hook_inv env s \<Longrightarrow> hook_step go env r s = Some (Ret (v, s')) \<Longrightarrow> hook_inv env s' \<and> later s s'"
  by (cases r) (auto dest: malloc_keeps calloc_keeps realloc_keeps free_keeps)

end

lemma run_seq_keeps:
  assumes "\<And>r s v s'. hook_inv env s \<Longrightarrow> f r s = Some (Ret (v, s')) \<Longrightarrow> hook_inv env s' \<and> later s s'"
    and "hook_inv env s" "run_seq f rs s = Some (Ret s')"
  shows "hook_inv env s' \<and> later s s'"
  using assms(2,3)
proof (induction rs arbitrary: s)
  case (Cons r rs)
  from Cons.prems(2) obtain v s1 where "f r s = Some (Ret (v, s1))" "run_seq f rs s1 = Some (Ret s')" by auto
  with Cons assms(1) show ?case by (meson later_trans)
qed auto

lemma hook_call_keeps:
  "hook_inv env s \<Longrightarrow> hook_call n env r s = Some (Ret (v, s')) \<Longrightarrow> hook_inv env s' \<and> later s s'"
proof (induction n arbitrary: r s v s')
  case (Suc n)
  have "nested_calls env (run_seq (hook_call n env))"
    by unfold_locales (rule run_seq_keeps [of env "hook_call n env"], use Suc.IH in blast)
  from nested_calls.step_keeps [OF this] Suc.prems show ?case by simp
qed simp

text \<open>The hook at any nesting depth provides what its own functions rely on.\<close>

interpretation hook: nested_calls env "run_seq (hook_call n env)" for env n
  by unfold_locales (rule run_seq_keeps [of env "hook_call n env"], use hook_call_keeps in blast)

subsection \<open>Properties: memory the hook hands out and takes back\<close>

text \<open>The states a process can be in between two calls into the hook.\<close>

inductive hook_reach :: "hook_env \<Rightarrow> hook_state \<Rightarrow> bool" for env where
  start: "hook_reach env hook_init"
| step: "hook_reach env s \<Longrightarrow> hook_call n env r s = Some (Ret (v, s')) \<Longrightarrow> hook_reach env s'"

lemma hook_reach_inv: "hook_reach env s \<Longrightarrow> env_ok env \<Longrightarrow> hook_inv env s"
proof (induction rule: hook_reach.induct)
  case start
  then show ?case by (simp add: hook_inv_def frees_ok_def hook_init_def)
next
  case (step s n r v s')
  then show ?case using hook_call_keeps by blast
qed

text \<open>A page block requested once the library's \<open>malloc\<close> is known.\<close>

lemma page_block:
  assumes "hook_inv env s" "real_malloc s" "hook_call n env (Malloc 4128) s = Some (Ret (p, s'))"
  shows "hook_inv env s'" "is_do_init s'" "real_malloc s'" "unat p mod 4096 = 0" "is_map_address s' p"
    "unat (map_at s') = unat p + 4096" "is_do_init s \<longrightarrow> p = map_at s"
proof -
  from assms(3) obtain m where n: "n = Suc m" by (cases n) auto
  with assms(2,3) obtain s1 where s1: "do_init (run_seq (hook_call m env)) env s = Some (Ret s1)"
    "page_malloc s1 = Ret (p, s')"
    by (auto simp: hook_malloc_def Let_def)
  note k = hook.do_init_keeps [OF assms(1) s1(1)]
  note pm = page_malloc_keeps [OF k(1,3) s1(2)]
  show "hook_inv env s'" "is_do_init s'" "unat (map_at s') = unat p + 4096" using pm by auto
  show "real_malloc s'" using assms(2) k(2) pm(2) by (simp add: later_def)
  show "is_do_init s \<longrightarrow> p = map_at s" using s1(1) pm(3) by (auto simp: do_init_def)
  have ok: "map_ok env s1" "env_ok env" using k(1,3) by (auto simp: hook_inv_def)
  then show "unat p mod 4096 = 0" by (simp add: map_ok_def pm(3))
  have "unat (map_start s1 + map_size) = unat (map_start s1) + unat map_size"
    using ok by (simp add: map_ok_def env_ok_def unat_word_ariths)
  then show "is_map_address s' p"
    using ok(1) by (simp add: is_map_address_def pm(3,6) map_ok_def word_le_nat_alt word_less_nat_alt)
qed

text \<open>C37: Page blocks. Once \<open>malloc\<close> is resolved, blocks of 4128 bytes are pages of the shared mapping: both
  are page-aligned addresses inside it, and whatever calls happen in between, a later block starts at
  least one page after an earlier one, so no page is handed out twice. Two requests in a row get
  neighbouring pages, that is, the 4128 bytes of the first run 32 bytes into the second.\<close>

theorem page_blocks_distinct:
  assumes "env_ok env" "hook_reach env s" "real_malloc s"
    and "hook_call n env (Malloc 4128) s = Some (Ret (p, s1))"
    and "run_seq (hook_call m env) rs s1 = Some (Ret s2)"
    and "hook_call k env (Malloc 4128) s2 = Some (Ret (q, s3))"
  shows "unat p mod 4096 = 0 \<and> unat q mod 4096 = 0 \<and> is_map_address s3 p \<and> is_map_address s3 q
    \<and> unat p + 4096 \<le> unat q \<and> (rs = [] \<longrightarrow> unat q + 32 = unat p + 4128)"
proof -
  note b1 = page_block [OF hook_reach_inv [OF assms(2,1)] assms(3,4)]
  have k: "hook_inv env s2 \<and> later s1 s2" by (rule hook.go_keeps [OF b1(1) assms(5)])
  then have s2: "hook_inv env s2" "real_malloc s2" "is_do_init s2" "unat (map_at s1) \<le> unat (map_at s2)"
    "map_start s2 = map_start s1"
    using b1(2,3) by (auto simp: later_def)
  note b2 = page_block [OF s2(1,2) assms(6)]
  have "map_start s3 = map_start s2" using hook_call_keeps [OF s2(1) assms(6)] s2(3) by (simp add: later_def)
  then have "is_map_address s3 p" using b1(5) s2(5) by (simp add: is_map_address_def)
  moreover have "q = map_at s2" using b2(7) s2(3) by simp
  ultimately show ?thesis using b1 b2 s2(4) assms(5) by auto
qed

text \<open>\<open>free\<close> keeps the two allocators apart. In every reachable state, none of the pointers that were
  passed on to the C library's \<open>free\<close> lies in the bootstrap buffer or in the shared mapping.\<close>

theorem free_keeps_hook_memory:
  assumes "env_ok env" "hook_reach env s" "Free p \<in> set (libc_calls s)"
  shows "\<not> mm_is_address env p \<and> is_do_init s \<and> \<not> is_map_address s p"
  using hook_reach_inv [OF assms(2,1)] assms(3) by (auto simp: hook_inv_def frees_ok_def)

text \<open>The bootstrap buffer. A block that \<open>mm_alloc\<close> hands out lies inside the buffer and behind all
  earlier blocks as long as the sum of sizes does not wrap around. The check itself wraps: a
  request of \<open>2 ^ 64\<close> minus the bytes in use is granted and makes the whole buffer free again.\<close>

theorem mm_alloc_bounds:
  assumes "hook_inv env s" "mm_alloc env sz s = Ret (p, s')"
  shows "(unat (buffer_used s) + unat sz < 2 ^ 64 \<longrightarrow>
      unat p = unat (buffer_at env) + unat (buffer_used s)
      \<and> unat p + unat sz \<le> unat (buffer_at env) + unat buffer_size
      \<and> unat (buffer_used s') = unat (buffer_used s) + unat sz)
    \<and> mm_alloc env (- buffer_used s) s = Ret (buffer_at env + buffer_used s, s\<lparr>buffer_used := 0\<rparr>)"
proof -
  have b: "unat (buffer_at env) + unat buffer_size < 2 ^ 64" "unat (buffer_used s) \<le> unat buffer_size"
    using assms(1) by (auto simp: hook_inv_def env_ok_def word_le_nat_alt)
  then have "unat (buffer_at env + buffer_used s) = unat (buffer_at env) + unat (buffer_used s)"
    by (simp add: unat_word_ariths)
  moreover have "unat (buffer_used s + sz) = unat (buffer_used s) + unat sz"
    if "unat (buffer_used s) + unat sz < 2 ^ 64"
    using that by (simp add: unat_word_ariths)
  ultimately show ?thesis
    using assms(2) by (auto simp: mm_alloc_def word_le_nat_alt split: if_splits)
qed

subsection \<open>Depth of the nesting\<close>

text \<open>
  Every nested sequence of allocations is entered with one more of three flags set, so the depth is
  bounded when \<open>dlsym\<close> and \<open>stdio\<close> only allocate.
\<close>

definition fuel_need :: "hook_state \<Rightarrow> nat" where
  "fuel_need s = of_bool (\<not> do_malloc_init s) + of_bool (\<not> do_calloc_init s) + of_bool (\<not> is_do_init s)"

definition is_alloc :: "hook_req \<Rightarrow> bool" where
  "is_alloc r \<longleftrightarrow> (\<exists>n. r = Malloc n) \<or> (\<exists>n m. r = Calloc n m)"

definition only_allocs :: "hook_env \<Rightarrow> bool" where
  "only_allocs env \<longleftrightarrow> (\<forall>name. \<forall>r \<in> set (nested env name). is_alloc r)"

lemma fuel_need_later: "later s s' \<Longrightarrow> fuel_need s' \<le> fuel_need s"
  by (auto simp: later_def fuel_need_def of_bool_def)

lemma rbind_None: "rbind x f = None \<longleftrightarrow> x = None \<or> (\<exists>v. x = Some (Ret v) \<and> f v = None)"
  by (auto simp: rbind_def split: option.splits outcome.splits)

lemma run_seq_returns:
  assumes "\<And>r t. is_alloc r \<Longrightarrow> hook_inv env t \<Longrightarrow> fuel_need t < m \<Longrightarrow> hook_call m env r t \<noteq> None"
    and "hook_inv env s" "fuel_need s < m" "\<forall>r \<in> set rs. is_alloc r"
  shows "run_seq (hook_call m env) rs s \<noteq> None"
  using assms(2-4)
proof (induction rs arbitrary: s)
  case (Cons r rs)
  have "run_seq (hook_call m env) rs s1 \<noteq> None" if "hook_call m env r s = Some (Ret (v, s1))" for v s1
    using hook_call_keeps [OF Cons.prems(1) that] fuel_need_later [of s s1] Cons by force
  with assms(1) [of r s] Cons.prems show ?case
    by (auto simp: rbind_None simp del: not_None_eq)
qed simp

context nested_calls
begin

lemma do_init_returns:
  assumes "hook_inv env s" "only_allocs env" "fuel_need s \<le> m"
    and "\<And>t rs. hook_inv env t \<Longrightarrow> fuel_need t < m \<Longrightarrow> \<forall>r \<in> set rs. is_alloc r \<Longrightarrow> go rs t \<noteq> None"
  shows "do_init go env s \<noteq> None"
proof (cases "is_do_init s")
  case False
  have "go (nested env ''stdio'') (s\<lparr>is_do_init := True, map_at := a, map_start := a\<rparr>) \<noteq> None"
    if "mmap_at env = Some a" for a
    using mapped_inv [OF assms(1) False that] assms(2,3) False
    by (intro assms(4)) (auto simp: fuel_need_def only_allocs_def)
  with False show ?thesis
    by (auto simp: do_init_def mmap_annon_def rbind_None simp del: not_None_eq split: option.splits)
qed (simp add: do_init_def)

lemma init_symbol_returns:
  assumes "hook_inv env s" "only_allocs env" "fuel_need s < m"
    and "\<And>t rs. hook_inv env t \<Longrightarrow> fuel_need t < m \<Longrightarrow> \<forall>r \<in> set rs. is_alloc r \<Longrightarrow> go rs t \<noteq> None"
  shows "init_symbol go env name s \<noteq> None"
  using assms(4) [OF assms(1,3)] assms(2) by (auto simp: init_symbol_def rbind_None only_allocs_def simp del: not_None_eq)

lemma step_returns:
  assumes "hook_inv env s" "only_allocs env" "fuel_need s < m \<or> is_alloc r \<and> fuel_need s \<le> m"
    and go: "\<And>t rs. hook_inv env t \<Longrightarrow> fuel_need t < m \<Longrightarrow> \<forall>r \<in> set rs. is_alloc r \<Longrightarrow> go rs t \<noteq> None"
  shows "hook_step go env r s \<noteq> None"
proof -
  note ret = do_init_returns [OF _ assms(2) _ go] init_symbol_returns [OF _ assms(2) _ go]
  have le: "fuel_need s \<le> m" using assms(3) by auto
  have init: "do_init go env t \<noteq> None" if "hook_inv env t" "later s t" for t
    using ret(1) [OF that(1)] fuel_need_later [OF that(2)] le by simp
  have flag: "fuel_need (s\<lparr>do_malloc_init := True\<rparr>) < m" if "\<not> do_malloc_init s"
    using le that by (simp add: fuel_need_def)
  have flag': "fuel_need (s\<lparr>do_calloc_init := True\<rparr>) < m" if "\<not> do_calloc_init s"
    using le that by (simp add: fuel_need_def)
  show ?thesis
  proof (cases r)
    case (Malloc n)
    have "init_symbol go env ''malloc'' (s\<lparr>do_malloc_init := True\<rparr>) \<noteq> None" if "\<not> do_malloc_init s"
      by (rule ret(2)) (use assms(1) flag [OF that] in simp_all)
    moreover have "do_init go env (s1\<lparr>real_malloc := True\<rparr>) \<noteq> None"
      if "init_symbol go env ''malloc'' (s\<lparr>do_malloc_init := True\<rparr>) = Some (Ret s1)" for s1
      using init_symbol_keeps [OF _ that] assms(1) by (intro init) (auto intro: later_flags)
    ultimately show ?thesis
      using init [OF assms(1)] Malloc by (auto simp: hook_malloc_def Let_def rbind_None simp del: not_None_eq)
  next
    case (Calloc n k)
    have "init_symbol go env ''calloc'' (s\<lparr>do_calloc_init := True\<rparr>) \<noteq> None" if "\<not> do_calloc_init s"
      by (rule ret(2)) (use assms(1) flag' [OF that] in simp_all)
    moreover have "do_init go env (s1\<lparr>real_calloc := True\<rparr>) \<noteq> None"
      if "init_symbol go env ''calloc'' (s\<lparr>do_calloc_init := True\<rparr>) = Some (Ret s1)" for s1
      using init_symbol_keeps [OF _ that] assms(1) by (intro init) (auto intro: later_flags)
    ultimately show ?thesis
      using init [OF assms(1)] Calloc by (auto simp: hook_calloc_def Let_def rbind_None simp del: not_None_eq)
  next
    case (Realloc p k)
    then have "init_symbol go env ''realloc'' s \<noteq> None"
      using ret(2) [OF assms(1)] assms(3) by (auto simp: is_alloc_def)
    moreover have "do_init go env (s1\<lparr>real_realloc := True\<rparr>) \<noteq> None"
      if "init_symbol go env ''realloc'' s = Some (Ret s1)" for s1
      using init_symbol_keeps [OF assms(1) that] by (intro init) auto
    ultimately show ?thesis
      using init [OF assms(1)] Realloc by (auto simp: hook_realloc_def rbind_None simp del: not_None_eq)
  next
    case (Free p)
    then have "init_symbol go env ''free'' s \<noteq> None"
      using ret(2) [OF assms(1)] assms(3) by (auto simp: is_alloc_def)
    moreover have "do_init go env (s1\<lparr>real_free := True\<rparr>) \<noteq> None"
      if "init_symbol go env ''free'' s = Some (Ret s1)" for s1
      using init_symbol_keeps [OF assms(1) that] by (intro init) auto
    ultimately show ?thesis
      using init [OF assms(1)] Free by (auto simp: hook_free_def rbind_None simp del: not_None_eq)
  qed
qed

end

lemma alloc_returns:
  assumes "only_allocs env" "is_alloc r" "hook_inv env s" "fuel_need s < n"
  shows "hook_call n env r s \<noteq> None"
  using assms(2-4)
proof (induction n arbitrary: r s)
  case (Suc m)
  have "hook_step (run_seq (hook_call m env)) env r s \<noteq> None"
    by (rule hook.step_returns [OF Suc.prems(2) assms(1), where m = m], use Suc.prems in simp)
       (rule run_seq_returns [of env m], use Suc.IH in auto)
  then show ?case by simp
qed simp


subsection \<open>A process\<close>

definition demo_hook :: hook_env where
  "demo_hook = \<lparr>buffer_at = 0x400000, mmap_at = Some 0x7f0000000000, own_pid = ''77'', stat_fopen = True,
     real_result = (\<lambda>_ _. 0x900000), dlsym_ok = (\<lambda>_. True),
     nested = (\<lambda>name. if name = ''calloc'' then [Calloc 1 32] else [])\<rparr>"

lemma demo_hook_ok: "env_ok demo_hook" "only_allocs demo_hook"
  by (auto simp: env_ok_def demo_hook_def map_size_def buffer_size_def only_allocs_def is_alloc_def)

definition demo_state :: hook_state where
  "demo_state = hook_init\<lparr>map_at := 0x7f0000000000, map_start := 0x7f0000000000, is_do_init := True,
     do_malloc_init := True, real_malloc := True, libc_calls := [Malloc 16],
     stat_text := Some (range_text 0x7f0000000000 (0x7f0000000000 + map_size) ''77'')\<rparr>"

lemma demo_first: "hook_call 1 demo_hook (Malloc 16) hook_init = Some (Ret (0x900000, demo_state))"
  by (simp add: demo_hook_def demo_state_def hook_init_def hook_malloc_def init_symbol_def rbind_def do_init_def
      mmap_annon_def hook_stat_file_def libc_def Let_def)

lemma demo_reach: "hook_reach demo_hook demo_state"
  using hook_reach.step [OF hook_reach.start demo_first] .

lemma demo_page: "hook_call 1 demo_hook (Malloc 4128) (demo_state\<lparr>map_at := a, malloc_count := c\<rparr>) =
    (if a + PAGE_SIZE \<ge> 0x7f0000000000 + map_size then Some (Ub Aborted)
     else Some (Ret (a, demo_state\<lparr>map_at := a + PAGE_SIZE, malloc_count := c + 1\<rparr>)))"
  by (simp add: demo_state_def hook_malloc_def rbind_def do_init_def page_malloc_def Let_def)

theorem page_blocks_distinct_witness:
  "\<exists>p q s1 s2. hook_call 1 demo_hook (Malloc 4128) demo_state = Some (Ret (p, s1))
    \<and> hook_call 1 demo_hook (Malloc 4128) s1 = Some (Ret (q, s2)) \<and> unat q + 32 = unat p + 4128 \<and> is_map_address s2 q"
proof -
  have s: "demo_state = demo_state\<lparr>map_at := 0x7f0000000000, malloc_count := 0\<rparr>"
    by (simp add: demo_state_def hook_init_def)
  let ?s1 = "demo_state\<lparr>map_at := 0x7f0000001000, malloc_count := 1\<rparr>"
  have a: "hook_call 1 demo_hook (Malloc 4128) demo_state = Some (Ret (0x7f0000000000, ?s1))"
    by (subst s, subst demo_page) (simp add: map_size_def)
  have b: "hook_call 1 demo_hook (Malloc 4128) ?s1 =
      Some (Ret (0x7f0000001000, demo_state\<lparr>map_at := 0x7f0000002000, malloc_count := 2\<rparr>))"
    by (subst demo_page) (simp add: map_size_def)
  have "real_malloc demo_state" by (simp add: demo_state_def)
  from page_blocks_distinct [OF demo_hook_ok(1) demo_reach this a _ b, of 1 "[]"] a b show ?thesis by fastforce
qed

theorem free_keeps_hook_memory_witness:
  "\<exists>s. hook_reach demo_hook s \<and> Free 0x900000 \<in> set (libc_calls s)
    \<and> \<not> mm_is_address demo_hook 0x900000 \<and> \<not> is_map_address s 0x900000"
proof -
  have "hook_call 1 demo_hook (Free 0x900000) demo_state =
      Some (Ret (0x900000, demo_state\<lparr>real_free := True, libc_calls := [Malloc 16, Free 0x900000]\<rparr>))"
    by (simp add: demo_hook_def demo_state_def hook_init_def hook_free_def mm_is_address_def buffer_size_def
        init_symbol_def rbind_def do_init_def is_map_address_def map_size_def libc_def)
  from hook_reach.step [OF demo_reach this]
  have r: "hook_reach demo_hook (demo_state\<lparr>real_free := True, libc_calls := [Malloc 16, Free 0x900000]\<rparr>)" .
  show ?thesis
    using free_keeps_hook_memory [OF demo_hook_ok(1) r, of "0x900000"] r by auto
qed

theorem mm_alloc_bounds_witness:
  "mm_alloc demo_hook 32 hook_init = Ret (0x400000, hook_init\<lparr>buffer_used := 32\<rparr>)
    \<and> unat (0x400000 :: u64) + unat (32 :: u64) \<le> unat (buffer_at demo_hook) + unat buffer_size
    \<and> mm_alloc demo_hook (- 32) (hook_init\<lparr>buffer_used := 32\<rparr>) = Ret (0x400020, hook_init)"
proof -
  have i: "hook_inv demo_hook hook_init" by (rule hook_reach_inv [OF hook_reach.start demo_hook_ok(1)])
  have a: "mm_alloc demo_hook 32 hook_init = Ret (0x400000, hook_init\<lparr>buffer_used := 32\<rparr>)"
    by (simp add: mm_alloc_def hook_init_def demo_hook_def buffer_size_def)
  have j: "hook_inv demo_hook (hook_init\<lparr>buffer_used := 32\<rparr>)" by (rule mm_alloc_keeps(1) [OF i a])
  have b: "mm_alloc demo_hook 32 (hook_init\<lparr>buffer_used := 32\<rparr>) = Ret (0x400020, hook_init\<lparr>buffer_used := 64\<rparr>)"
    by (simp add: mm_alloc_def hook_init_def demo_hook_def buffer_size_def)
  show ?thesis
    using a mm_alloc_bounds [OF i a] mm_alloc_bounds [OF j b] by (simp add: hook_init_def demo_hook_def)
qed


end
