(* ===== verification/Xdma_Request.thy ===== *)
theory Xdma_Request
  imports Acai_Prelude
begin

text \<open>
  Requests of the host's DMA driver (\<open>xdma/linux-kernel/xdma/libxdma.c\<close>): a scatter list is cut into
  software descriptors (\<open>xdma_init_request\<close>), which \<open>transfer_init\<close> writes, ring by ring, as linked
  hardware descriptors for the engine. Shown: the software descriptors are the bytes of the scatter list
  in order, no longer than the hardware allows, and fit the allocated array; a transfer writes
  exactly the next descriptors of the request into the ring, chained, with consecutive device
  addresses and the stop mark on the last one only; submitting a request ends, and what the engine was
  programmed with is the whole request.
\<close>

subsection \<open>Descriptors\<close>

datatype dma_data_direction = DMA_TO_DEVICE | DMA_FROM_DEVICE

record xdma_desc =
  control :: u32
  desc_bytes :: u32
  src_addr_lo :: u32
  src_addr_hi :: u32
  dst_addr_lo :: u32
  dst_addr_hi :: u32
  next_lo :: u32
  next_hi :: u32

definition PCI_DMA_H :: "u64 \<Rightarrow> u32" where "PCI_DMA_H a = ucast (drop_bit 16 (drop_bit 16 a))"
definition PCI_DMA_L :: "u64 \<Rightarrow> u32" where "PCI_DMA_L a = ucast (a AND 0xffffffff)"

definition DESC_MAGIC :: u32 where "DESC_MAGIC = 0xAD4B0000"
definition XDMA_DESC_STOPPED :: u32 where "XDMA_DESC_STOPPED = 1"
definition XDMA_DESC_COMPLETED :: u32 where "XDMA_DESC_COMPLETED = 2"
definition XDMA_DESC_EOP :: u32 where "XDMA_DESC_EOP = 16"
definition LS_BYTE_MASK :: u32 where "LS_BYTE_MASK = 0xFF"
abbreviation XDMA_MAX_ADJ_BLOCK_SIZE :: u32 where "XDMA_MAX_ADJ_BLOCK_SIZE \<equiv> 0x40"

definition xdma_get_next_adj :: "u32 \<Rightarrow> u32 \<Rightarrow> u32" where
  "xdma_get_next_adj remaining nxt =
    (if remaining \<le> 1 then 0
     else let next_index = drop_bit 5 (nxt AND (0x1000 - 1)) mod XDMA_MAX_ADJ_BLOCK_SIZE
     in min (XDMA_MAX_ADJ_BLOCK_SIZE - next_index - 1) (remaining - 1))"

text \<open>\<open>transfer_desc_init\<close>: link \<open>count\<close> descriptors that lie one after the other from bus address \<open>bus\<close>.\<close>

definition chain_desc :: "u64 \<Rightarrow> nat \<Rightarrow> nat \<Rightarrow> xdma_desc \<Rightarrow> xdma_desc" where
  "chain_desc bus count i d =
    (let nxt = (if Suc i < count then bus + of_nat (Suc i) * 32 else 0)
     in d\<lparr>next_lo := PCI_DMA_L nxt, next_hi := PCI_DMA_H nxt, desc_bytes := 0, control := DESC_MAGIC\<rparr>)"

definition transfer_desc_init :: "u64 \<Rightarrow> xdma_desc list \<Rightarrow> xdma_desc list" where
  "transfer_desc_init bus ds = map (\<lambda>i. chain_desc bus (length ds) i (ds ! i)) [0..<length ds]"

definition xdma_desc_link :: "xdma_desc \<Rightarrow> u64 option \<Rightarrow> xdma_desc" where
  "xdma_desc_link first second_bus =
    (let ctl = (control first AND 0x00FFC0ff) OR DESC_MAGIC
     in case second_bus of
          Some b \<Rightarrow> first\<lparr>next_lo := PCI_DMA_L b, next_hi := PCI_DMA_H b, control := ctl\<rparr>
        | None \<Rightarrow> first\<lparr>next_lo := 0, next_hi := 0, control := ctl\<rparr>)"

definition xdma_desc_adjacent :: "u32 \<Rightarrow> xdma_desc \<Rightarrow> xdma_desc" where
  "xdma_desc_adjacent next_adjacent d =
     d\<lparr>control := (control d AND 0x0000f0ff) OR (0xAD4B0000 OR push_bit 8 next_adjacent)\<rparr>"

definition xdma_desc_control_set :: "u32 \<Rightarrow> xdma_desc \<Rightarrow> int \<times> xdma_desc" where
  "xdma_desc_control_set control_field d =
    (if control_field AND NOT LS_BYTE_MASK \<noteq> 0 then (- EINVAL, d)
     else (0, d\<lparr>control := (control d AND NOT LS_BYTE_MASK) OR control_field\<rparr>))"

definition desc_zero :: xdma_desc where
  "desc_zero = \<lparr>control = 0, desc_bytes = 0, src_addr_lo = 0, src_addr_hi = 0, dst_addr_lo = 0,
     dst_addr_hi = 0, next_lo = 0, next_hi = 0\<rparr>"

definition xdma_desc_done :: "nat \<Rightarrow> nat \<Rightarrow> xdma_desc list \<Rightarrow> xdma_desc list" where
  "xdma_desc_done start count ring = take start ring @ replicate count desc_zero @ drop (start + count) ring"

definition xdma_desc_set :: "u64 \<Rightarrow> u64 \<Rightarrow> u32 \<Rightarrow> dma_data_direction \<Rightarrow> xdma_desc \<Rightarrow> xdma_desc" where
  "xdma_desc_set rc_bus_addr ep_addr len dir d =
    (case dir of
       DMA_TO_DEVICE \<Rightarrow>
         d\<lparr>desc_bytes := len, src_addr_lo := PCI_DMA_L rc_bus_addr, src_addr_hi := PCI_DMA_H rc_bus_addr,
           dst_addr_lo := PCI_DMA_L ep_addr, dst_addr_hi := PCI_DMA_H ep_addr\<rparr>
     | DMA_FROM_DEVICE \<Rightarrow>
         d\<lparr>desc_bytes := len, src_addr_lo := PCI_DMA_L ep_addr, src_addr_hi := PCI_DMA_H ep_addr,
           dst_addr_lo := PCI_DMA_L rc_bus_addr, dst_addr_hi := PCI_DMA_H rc_bus_addr\<rparr>)"

subsection \<open>Requests\<close>

record sw_desc =
  sd_addr :: u64
  sd_len :: u32

text \<open>A mapped scatter-list entry by its bus address and length.\<close>

type_synonym sg_dma = "u64 \<times> u32"

record xdma_request_cb =
  rq_ep_addr :: u64
  rq_total_len :: u32
  rq_sdesc :: "sw_desc list"
  sw_desc_idx :: nat

abbreviation sw_desc_cnt :: "xdma_request_cb \<Rightarrow> nat" where
  "sw_desc_cnt req \<equiv> length (rq_sdesc req)"

text \<open>\<open>while (tlen)\<close>: one entry cut at the largest length of a descriptor.\<close>

function split_entry :: "u32 \<Rightarrow> u64 \<Rightarrow> u32 \<Rightarrow> sw_desc list" where
  "split_entry blen addr tlen =
    (if tlen = 0 \<or> blen = 0 then []
     else if tlen > blen
     then \<lparr>sd_addr = addr, sd_len = blen\<rparr> # split_entry blen (addr + ucast blen) (tlen - blen)
     else [\<lparr>sd_addr = addr, sd_len = tlen\<rparr>])"
  by pat_completeness auto
termination
proof (relation "measure (\<lambda>(blen, addr, tlen). unat tlen)", goal_cases)
  case (2 blen addr tlen)
  then have "unat (tlen - blen) = unat tlen - unat blen" "0 < unat blen" "unat blen < unat tlen"
    using unat_sub [of blen tlen] by (auto simp: word_less_nat_alt word_le_nat_alt unat_gt_0)
  then show ?case by simp
qed simp

declare split_entry.simps [simp del]

text \<open>The descriptors a long entry needs beyond one, as the driver counts them, in 32 bits.\<close>

definition extra_descs :: "u32 \<Rightarrow> u32 \<Rightarrow> nat" where
  "extra_descs blen len = (if len > blen then unat ((len + blen - 1) div blen) else 0)"

text \<open>The number of descriptors the driver allocates for a scatter list.\<close>

definition descs_allocated :: "u32 \<Rightarrow> sg_dma list \<Rightarrow> nat" where
  "descs_allocated blen sgl = length sgl + sum_list (map (\<lambda>e. extra_descs blen (snd e)) sgl)"

text \<open>
  The size of the request is computed in 32 bits; \<open>hdr\<close> is \<open>sizeof(struct xdma_request_cb)\<close>, \<open>granted\<close> says
  whether so many bytes can be allocated. The result is the number of descriptors that fit.
\<close>

definition xdma_request_alloc :: "(u32 \<Rightarrow> bool) \<Rightarrow> nat \<Rightarrow> nat \<Rightarrow> nat option outcome" where
  "xdma_request_alloc granted hdr sdesc_nr =
    (let size = of_nat (hdr + sdesc_nr * 16)
     in if \<not> granted size then Ret None
        else if unat size < hdr then Ub OutOfBounds
        else Ret (Some ((unat size - hdr) div 16)))"

text \<open>
  \<open>desc_blen_max\<close> is \<open>blen\<close>. A zero \<open>blen\<close> divides by zero; descriptors beyond the array are stored before
  the driver compares the numbers.
\<close>

definition xdma_init_request ::
  "(u32 \<Rightarrow> bool) \<Rightarrow> nat \<Rightarrow> u32 \<Rightarrow> sg_dma list \<Rightarrow> u64 \<Rightarrow> xdma_request_cb option outcome" where
  "xdma_init_request granted hdr blen sgl ep_addr =
    (if blen = 0 \<and> (\<exists>e \<in> set sgl. 0 < snd e) then Ub Aborted
     else
       let max = descs_allocated blen sgl;
           sds = concat (map (\<lambda>(a, n). split_entry blen a n) sgl)
       in obind (xdma_request_alloc granted hdr max) (\<lambda>room.
            case room of
              None \<Rightarrow> Ret None
            | Some n \<Rightarrow>
                if length sds > n then Ub OutOfBounds
                else Ret (Some \<lparr>rq_ep_addr = ep_addr, rq_total_len = sum_list (map snd sgl),
                       rq_sdesc = sds, sw_desc_idx = 0\<rparr>)))"

subsection \<open>Transfers\<close>

datatype transfer_state =
    TRANSFER_STATE_NEW
  | TRANSFER_STATE_SUBMITTED
  | TRANSFER_STATE_COMPLETED
  | TRANSFER_STATE_FAILED
  | TRANSFER_STATE_ABORTED

text \<open>The two flags \<open>XFER_FLAG_NEED_UNMAP\<close> and \<open>XFER_FLAG_ST_C2H_EOP_RCVED\<close> are fields of their own.\<close>

record xdma_transfer =
  xf_desc_index :: nat
  xf_desc_num :: nat
  xf_desc_adjacent :: nat
  xf_desc_bus :: u64
  xf_res_bus :: u64
  xf_len :: u32
  xf_dir :: dma_data_direction
  xf_desc_cmpl :: nat
  xf_desc_cmpl_th :: nat
  xf_state :: transfer_state
  xf_need_unmap :: bool
  xf_eop_rcved :: bool
  xf_cyclic :: bool
  xf_last_in_request :: bool
  xf_cb :: bool

text \<open>The registers of an engine (\<open>struct engine_regs\<close>, \<open>struct engine_sgdma_regs\<close>) the driver uses.\<close>

datatype engine_reg =
    REG_identifier | REG_control | REG_control_w1s | REG_control_w1c
  | REG_status | REG_status_rc | REG_completed_desc_count | REG_alignments
  | REG_interrupt_enable_mask | REG_interrupt_enable_mask_w1s
  | REG_perf_ctrl | REG_perf_cyc_lo | REG_perf_cyc_hi | REG_perf_dat_lo | REG_perf_dat_hi
  | REG_perf_pnd_lo | REG_perf_pnd_hi
  | REG_first_desc_lo | REG_first_desc_hi | REG_first_desc_adjacent | REG_credits
  | REG_channel_int_enable_w1s

text \<open>
  What the driver does that the device or another thread can observe, in order. A register write is
  recorded with the descriptor ring as it is in memory at that moment, because the device reads
  the ring when it is told to run. \<open>ResultClear\<close> is the \<open>memset\<close> of a result slot, \<open>WakeUp\<close> wakes
  the waiter of a transfer, \<open>WakeShutdown\<close> and \<open>WakePerf\<close> the waiters of the engine, \<open>IoDone\<close> is the
  callback of an asynchronous request.
\<close>

datatype xdma_event =
    RegRead engine_reg
  | RegWrite engine_reg u32 "xdma_desc list"
  | ResultClear nat
  | WakeUp nat
  | WakeShutdown
  | WakePerf
  | IoDone nat

record xdma_performance_ioctl =
  pf_version :: u32
  pf_transfer_size :: u32
  pf_stopped :: u32
  pf_iterations :: u32
  pf_clock_cycle_count :: u64
  pf_data_cycle_count :: u64
  pf_pending_count :: u64

text \<open>
  \<open>xfers\<close> is the memory of the transfers, by address; \<open>transfer_list\<close> links some of them.
\<close>

record xdma_engine =
  magic :: u64
  shutdown :: u32
  dir :: dma_data_direction
  addr_align :: u8
  len_granularity :: u8
  addr_bits :: u8
  channel :: nat
  streaming :: bool
  device_open :: bool
  running :: bool
  non_incr_addr :: bool
  eop_flush :: bool
  desc_dequeued :: nat
  desc_max :: nat
  status :: u32
  interrupt_enable_mask_value :: u32
  irq_bitmask :: u32
  transfer_list :: "nat list"
  xfers :: "nat \<Rightarrow> xdma_transfer"
  cyclic_result_bus :: u64
  desc_bus :: u64
  desc :: "xdma_desc list"
  desc_idx :: nat
  desc_used :: int
  xdma_perf :: "xdma_performance_ioctl option"
  io :: "xdma_event list"

text \<open>
  \<open>transfer_build\<close> on the ring section \<open>ds\<close> of the transfer: one software descriptor each. In streaming
  mode from the device the source is the address of the result the engine writes back.
\<close>

definition build_desc :: "xdma_engine \<Rightarrow> u64 \<Rightarrow> u64 \<Rightarrow> sw_desc \<Rightarrow> xdma_desc \<Rightarrow> xdma_desc" where
  "build_desc e ep bus sd d =
    (let d1 = xdma_desc_set (sd_addr sd) ep (sd_len sd) (dir e) d
     in if streaming e \<and> dir e = DMA_FROM_DEVICE
        then d1\<lparr>src_addr_lo := PCI_DMA_L bus, src_addr_hi := PCI_DMA_H bus\<rparr> else d1)"

fun transfer_build ::
  "xdma_engine \<Rightarrow> u64 \<Rightarrow> u64 \<Rightarrow> u32 \<Rightarrow> sw_desc list \<Rightarrow> xdma_desc list \<Rightarrow> u64 \<times> u32 \<times> xdma_desc list" where
  "transfer_build e ep bus len (sd # sds) (d # ds) =
    (let (ep', len', ds') = transfer_build e (if non_incr_addr e then ep else ep + ucast (sd_len sd))
           (if streaming e \<and> dir e = DMA_FROM_DEVICE then bus + 32 else bus) (len + sd_len sd) sds ds
     in (ep', len', build_desc e ep bus sd d # ds'))"
| "transfer_build e ep bus len _ ds = (ep, len, ds)"

definition transfer_count :: "xdma_engine \<Rightarrow> xdma_request_cb \<Rightarrow> nat" where
  "transfer_count e req =
    (let n = min (sw_desc_cnt req - sw_desc_idx req) (desc_max e)
     in if desc_idx e + n \<ge> desc_max e then desc_max e - desc_idx e else n)"

definition mark_last :: "bool \<Rightarrow> xdma_desc list \<Rightarrow> xdma_desc list" where
  "mark_last flush ds =
    (let n = length ds;
         last = snd (xdma_desc_control_set (XDMA_DESC_STOPPED OR XDMA_DESC_EOP OR XDMA_DESC_COMPLETED) (ds ! (n - 1)))
     in (if flush then map (snd \<circ> xdma_desc_control_set XDMA_DESC_COMPLETED) (butlast ds) else butlast ds) @ [last])"

definition fill_adjacent :: "xdma_desc list \<Rightarrow> xdma_desc list" where
  "fill_adjacent ds =
     map (\<lambda>i. xdma_desc_adjacent (xdma_get_next_adj (of_nat (length ds - i - 1)) (next_lo (ds ! i))) (ds ! i))
       [0..<length ds]"

text \<open>
  Without a descriptor left to write, the loops of \<open>transfer_desc_init\<close> and \<open>transfer_init\<close> touch the
  descriptors beside the section.
\<close>

definition transfer_init ::
  "xdma_engine \<Rightarrow> xdma_request_cb \<Rightarrow> (xdma_engine \<times> xdma_request_cb \<times> xdma_transfer) outcome" where
  "transfer_init e req =
    (let n = transfer_count e req;
         bus = desc_bus e + 32 * of_nat (desc_idx e);
         res_bus = cyclic_result_bus e + 32 * of_nat (desc_idx e);
         ds0 = transfer_desc_init bus (take n (drop (desc_idx e) (desc e)));
         (ep, len, ds1) = transfer_build e (rq_ep_addr req) res_bus 0 (take n (drop (sw_desc_idx req) (rq_sdesc req))) ds0;
         ds2 = fill_adjacent (mark_last (eop_flush e) ds1)
     in if n = 0 then Ub OutOfBounds
        else Ret
        (e\<lparr>desc := take (desc_idx e) (desc e) @ ds2 @ drop (desc_idx e + n) (desc e),
           desc_idx := (desc_idx e + n) mod desc_max e, desc_used := desc_used e + int n,
           io := io e @ (if streaming e \<and> dir e = DMA_FROM_DEVICE
             then map ResultClear [desc_idx e..<desc_idx e + n] else [])\<rparr>,
         req\<lparr>rq_ep_addr := ep, sw_desc_idx := sw_desc_idx req + n\<rparr>,
         \<lparr>xf_desc_index = desc_idx e, xf_desc_num = n, xf_desc_adjacent = n, xf_desc_bus = bus,
          xf_res_bus = res_bus, xf_len = len, xf_dir = dir e, xf_desc_cmpl = 0,
          xf_desc_cmpl_th = (if eop_flush e then 1 else n), xf_state = TRANSFER_STATE_NEW,
          xf_need_unmap = False, xf_eop_rcved = False, xf_cyclic = False, xf_last_in_request = False,
          xf_cb = False\<rparr>))"

text \<open>
  \<open>transfer_destroy\<close> clears the descriptors; the second result says whether the scatter list is unmapped here:
  \<open>nents\<close> is \<open>sgt->nents\<close>, which becomes 0.
\<close>

definition transfer_destroy :: "xdma_transfer \<Rightarrow> nat \<Rightarrow> xdma_engine \<Rightarrow> xdma_engine \<times> nat \<times> bool" where
  "transfer_destroy xf nents e =
    (let e' = e\<lparr>desc := xdma_desc_done (xf_desc_index xf) (xf_desc_num xf) (desc e)\<rparr>;
         unmap = xf_last_in_request xf \<and> xf_need_unmap xf \<and> nents \<noteq> 0
     in (e', if unmap then 0 else nents, unmap))"

subsection \<open>Cutting entries\<close>

definition byte_addrs :: "u64 \<Rightarrow> nat \<Rightarrow> u64 list" where
  "byte_addrs a n = map (\<lambda>i. a + of_nat i) [0..<n]"

lemma byte_addrs_append: "byte_addrs a (m + n) = byte_addrs a m @ byte_addrs (a + of_nat m) n"
  by (auto simp: byte_addrs_def nth_append add.assoc intro!: nth_equalityI simp flip: of_nat_add)

abbreviation sd_bytes :: "sw_desc \<Rightarrow> u64 list" where
  "sd_bytes sd \<equiv> byte_addrs (sd_addr sd) (unat (sd_len sd))"

lemma split_entry_props:
  assumes "blen \<noteq> 0"
  shows "concat (map sd_bytes (split_entry blen a n)) = byte_addrs a (unat n)
    \<and> (\<forall>sd \<in> set (split_entry blen a n). 0 < sd_len sd \<and> sd_len sd \<le> blen)
    \<and> length (split_entry blen a n) = (unat n + unat blen - 1) div unat blen"
  using assms
proof (induction blen a n rule: split_entry.induct)
  case (1 blen addr tlen)
  have b: "0 < unat blen" using 1(2) by (simp add: unat_gt_0)
  show ?case
  proof (cases "tlen > blen")
    case True
    then have le: "blen \<le> tlen" and lt: "unat blen < unat tlen"
      by (simp_all add: word_less_nat_alt word_le_nat_alt)
    have u: "unat (tlen - blen) = unat tlen - unat blen" by (rule unat_sub [OF le])
    have ne: "tlen \<noteq> 0" using lt by auto
    have sum: "unat blen + unat (tlen - blen) = unat tlen" using u lt by simp
    have div: "(unat tlen + unat blen - 1) div unat blen = Suc ((unat (tlen - blen) + unat blen - 1) div unat blen)"
    proof -
      have "unat tlen + unat blen - 1 = (unat (tlen - blen) + unat blen - 1) + unat blen"
        using u lt b by simp
      then show ?thesis using b by (simp only: div_add_self2)
    qed
    have cast: "of_nat (unat blen) = (ucast blen :: u64)" by transfer simp
    show ?thesis
      using 1(1) [OF _ True] 1(2) ne True div byte_addrs_append [of addr "unat blen" "unat (tlen - blen)"]
      by (subst (1 2 3) split_entry.simps) (auto simp: sum cast word_gt_0)
  next
    case False
    show ?thesis
    proof (cases "tlen = 0")
      case True
      then show ?thesis using b by (simp add: split_entry.simps byte_addrs_def)
    next
      case ne: False
      then have "0 < unat tlen" "unat tlen \<le> unat blen" using False by (auto simp: unat_gt_0 word_less_nat_alt)
      then have "(unat tlen + unat blen - 1) div unat blen = 1"
        by (intro div_nat_eqI) auto
      then show ?thesis using ne False 1(2) by (simp add: split_entry.simps word_gt_0)
    qed
  qed
qed

lemma extra_descs_enough:
  assumes "blen \<noteq> 0" "unat len + unat blen \<le> 2 ^ 32"
  shows "(unat len + unat blen - 1) div unat blen \<le> 1 + extra_descs blen len"
proof (cases "len > blen")
  case True
  have b: "0 < unat blen" using assms(1) by (simp add: unat_gt_0)
  have "unat (len + blen - 1) = unat len + unat blen - 1"
  proof -
    have "len + blen - 1 = len + (blen - 1)" by simp
    moreover have "unat (blen - 1) = unat blen - 1" using assms(1) by (simp add: unat_minus_one)
    moreover have "unat (len + (blen - 1)) = unat len + (unat blen - 1)"
      using assms(2) b calculation(2) by (subst unat_plus_if') simp
    ultimately show ?thesis using b by (simp only: Nat.add_diff_assoc Suc_leI One_nat_def)
  qed
  then show ?thesis using True by (simp add: extra_descs_def unat_div)
next
  case False
  then have "unat len \<le> unat blen" by (simp add: word_less_nat_alt)
  then have "unat len + unat blen - 1 < 2 * unat blen" using unat_gt_0 [of blen] assms(1) by linarith
  then have "(unat len + unat blen - 1) div unat blen < 2" by (simp add: less_mult_imp_div_less)
  then show ?thesis by simp
qed

lemma xdma_request_alloc_fits:
  assumes "granted (of_nat (hdr + n * 16))" "hdr + n * 16 < 2 ^ 32"
  shows "xdma_request_alloc granted hdr n = Ret (Some n)"
proof -
  have "unat (of_nat (hdr + n * 16) :: u32) = hdr + n * 16"
    using assms(2) unat_of_nat [of "hdr + n * 16", where 'a = 32] by (simp del: of_nat_add of_nat_mult)
  then show ?thesis using assms(1) by (simp add: xdma_request_alloc_def Let_def del: of_nat_add of_nat_mult)
qed

definition request_ok :: "u32 \<Rightarrow> sg_dma list \<Rightarrow> u64 \<Rightarrow> xdma_request_cb \<Rightarrow> bool" where
  "request_ok blen sgl ep req \<longleftrightarrow> rq_ep_addr req = ep \<and> sw_desc_idx req = 0
    \<and> rq_total_len req = sum_list (map snd sgl)
    \<and> concat (map sd_bytes (rq_sdesc req)) = concat (map (\<lambda>(a, n). byte_addrs a (unat n)) sgl)
    \<and> (\<forall>sd \<in> set (rq_sdesc req). 0 < sd_len sd \<and> sd_len sd \<le> blen)"

lemma xdma_init_request_ok:
  assumes "blen \<noteq> 0" "\<forall>e \<in> set sgl. unat (snd e) + unat blen \<le> 2 ^ 32"
    and "\<And>n. granted n" "hdr + descs_allocated blen sgl * 16 < 2 ^ 32"
  shows "\<exists>req. xdma_init_request granted hdr blen sgl ep = Ret (Some req) \<and> request_ok blen sgl ep req"
proof -
  let ?sds = "concat (map (\<lambda>(a, n). split_entry blen a n) sgl)"
  note sp = split_entry_props [OF assms(1)]
  have "length ?sds \<le> descs_allocated blen sgl"
    using assms(2) extra_descs_enough [OF assms(1)] sp unfolding descs_allocated_def
    by (induction sgl) fastforce+
  moreover have "concat (map sd_bytes ?sds) = concat (map (\<lambda>(a, n). byte_addrs a (unat n)) sgl)"
    using sp by (induction sgl) auto
  moreover have "\<forall>sd \<in> set ?sds. 0 < sd_len sd \<and> sd_len sd \<le> blen"
    using sp by fastforce
  ultimately show ?thesis
    using assms(1,3) xdma_request_alloc_fits [of granted, OF assms(3,4)]
    by (auto simp: xdma_init_request_def Let_def request_ok_def)
qed

subsection \<open>What the device reads\<close>

text \<open>
  The device follows the chain of descriptors in memory: from the bus address it was given, over the
  \<open>next\<close> addresses, up to the descriptor with the stop mark. \<open>base\<close> is the bus address of the ring.
\<close>

definition join32 :: "u32 \<Rightarrow> u32 \<Rightarrow> u64" where
  "join32 lo hi = ucast lo OR push_bit 32 (ucast hi)"

abbreviation desc_next :: "xdma_desc \<Rightarrow> u64" where "desc_next d \<equiv> join32 (next_lo d) (next_hi d)"
abbreviation desc_stops :: "xdma_desc \<Rightarrow> bool" where "desc_stops d \<equiv> bit (control d) 0"

primrec desc_chain :: "nat \<Rightarrow> u64 \<Rightarrow> xdma_desc list \<Rightarrow> u64 \<Rightarrow> xdma_desc list" where
  "desc_chain 0 base ring bus = []"
| "desc_chain (Suc k) base ring bus =
    (let i = unat (bus - base) div 32
     in if i < length ring
        then ring ! i # (if desc_stops (ring ! i) then [] else desc_chain k base ring (desc_next (ring ! i)))
        else [])"

text \<open>One descriptor as an operation: address in host memory, address on the device, length.\<close>

definition desc_op :: "dma_data_direction \<Rightarrow> xdma_desc \<Rightarrow> u64 \<times> u64 \<times> u32" where
  "desc_op dr d =
    (let src = join32 (src_addr_lo d) (src_addr_hi d); dst = join32 (dst_addr_lo d) (dst_addr_hi d)
     in case dr of DMA_TO_DEVICE \<Rightarrow> (src, dst, desc_bytes d) | DMA_FROM_DEVICE \<Rightarrow> (dst, src, desc_bytes d))"

text \<open>The operations a list of software descriptors asks for, from device address \<open>ep\<close>.\<close>

primrec dma_ops :: "bool \<Rightarrow> u64 \<Rightarrow> sw_desc list \<Rightarrow> (u64 \<times> u64 \<times> u32) list" where
  "dma_ops fixed ep [] = []"
| "dma_ops fixed ep (sd # sds) =
    (sd_addr sd, ep, sd_len sd) # dma_ops fixed (if fixed then ep else ep + ucast (sd_len sd)) sds"

lemma PCI_DMA_L_take_bit: "PCI_DMA_L a = ucast (take_bit 32 a)"
  by (simp add: PCI_DMA_L_def take_bit_eq_mask mask_eq_exp_minus_1)

lemma join32_split [simp]: "join32 (PCI_DMA_L a) (PCI_DMA_H a) = a"
proof (rule bit_word_eqI)
  fix n
  assume "n < LENGTH(64)"
  then show "bit (join32 (PCI_DMA_L a) (PCI_DMA_H a)) n = bit a n"
    by (cases "n < 32") (auto simp: join32_def PCI_DMA_L_take_bit PCI_DMA_H_def bit_simps)
qed

lemma xdma_desc_set_op [simp]: "desc_op dr (xdma_desc_set rc ep len dr d) = (rc, ep, len)"
  by (cases dr) (simp_all add: desc_op_def xdma_desc_set_def)

lemma desc_ext_frame [simp]:
  "desc_op dr (xdma_desc_adjacent n d) = desc_op dr d"
  "desc_op dr (snd (xdma_desc_control_set c d)) = desc_op dr d"
  "desc_next (xdma_desc_adjacent n d) = desc_next d"
  "desc_next (snd (xdma_desc_control_set c d)) = desc_next d"
  "desc_next (xdma_desc_set rc ep len dr d) = desc_next d"
  "control (xdma_desc_set rc ep len dr d) = control d"
  "desc_stops (xdma_desc_adjacent n d) = desc_stops d"
  by (cases dr; simp add: desc_op_def xdma_desc_adjacent_def xdma_desc_control_set_def xdma_desc_set_def
      Let_def bit_simps)+

lemma transfer_build_props:
  assumes "\<not> streaming e" "transfer_build e ep bus len sds ds = (ep', len', ds')" "length ds = length sds"
  shows "map (desc_op (dir e)) ds' = dma_ops (non_incr_addr e) ep sds
    \<and> map desc_next ds' = map desc_next ds \<and> map control ds' = map control ds
    \<and> len' = len + sum_list (map sd_len sds)
    \<and> dma_ops (non_incr_addr e) ep (sds @ rest) = dma_ops (non_incr_addr e) ep sds @ dma_ops (non_incr_addr e) ep' rest"
  using assms
proof (induction sds arbitrary: ep bus len ds ep' len' ds')
  case (Cons sd sds)
  then obtain d ds0 where "ds = d # ds0" by (cases ds) auto
  then show ?case
    using Cons.prems Cons.IH [of "if non_incr_addr e then ep else ep + ucast (sd_len sd)" bus "len + sd_len sd" ds0]
    by (auto simp: build_desc_def Let_def split: prod.splits if_splits)
qed simp

lemma length_transfer_desc_init [simp]: "length (transfer_desc_init bus ds) = length ds"
  by (simp add: transfer_desc_init_def)

lemma transfer_desc_init_links:
  "map desc_next (transfer_desc_init bus ds) =
     map (\<lambda>i. if Suc i < length ds then bus + of_nat (Suc i) * 32 else 0) [0..<length ds]"
  "map control (transfer_desc_init bus ds) = replicate (length ds) DESC_MAGIC"
  by (auto simp: transfer_desc_init_def chain_desc_def Let_def map_replicate_const intro!: nth_equalityI)

lemma stop_marks:
  "desc_stops (snd (xdma_desc_control_set (XDMA_DESC_STOPPED OR XDMA_DESC_EOP OR XDMA_DESC_COMPLETED) d))"
  "\<not> desc_stops d \<Longrightarrow> \<not> desc_stops (snd (xdma_desc_control_set XDMA_DESC_COMPLETED d))"
  by (simp_all add: xdma_desc_control_set_def XDMA_DESC_STOPPED_def XDMA_DESC_EOP_def
      XDMA_DESC_COMPLETED_def LS_BYTE_MASK_def bit_simps)

lemma mark_last_props:
  assumes "ds \<noteq> []" "\<forall>d \<in> set ds. \<not> desc_stops d"
  shows "map (desc_op dr) (mark_last fl ds) = map (desc_op dr) ds"
    "map desc_next (mark_last fl ds) = map desc_next ds"
    "map desc_stops (mark_last fl ds) = replicate (length ds - 1) False @ [True]"
proof -
  have eq: "mark_last fl ds =
      (if fl then map (snd \<circ> xdma_desc_control_set XDMA_DESC_COMPLETED) (butlast ds) else butlast ds)
        @ [snd (xdma_desc_control_set (XDMA_DESC_STOPPED OR XDMA_DESC_EOP OR XDMA_DESC_COMPLETED) (last ds))]"
    using assms(1) by (simp add: mark_last_def Let_def last_conv_nth)
  have sp: "map f ds = map f (butlast ds) @ [f (last ds)]" for f :: "xdma_desc \<Rightarrow> 'b"
    using assms(1) by (metis append_butlast_last_id list.simps(8) list.simps(9) map_append)
  show "map (desc_op dr) (mark_last fl ds) = map (desc_op dr) ds"
    "map desc_next (mark_last fl ds) = map desc_next ds"
    unfolding eq sp by simp_all
  have bl: "\<not> desc_stops (butlast ds ! i)" if "i < length ds - 1" for i
    using that assms(2) by (simp add: nth_butlast)
  show "map desc_stops (mark_last fl ds) = replicate (length ds - 1) False @ [True]"
    using bl stop_marks(1) unfolding eq
    by (auto simp: map_replicate_const [symmetric] stop_marks(2) intro!: nth_equalityI)
qed

lemma fill_adjacent_props [simp]:
  "length (fill_adjacent ds) = length ds"
  "map (desc_op dr) (fill_adjacent ds) = map (desc_op dr) ds"
  "map desc_next (fill_adjacent ds) = map desc_next ds"
  "map desc_stops (fill_adjacent ds) = map desc_stops ds"
  by (auto simp: fill_adjacent_def intro!: nth_equalityI)

text \<open>A section of the ring that is linked in order and stopped at its end is read as it lies in memory.\<close>

lemma desc_chain_section:
  assumes "0 < n" "s + n \<le> length ring" "n \<le> k" "32 * length ring \<le> 2 ^ 64"
    and "\<And>i. i < n \<Longrightarrow> desc_stops (ring ! (s + i)) \<longleftrightarrow> Suc i = n"
    and "\<And>i. Suc i < n \<Longrightarrow> desc_next (ring ! (s + i)) = base + 32 * of_nat (Suc (s + i))"
  shows "desc_chain k base ring (base + 32 * of_nat s) = take n (drop s ring)"
  using assms(1-3,5,6)
proof (induction n arbitrary: s k)
  case (Suc n)
  from Suc.prems obtain k' where k: "k = Suc k'" by (cases k) auto
  have s: "s < length ring" using Suc.prems by simp
  have "unat (of_nat (32 * s) :: u64) = 32 * s"
    using s assms(4) unat_of_nat [of "32 * s", where 'a = 64] by simp
  then have i: "unat ((base + 32 * of_nat s) - base) div 32 = s" by simp
  have hd: "take (Suc n) (drop s ring) = ring ! s # take n (drop (Suc s) ring)"
    using s by (simp add: Cons_nth_drop_Suc [symmetric])
  show ?case
  proof (cases "n = 0")
    case True
    then show ?thesis using Suc.prems(4) [of 0] s i hd by (simp add: k Let_def)
  next
    case False
    then have "desc_chain k' base ring (base + 32 * of_nat (Suc s)) = take n (drop (Suc s) ring)"
      using Suc.prems(2,3) Suc.prems(4) [of "Suc i" for i] Suc.prems(5) [of "Suc i" for i] k
      by (intro Suc.IH) auto
    moreover have "\<not> desc_stops (ring ! s)" "desc_next (ring ! s) = base + 32 * of_nat (Suc s)"
      using Suc.prems(4) [of 0] Suc.prems(5) [of 0] False by auto
    ultimately show ?thesis using s i by (simp add: k hd Let_def del: of_nat_Suc)
  qed
qed simp

text \<open>The ring of an engine: \<open>desc_max\<close> descriptors, the next free one inside.\<close>

definition ring_ok :: "xdma_engine \<Rightarrow> bool" where
  "ring_ok e \<longleftrightarrow> length (desc e) = desc_max e \<and> desc_idx e < desc_max e \<and> 32 * desc_max e \<le> 2 ^ 64"

lemma transfer_count_props:
  assumes "ring_ok e" "sw_desc_idx req < sw_desc_cnt req"
  shows "0 < transfer_count e req" "desc_idx e + transfer_count e req \<le> desc_max e"
    "sw_desc_idx req + transfer_count e req \<le> sw_desc_cnt req"
  using assms by (auto simp: transfer_count_def ring_ok_def Let_def)

text \<open>The descriptors a transfer writes into its section of the ring, which starts at bus address \<open>bus\<close>.\<close>

lemma transfer_section:
  assumes "\<not> streaming e" "length old = length sds" "sds \<noteq> []"
    and "transfer_build e ep res 0 sds (transfer_desc_init bus old) = (ep', len, ds1)"
  defines "ds2 \<equiv> fill_adjacent (mark_last (eop_flush e) ds1)"
  shows "length ds2 = length sds" "map (desc_op (dir e)) ds2 = dma_ops (non_incr_addr e) ep sds"
    "i < length sds \<Longrightarrow> desc_stops (ds2 ! i) \<longleftrightarrow> Suc i = length sds"
    "Suc i < length sds \<Longrightarrow> desc_next (ds2 ! i) = bus + of_nat (Suc i) * 32"
proof -
  note tb = transfer_build_props [OF assms(1,4), of "[]"]
  have l1: "length ds1 = length sds"
    using tb assms(2) by (metis length_map length_transfer_desc_init)
  have "map control ds1 = replicate (length sds) DESC_MAGIC"
    using tb assms(2) by (simp add: transfer_desc_init_links)
  then have "\<forall>d \<in> set ds1. control d = DESC_MAGIC"
    by (metis image_eqI in_set_replicate list.set_map)
  then have ns: "\<forall>d \<in> set ds1. \<not> desc_stops d"
    by (simp add: DESC_MAGIC_def bit_simps)
  have ne: "ds1 \<noteq> []" using l1 assms(3) by auto
  note ml = mark_last_props [OF ne ns]
  have stops: "map desc_stops ds2 = replicate (length sds - 1) False @ [True]"
    using ml(3) by (simp add: ds2_def l1)
  then have "length (map desc_stops ds2) = length sds" using assms(3) by (simp add: Suc_leI)
  then show l2: "length ds2 = length sds" by simp
  show "map (desc_op (dir e)) ds2 = dma_ops (non_incr_addr e) ep sds"
    using tb assms(2) by (simp add: ds2_def ml(1))
  show "desc_stops (ds2 ! i) \<longleftrightarrow> Suc i = length sds" if "i < length sds"
    using arg_cong [OF stops, of "\<lambda>xs. xs ! i"] that l2 by (auto simp: nth_append)
  show "desc_next (ds2 ! i) = bus + of_nat (Suc i) * 32" if "Suc i < length sds"
  proof -
    have "map desc_next ds2 = map (\<lambda>i. if Suc i < length old then bus + of_nat (Suc i) * 32 else 0) [0..<length old]"
      using tb assms(2) by (simp add: ds2_def ml(2) transfer_desc_init_links)
    from arg_cong [OF this, of "\<lambda>xs. xs ! i"] show ?thesis
      using that l2 assms(2) by (simp del: of_nat_Suc)
  qed
qed

lemma transfer_init_ret:
  assumes "ring_ok e" "sw_desc_idx req < sw_desc_cnt req"
  obtains e' req' xf where "transfer_init e req = Ret (e', req', xf)"
proof -
  have "\<exists>x. transfer_init e req = Ret x"
    using transfer_count_props(1) [OF assms] by (simp add: transfer_init_def Let_def split: prod.split)
  then show thesis using that by (metis prod_cases3)
qed

text \<open>The software descriptors the next transfer takes.\<close>

definition next_sds :: "xdma_engine \<Rightarrow> xdma_request_cb \<Rightarrow> sw_desc list" where
  "next_sds e req = take (transfer_count e req) (drop (sw_desc_idx req) (rq_sdesc req))"

lemma transfer_init_fields:
  assumes "transfer_init e req = Ret (e', req', xf)" "ring_ok e"
  shows "xf_desc_num xf = transfer_count e req" "xf_desc_adjacent xf = transfer_count e req"
    "xf_desc_bus xf = desc_bus e + 32 * of_nat (desc_idx e)" "xf_desc_index xf = desc_idx e" "\<not> xf_cyclic xf"
    "\<not> xf_cb xf" "sw_desc_idx req' = sw_desc_idx req + transfer_count e req" "rq_sdesc req' = rq_sdesc req"
    "e' = e\<lparr>desc := desc e', desc_idx := (desc_idx e + transfer_count e req) mod desc_max e,
       desc_used := desc_used e + int (transfer_count e req), io := io e'\<rparr>"
    "\<not> streaming e \<Longrightarrow> io e' = io e"
    "desc_max e' = desc_max e" "desc_idx e' = (desc_idx e + transfer_count e req) mod desc_max e"
  using assms by (auto simp: transfer_init_def Let_def split: prod.splits if_splits)

lemma transfer_init_ring:
  assumes "transfer_init e req = Ret (e', req', xf)" "ring_ok e" "sw_desc_idx req < sw_desc_cnt req" "\<not> streaming e"
  shows "ring_ok e'"
    "map (desc_op (dir e)) (desc_chain (desc_max e) (desc_bus e) (desc e') (xf_desc_bus xf)) =
       dma_ops (non_incr_addr e) (rq_ep_addr req) (next_sds e req)"
    "length (desc_chain (desc_max e) (desc_bus e) (desc e') (xf_desc_bus xf)) = transfer_count e req"
    "i < desc_idx e \<or> desc_idx e + transfer_count e req \<le> i \<Longrightarrow> desc e' ! i = desc e ! i"
    "xf_len xf = sum_list (map sd_len (next_sds e req))"
    "dma_ops (non_incr_addr e) (rq_ep_addr req) (drop (sw_desc_idx req) (rq_sdesc req)) =
       dma_ops (non_incr_addr e) (rq_ep_addr req) (next_sds e req)
       @ dma_ops (non_incr_addr e) (rq_ep_addr req') (drop (sw_desc_idx req') (rq_sdesc req'))"
proof -
  let ?n = "transfer_count e req" and ?s = "desc_idx e"
  let ?bus = "desc_bus e + 32 * of_nat ?s" and ?old = "take ?n (drop ?s (desc e))"
  note n = transfer_count_props [OF assms(2,3)]
  note fields = transfer_init_fields [OF assms(1,2)]
  have len: "length (desc e) = desc_max e" "?s < desc_max e" and small: "32 * desc_max e \<le> 2 ^ 64"
    using assms(2) by (simp_all add: ring_ok_def)
  have old: "length ?old = length (next_sds e req)" and l: "length (next_sds e req) = ?n"
    using n len by (simp_all add: next_sds_def)
  have ne: "next_sds e req \<noteq> []" using l n(1) by auto
  obtain ep ln ds1 where b: "transfer_build e (rq_ep_addr req) (cyclic_result_bus e + 32 * of_nat ?s) 0
      (next_sds e req) (transfer_desc_init ?bus ?old) = (ep, ln, ds1)" by (metis prod_cases3)
  let ?ds2 = "fill_adjacent (mark_last (eop_flush e) ds1)"
  note sec = transfer_section [OF assms(4) old ne b]
  note tb = transfer_build_props [OF assms(4) b, of "drop (sw_desc_idx req') (rq_sdesc req')"]
  have d: "desc e' = take ?s (desc e) @ ?ds2 @ drop (?s + ?n) (desc e)"
    and xl: "xf_len xf = ln" and ep': "rq_ep_addr req' = ep"
    using assms(1) b n(1) by (auto simp: transfer_init_def Let_def next_sds_def)
  have ld: "length (desc e') = desc_max e" using d sec(1) l len n(2) by simp
  have at: "desc e' ! (?s + i) = ?ds2 ! i" if "i < ?n" for i
    using that d sec(1) l len by (simp add: nth_append)
  show "ring_ok e'"
    using ld len(2) small by (simp add: ring_ok_def fields(11,12))
  show "i < ?s \<or> ?s + ?n \<le> i \<Longrightarrow> desc e' ! i = desc e ! i"
    using d sec(1) l len n(2) by (auto simp: nth_append)
  have chain: "desc_chain (desc_max e) (desc_bus e) (desc e') (xf_desc_bus xf) = take ?n (drop ?s (desc e'))"
    unfolding fields(3)
  proof (rule desc_chain_section)
    show "desc_stops (desc e' ! (?s + i)) \<longleftrightarrow> Suc i = ?n" if "i < ?n" for i
      using sec(3) [of i] that l at [OF that] by simp
    show "desc_next (desc e' ! (?s + i)) = desc_bus e + 32 * of_nat (Suc (?s + i))" if "Suc i < ?n" for i
      using sec(4) [of i] that l at [of i] by (simp add: algebra_simps)
  qed (use n ld small in auto)
  have "take ?n (drop ?s (desc e')) = ?ds2" using d sec(1) l len by simp
  then show "map (desc_op (dir e)) (desc_chain (desc_max e) (desc_bus e) (desc e') (xf_desc_bus xf)) =
       dma_ops (non_incr_addr e) (rq_ep_addr req) (next_sds e req)"
    "length (desc_chain (desc_max e) (desc_bus e) (desc e') (xf_desc_bus xf)) = ?n"
    using chain sec(1,2) l by simp_all
  have "drop (sw_desc_idx req) (rq_sdesc req) = next_sds e req @ drop (sw_desc_idx req') (rq_sdesc req')"
    using append_take_drop_id [of ?n "drop (sw_desc_idx req) (rq_sdesc req)"]
    by (simp add: fields(7,8) next_sds_def add.commute)
  then show "dma_ops (non_incr_addr e) (rq_ep_addr req) (drop (sw_desc_idx req) (rq_sdesc req)) =
       dma_ops (non_incr_addr e) (rq_ep_addr req) (next_sds e req)
       @ dma_ops (non_incr_addr e) (rq_ep_addr req') (drop (sw_desc_idx req') (rq_sdesc req'))"
    using tb old ep' by simp
  show "xf_len xf = sum_list (map sd_len (next_sds e req))" using tb old xl by simp
qed

subsection \<open>Properties: requests\<close>

text \<open>C19: A request is the scatter list. For entries whose length plus the largest length of a descriptor
  is at most \<open>2 ^ 32\<close>, the software descriptors fit the allocated array, none is empty or longer than the
  hardware allows, and their bytes are the bytes of the scatter list, in order. For longer entries the
  driver's own count wraps around: with the default limit, an entry of \<open>2 ^ 32 - 1\<close> bytes is
  written past the end of the array.\<close>

theorem request_covers_sgl:
  assumes "blen \<noteq> 0" "\<forall>e \<in> set sgl. unat (snd e) + unat blen \<le> 2 ^ 32"
    and "\<And>n. granted n" "hdr + descs_allocated blen sgl * 16 < 2 ^ 32" "hdr < 2 ^ 31"
  shows "(\<exists>req. xdma_init_request granted hdr blen sgl ep = Ret (Some req) \<and> rq_ep_addr req = ep
      \<and> rq_total_len req = sum_list (map snd sgl)
      \<and> concat (map sd_bytes (rq_sdesc req)) = concat (map (\<lambda>(a, n). byte_addrs a (unat n)) sgl)
      \<and> (\<forall>sd \<in> set (rq_sdesc req). 0 < sd_len sd \<and> sd_len sd \<le> blen))
    \<and> xdma_init_request granted hdr 0xFFFFFFF [(a, 0xFFFFFFFF)] ep = Ub OutOfBounds"
proof -
  have "length (split_entry 0xFFFFFFF a 0xFFFFFFFF) = 17" "extra_descs 0xFFFFFFF 0xFFFFFFFF = 0"
    using split_entry_props [of "0xFFFFFFF" a "0xFFFFFFFF"] by (simp_all add: extra_descs_def)
  moreover have "xdma_request_alloc granted hdr 1 = Ret (Some 1)"
    using assms(3,5) by (intro xdma_request_alloc_fits) auto
  ultimately have "xdma_init_request granted hdr 0xFFFFFFF [(a, 0xFFFFFFFF)] ep = Ub OutOfBounds"
    by (simp add: xdma_init_request_def Let_def descs_allocated_def)
  then show ?thesis
    using xdma_init_request_ok [where granted = granted, OF assms(1-4), of ep] by (auto simp: request_ok_def)
qed

theorem request_covers_sgl_witness:
  "\<exists>req. xdma_init_request (\<lambda>_. True) 600 4 [(0x1000, 6), (0x8000, 2)] 0 = Ret (Some req)
    \<and> concat (map sd_bytes (rq_sdesc req)) = [0x1000, 0x1001, 0x1002, 0x1003, 0x1004, 0x1005, 0x8000, 0x8001]"
  using request_covers_sgl [of 4 "[(0x1000, 6), (0x8000, 2)]" "\<lambda>_. True" 600 0]
  by (auto simp: byte_addrs_def upt_rec descs_allocated_def extra_descs_def)

text \<open>C17: A transfer programs the engine with the next part of the request. On an engine whose ring is
  well formed, \<open>transfer_init\<close> writes at least one descriptor; a device that follows the chain from the
  bus address of the transfer reads exactly the next software descriptors, each with its host address, its
  length and the consecutive device address, and stops after the last of them; descriptors outside the
  section are untouched; the ring stays well formed; and what is left of the request is what the
  chain did not take.\<close>

theorem transfer_programs_chain:
  assumes "ring_ok e" "sw_desc_idx req < sw_desc_cnt req" "\<not> streaming e"
  shows "\<exists>e' req' xf. transfer_init e req = Ret (e', req', xf) \<and> ring_ok e' \<and> 0 < xf_desc_num xf
    \<and> map (desc_op (dir e)) (desc_chain (desc_max e) (desc_bus e) (desc e') (xf_desc_bus xf)) =
        dma_ops (non_incr_addr e) (rq_ep_addr req) (take (xf_desc_num xf) (drop (sw_desc_idx req) (rq_sdesc req)))
    \<and> xf_len xf = sum_list (map sd_len (take (xf_desc_num xf) (drop (sw_desc_idx req) (rq_sdesc req))))
    \<and> (\<forall>i. i < desc_idx e \<or> desc_idx e + xf_desc_num xf \<le> i \<longrightarrow> desc e' ! i = desc e ! i)
    \<and> sw_desc_idx req' = sw_desc_idx req + xf_desc_num xf \<and> rq_sdesc req' = rq_sdesc req
    \<and> dma_ops (non_incr_addr e) (rq_ep_addr req) (drop (sw_desc_idx req) (rq_sdesc req)) =
        map (desc_op (dir e)) (desc_chain (desc_max e) (desc_bus e) (desc e') (xf_desc_bus xf))
        @ dma_ops (non_incr_addr e) (rq_ep_addr req') (drop (sw_desc_idx req') (rq_sdesc req'))"
proof -
  obtain e' req' xf where t: "transfer_init e req = Ret (e', req', xf)"
    using transfer_init_ret [OF assms(1,2)] .
  note f = transfer_init_fields [OF t assms(1)] and r = transfer_init_ring [OF t assms]
  show ?thesis
    using transfer_count_props(1) [OF assms(1,2)] r(1,4)
    by (intro exI [of _ e'] exI [of _ req'] exI [of _ xf])
      (simp add: t f(1,7,8) r(2,5) flip: next_sds_def, simp add: r(6) f(7,8))
qed

definition demo_engine :: xdma_engine where
  "demo_engine = \<lparr>magic = 0xEEEEEEEE, shutdown = 0, dir = DMA_TO_DEVICE, addr_align = 1, len_granularity = 1,
     addr_bits = 64, channel = 0, streaming = False, device_open = False, running = False,
     non_incr_addr = False, eop_flush = False, desc_dequeued = 0, desc_max = 4, status = 0,
     interrupt_enable_mask_value = 0, irq_bitmask = 1, transfer_list = [],
     xfers = (\<lambda>_. \<lparr>xf_desc_index = 0, xf_desc_num = 0, xf_desc_adjacent = 0, xf_desc_bus = 0, xf_res_bus = 0,
       xf_len = 0, xf_dir = DMA_TO_DEVICE, xf_desc_cmpl = 0, xf_desc_cmpl_th = 0, xf_state = TRANSFER_STATE_NEW,
       xf_need_unmap = False, xf_eop_rcved = False, xf_cyclic = False, xf_last_in_request = False, xf_cb = False\<rparr>),
     cyclic_result_bus = 0, desc_bus = 0x10000, desc = replicate 4 desc_zero, desc_idx = 3, desc_used = 0,
     xdma_perf = None, io = []\<rparr>"

definition demo_request :: xdma_request_cb where
  "demo_request = \<lparr>rq_ep_addr = 0x100, rq_total_len = 6144,
     rq_sdesc = [\<lparr>sd_addr = 0x8000, sd_len = 4096\<rparr>, \<lparr>sd_addr = 0x3000, sd_len = 2048\<rparr>], sw_desc_idx = 0\<rparr>"

theorem transfer_programs_chain_witness:
  "\<exists>e' req' xf. transfer_init demo_engine demo_request = Ret (e', req', xf) \<and> sw_desc_idx req' = xf_desc_num xf
    \<and> 0 < xf_desc_num xf"
  using transfer_programs_chain [of demo_engine demo_request]
  by (auto simp: demo_engine_def demo_request_def ring_ok_def)

end
