(* ===== verification/Xdma_Engine.thy ===== *)
theory Xdma_Engine
  imports Xdma_Request "HOL-Library.State_Monad"
begin

text \<open>
  The DMA engine of the host's driver (\<open>xdma/linux-kernel/xdma/libxdma.c\<close>): its registers, starting and
  stopping it, queueing transfers and servicing them after an interrupt. An operation is a state
  monad over the engine; the null checks of the C code have no counterpart because the engine
  is the state. Shown: the queue holds the submitted transfers, without repetition, under every operation;
  servicing retires transfers in the order they were queued, exactly as many as the device reports
  descriptors for; the first one that is not complete is failed, even when the device is still busy; the
  engine is restarted with the next one.
\<close>

subsection \<open>Device and module parameters\<close>

record xdma_params =
  poll_mode :: bool
  enable_st_c2h_credit :: bool
  desc_blen_max :: u32

record xdma_result =
  rs_status :: u32
  rs_length :: u32

text \<open>
  The device answers a register read, and fills the result slots in memory, depending on all that the
  driver has done so far.
\<close>

record xdma_hw =
  reg_val :: "xdma_event list \<Rightarrow> engine_reg \<Rightarrow> u32"
  res_val :: "xdma_event list \<Rightarrow> nat \<Rightarrow> xdma_result"

type_synonym 'a eng = "(xdma_engine, 'a) state"

abbreviation when_st :: "bool \<Rightarrow> unit eng \<Rightarrow> unit eng" where
  "when_st b m \<equiv> (if b then m else State_Monad.return ())"

definition log_event :: "xdma_event \<Rightarrow> unit eng" where
  "log_event ev = State_Monad.update (\<lambda>e. e\<lparr>io := io e @ [ev]\<rparr>)"

definition read_register :: "xdma_hw \<Rightarrow> engine_reg \<Rightarrow> u32 eng" where
  "read_register hw r = do {
     e \<leftarrow> State_Monad.get;
     log_event (RegRead r);
     State_Monad.return (reg_val hw (io e) r)
   }"

definition write_register :: "u32 \<Rightarrow> engine_reg \<Rightarrow> unit eng" where
  "write_register v r = do {
     e \<leftarrow> State_Monad.get;
     log_event (RegWrite r v (desc e))
   }"

definition upd_xfer :: "nat \<Rightarrow> (xdma_transfer \<Rightarrow> xdma_transfer) \<Rightarrow> unit eng" where
  "upd_xfer i f = State_Monad.update (\<lambda>e. e\<lparr>xfers := (xfers e)(i := f (xfers e i))\<rparr>)"

definition XDMA_CTRL_RUN_STOP :: u32 where "XDMA_CTRL_RUN_STOP = 0x1"
definition XDMA_CTRL_IE_DESC_STOPPED :: u32 where "XDMA_CTRL_IE_DESC_STOPPED = 0x2"
definition XDMA_CTRL_IE_DESC_COMPLETED :: u32 where "XDMA_CTRL_IE_DESC_COMPLETED = 0x4"
definition XDMA_CTRL_IE_DESC_ALIGN_MISMATCH :: u32 where "XDMA_CTRL_IE_DESC_ALIGN_MISMATCH = 0x8"
definition XDMA_CTRL_IE_MAGIC_STOPPED :: u32 where "XDMA_CTRL_IE_MAGIC_STOPPED = 0x10"
definition XDMA_CTRL_IE_IDLE_STOPPED :: u32 where "XDMA_CTRL_IE_IDLE_STOPPED = 0x40"
definition XDMA_CTRL_IE_READ_ERROR :: u32 where "XDMA_CTRL_IE_READ_ERROR = 0x3E00"
definition XDMA_CTRL_IE_DESC_ERROR :: u32 where "XDMA_CTRL_IE_DESC_ERROR = 0xF80000"
definition XDMA_CTRL_NON_INCR_ADDR :: u32 where "XDMA_CTRL_NON_INCR_ADDR = 0x2000000"
definition XDMA_CTRL_POLL_MODE_WB :: u32 where "XDMA_CTRL_POLL_MODE_WB = 0x4000000"

definition XDMA_STAT_BUSY :: u32 where "XDMA_STAT_BUSY = 0x1"
definition XDMA_STAT_DESC_STOPPED :: u32 where "XDMA_STAT_DESC_STOPPED = 0x2"
definition XDMA_STAT_DESC_COMPLETED :: u32 where "XDMA_STAT_DESC_COMPLETED = 0x4"
definition XDMA_STAT_COMMON_ERR_MASK :: u32 where "XDMA_STAT_COMMON_ERR_MASK = 0x38"
definition XDMA_STAT_DESC_ERR_MASK :: u32 where "XDMA_STAT_DESC_ERR_MASK = 0xF80000"
definition XDMA_STAT_H2C_ERR_MASK :: u32 where
  "XDMA_STAT_H2C_ERR_MASK = XDMA_STAT_COMMON_ERR_MASK OR XDMA_STAT_DESC_ERR_MASK OR 0x3E00 OR 0xC000"
definition XDMA_STAT_C2H_ERR_MASK :: u32 where
  "XDMA_STAT_C2H_ERR_MASK = XDMA_STAT_COMMON_ERR_MASK OR XDMA_STAT_DESC_ERR_MASK OR 0x600"
definition WB_COUNT_MASK :: u32 where "WB_COUNT_MASK = 0x00ffffff"
definition WB_ERR_MASK :: u32 where "WB_ERR_MASK = 0x80000000"
definition ENGINE_SHUTDOWN_REQUEST :: u32 where "ENGINE_SHUTDOWN_REQUEST = 1"
definition ENGINE_SHUTDOWN_IDLE :: u32 where "ENGINE_SHUTDOWN_IDLE = 2"
abbreviation EBUSY :: int where "EBUSY \<equiv> 16"
abbreviation EIO :: int where "EIO \<equiv> 5"
abbreviation ERESTARTSYS :: int where "ERESTARTSYS \<equiv> 512"

subsection \<open>Status, start and stop\<close>

definition engine_reg_dump :: "xdma_hw \<Rightarrow> int eng" where
  "engine_reg_dump hw = do {
     w \<leftarrow> read_register hw REG_identifier;
     if w AND 0xFFF00000 \<noteq> 0x1FC00000 then State_Monad.return (- EINVAL)
     else do {
       _ \<leftarrow> read_register hw REG_status;
       _ \<leftarrow> read_register hw REG_control;
       _ \<leftarrow> read_register hw REG_first_desc_lo;
       _ \<leftarrow> read_register hw REG_first_desc_hi;
       _ \<leftarrow> read_register hw REG_first_desc_adjacent;
       _ \<leftarrow> read_register hw REG_completed_desc_count;
       _ \<leftarrow> read_register hw REG_interrupt_enable_mask;
       State_Monad.return 0
     }
   }"

definition engine_status_read :: "xdma_hw \<Rightarrow> bool \<Rightarrow> bool \<Rightarrow> int eng" where
  "engine_status_read hw clear dump = do {
     rv \<leftarrow> (if dump then engine_reg_dump hw else State_Monad.return 0);
     if rv < 0 then State_Monad.return rv
     else do {
       w \<leftarrow> read_register hw (if clear then REG_status_rc else REG_status);
       State_Monad.update (\<lambda>e. e\<lparr>status := w\<rparr>);
       State_Monad.return rv
     }
   }"

definition c2h_credit :: "xdma_params \<Rightarrow> xdma_engine \<Rightarrow> bool" where
  "c2h_credit p e \<longleftrightarrow> enable_st_c2h_credit p \<and> streaming e \<and> dir e = DMA_FROM_DEVICE"

definition stop_control :: "xdma_params \<Rightarrow> u32" where
  "stop_control p =
     XDMA_CTRL_IE_DESC_ALIGN_MISMATCH OR XDMA_CTRL_IE_MAGIC_STOPPED OR XDMA_CTRL_IE_READ_ERROR
     OR XDMA_CTRL_IE_DESC_ERROR
     OR (if poll_mode p then XDMA_CTRL_POLL_MODE_WB
         else XDMA_CTRL_IE_DESC_STOPPED OR XDMA_CTRL_IE_DESC_COMPLETED)"

definition xdma_engine_stop :: "xdma_params \<Rightarrow> int eng" where
  "xdma_engine_stop p = do {
     e \<leftarrow> State_Monad.get;
     when_st (c2h_credit p e) (write_register 0 REG_credits);
     write_register (stop_control p) REG_control;
     State_Monad.update (\<lambda>e. e\<lparr>running := False\<rparr>);
     State_Monad.return 0
   }"

definition run_control :: "xdma_params \<Rightarrow> xdma_engine \<Rightarrow> u32" where
  "run_control p e =
     XDMA_CTRL_RUN_STOP OR XDMA_CTRL_IE_READ_ERROR OR XDMA_CTRL_IE_DESC_ERROR
     OR XDMA_CTRL_IE_DESC_ALIGN_MISMATCH OR XDMA_CTRL_IE_MAGIC_STOPPED
     OR (if poll_mode p then XDMA_CTRL_POLL_MODE_WB
         else XDMA_CTRL_IE_DESC_STOPPED OR XDMA_CTRL_IE_DESC_COMPLETED)
     OR (if non_incr_addr e then XDMA_CTRL_NON_INCR_ADDR else 0)"

definition engine_start_mode_config :: "xdma_params \<Rightarrow> xdma_hw \<Rightarrow> int eng" where
  "engine_start_mode_config p hw = do {
     e \<leftarrow> State_Monad.get;
     when_st (xdma_perf e \<noteq> None)
       (write_register (XDMA_CTRL_IE_DESC_STOPPED OR XDMA_CTRL_IE_DESC_COMPLETED
          OR XDMA_CTRL_IE_DESC_ALIGN_MISMATCH OR XDMA_CTRL_IE_MAGIC_STOPPED OR XDMA_CTRL_IE_IDLE_STOPPED
          OR XDMA_CTRL_IE_READ_ERROR OR XDMA_CTRL_IE_DESC_ERROR) REG_interrupt_enable_mask);
     write_register (run_control p e) REG_control;
     _ \<leftarrow> read_register hw REG_status;
     State_Monad.return 0
   }"

definition engine_start :: "xdma_params \<Rightarrow> xdma_hw \<Rightarrow> nat option eng" where
  "engine_start p hw = do {
     e \<leftarrow> State_Monad.get;
     if running e then State_Monad.return None
     else case transfer_list e of
       [] \<Rightarrow> State_Monad.return None
     | i # _ \<Rightarrow> do {
         let t = xfers e i;
         State_Monad.update (\<lambda>e. e\<lparr>shutdown := 0\<rparr>);
         when_st (c2h_credit p e) (write_register (word_of_int (desc_used e)) REG_credits);
         State_Monad.update (\<lambda>e. e\<lparr>desc_dequeued := 0\<rparr>);
         write_register (PCI_DMA_L (xf_desc_bus t)) REG_first_desc_lo;
         write_register (PCI_DMA_H (xf_desc_bus t)) REG_first_desc_hi;
         write_register (xdma_get_next_adj (of_nat (xf_desc_adjacent t)) (PCI_DMA_L (xf_desc_bus t)))
           REG_first_desc_adjacent;
         rv \<leftarrow> engine_start_mode_config p hw;
         if rv < 0 then State_Monad.return None
         else do {
           rv \<leftarrow> engine_status_read hw False False;
           if rv < 0 then State_Monad.return None
           else do {
             State_Monad.update (\<lambda>e. e\<lparr>running := True\<rparr>);
             State_Monad.return (Some i)
           }
         }
       }
   }"

subsection \<open>Servicing\<close>

definition engine_service_shutdown :: "xdma_params \<Rightarrow> int eng" where
  "engine_service_shutdown p = do {
     rv \<leftarrow> xdma_engine_stop p;
     if rv < 0 then State_Monad.return rv
     else do {
       log_event WakeShutdown;
       State_Monad.return 0
     }
   }"

definition engine_transfer_completion :: "nat \<Rightarrow> unit eng" where
  "engine_transfer_completion i = do {
     log_event (WakeUp i);
     e \<leftarrow> State_Monad.get;
     when_st (xf_cb (xfers e i) \<and> xf_last_in_request (xfers e i)) (log_event (IoDone i))
   }"

text \<open>
  \<open>list_del\<close> of the head of the queue. The loop of \<open>engine_service_transfer_list\<close> is a recursion over the
  queue, whose head it removes in every round; the result is the first transfer that is left and the
  remaining count.
\<close>

definition list_del_head :: "unit eng" where
  "list_del_head = State_Monad.update (\<lambda>e. e\<lparr>transfer_list := tl (transfer_list e)\<rparr>)"

primrec engine_service_transfer_list :: "nat list \<Rightarrow> u32 \<Rightarrow> (nat option \<times> u32) eng" where
  "engine_service_transfer_list [] c = State_Monad.return (None, c)"
| "engine_service_transfer_list (i # is) c = do {
     e \<leftarrow> State_Monad.get;
     let t = xfers e i;
     if \<not> xf_cyclic t \<and> c > of_nat (xf_desc_num t) then do {
       list_del_head;
       State_Monad.update (\<lambda>e. e\<lparr>desc_dequeued := desc_dequeued e + xf_desc_num t\<rparr>);
       upd_xfer i (\<lambda>t. t\<lparr>xf_state := TRANSFER_STATE_COMPLETED\<rparr>);
       engine_transfer_completion i;
       engine_service_transfer_list is (c - of_nat (xf_desc_num t))
     } else State_Monad.return (Some i, c)
   }"

definition engine_err_handle :: "xdma_params \<Rightarrow> xdma_hw \<Rightarrow> nat \<Rightarrow> int eng" where
  "engine_err_handle p hw i = do {
     e \<leftarrow> State_Monad.get;
     when_st (status e AND XDMA_STAT_BUSY \<noteq> 0) (do {
       _ \<leftarrow> read_register hw REG_status;
       State_Monad.return ()
     });
     upd_xfer i (\<lambda>t. t\<lparr>xf_state := TRANSFER_STATE_FAILED\<rparr>);
     xdma_engine_stop p
   }"

definition status_error :: "xdma_engine \<Rightarrow> bool" where
  "status_error e \<longleftrightarrow>
     (case dir e of
        DMA_FROM_DEVICE \<Rightarrow> status e AND XDMA_STAT_C2H_ERR_MASK \<noteq> 0
      | DMA_TO_DEVICE \<Rightarrow> status e AND XDMA_STAT_H2C_ERR_MASK \<noteq> 0)"

definition eop_received :: "xdma_hw \<Rightarrow> xdma_engine \<Rightarrow> xdma_transfer \<Rightarrow> u32 \<Rightarrow> bool" where
  "eop_received hw e t c \<longleftrightarrow>
     (\<exists>k \<in> {0..<unat c}. rs_status (res_val hw (io e) (xf_desc_index t + k)) AND 1 \<noteq> 0)"

text \<open>The label \<open>transfer_del\<close>.\<close>

definition transfer_del :: "nat \<Rightarrow> nat option eng" where
  "transfer_del i = do {
     list_del_head;
     engine_transfer_completion i;
     State_Monad.return (Some i)
   }"

definition engine_service_final_transfer ::
  "xdma_params \<Rightarrow> xdma_hw \<Rightarrow> nat option \<Rightarrow> u32 \<Rightarrow> nat option eng" where
  "engine_service_final_transfer p hw x c =
    (case x of
       None \<Rightarrow> State_Monad.return None
     | Some i \<Rightarrow> do {
         e \<leftarrow> State_Monad.get;
         let t = xfers e i;
         if status_error e then do {
           _ \<leftarrow> engine_err_handle p hw i;
           transfer_del i
         } else if c < of_nat (xf_desc_num t) then
           if eop_flush e then do {
             upd_xfer i (\<lambda>t. t\<lparr>xf_eop_rcved := xf_eop_rcved t \<or> eop_received hw e t c,
               xf_desc_cmpl := xf_desc_cmpl t + unat c\<rparr>);
             e \<leftarrow> State_Monad.get;
             if \<not> xf_eop_rcved (xfers e i) then State_Monad.return None
             else do {
               _ \<leftarrow> engine_service_shutdown p;
               upd_xfer i (\<lambda>t. t\<lparr>xf_state := TRANSFER_STATE_COMPLETED\<rparr>);
               State_Monad.update (\<lambda>e. e\<lparr>desc_dequeued := desc_dequeued e + xf_desc_cmpl (xfers e i)\<rparr>);
               transfer_del i
             }
           } else do {
             upd_xfer i (\<lambda>t. t\<lparr>xf_state := TRANSFER_STATE_FAILED, xf_desc_cmpl := unat c\<rparr>);
             State_Monad.update (\<lambda>e. e\<lparr>desc_dequeued := desc_dequeued e + xf_desc_num t\<rparr>);
             transfer_del i
           }
         else do {
           upd_xfer i (\<lambda>t. t\<lparr>xf_state := TRANSFER_STATE_COMPLETED, xf_desc_cmpl := xf_desc_num t\<rparr>);
           State_Monad.update (\<lambda>e. e\<lparr>desc_dequeued := desc_dequeued e + xf_desc_num t\<rparr>);
           transfer_del i
         }
       })"

definition engine_service_perf :: "u32 \<Rightarrow> int eng" where
  "engine_service_perf desc_completed = do {
     e \<leftarrow> State_Monad.get;
     (case xdma_perf e of
        None \<Rightarrow> State_Monad.return 0
      | Some pf \<Rightarrow> do {
          when_st (status e AND XDMA_STAT_DESC_COMPLETED \<noteq> 0)
            (State_Monad.update (\<lambda>e. e\<lparr>xdma_perf := map_option (\<lambda>pf. pf\<lparr>pf_iterations := desc_completed\<rparr>) (xdma_perf e)\<rparr>));
          when_st (status e AND XDMA_STAT_DESC_STOPPED \<noteq> 0) (do {
            State_Monad.update (\<lambda>e. e\<lparr>xdma_perf := map_option (\<lambda>pf. pf\<lparr>pf_stopped := 1\<rparr>) (xdma_perf e)\<rparr>);
            log_event WakePerf
          });
          State_Monad.return 0
        })
   }"

definition engine_service_resume :: "xdma_params \<Rightarrow> xdma_hw \<Rightarrow> int eng" where
  "engine_service_resume p hw = do {
     e \<leftarrow> State_Monad.get;
     if \<not> running e then
       if transfer_list e \<noteq> [] then do {
         started \<leftarrow> engine_start p hw;
         State_Monad.return (if started = None then - EINVAL else 0)
       } else do {
         when_st (shutdown e AND ENGINE_SHUTDOWN_REQUEST \<noteq> 0) (do {
           State_Monad.update (\<lambda>e. e\<lparr>shutdown := shutdown e OR ENGINE_SHUTDOWN_IDLE\<rparr>);
           log_event WakeShutdown
         });
         State_Monad.return 0
       }
     else do {
       when_st (transfer_list e = []) (do {
         _ \<leftarrow> engine_service_shutdown p;
         State_Monad.return ()
       });
       State_Monad.return 0
     }
   }"

definition service_status :: "u32 \<Rightarrow> int" where
  "service_status err_flag = (if err_flag \<noteq> 0 then - 1 else 0)"

text \<open>The part of \<open>engine_service\<close> once descriptors are known to be completed.\<close>

definition service_completed :: "xdma_params \<Rightarrow> xdma_hw \<Rightarrow> u32 \<Rightarrow> unit eng" where
  "service_completed p hw desc_count = do {
     e \<leftarrow> State_Monad.get;
     when_st (transfer_list e \<noteq> []) (do {
       _ \<leftarrow> engine_service_perf desc_count;
       State_Monad.return ()
     });
     (x, c) \<leftarrow> engine_service_transfer_list (transfer_list e) (desc_count - of_nat (desc_dequeued e));
     _ \<leftarrow> engine_service_final_transfer p hw x c;
     when_st (\<not> eop_flush e) (do {
       _ \<leftarrow> engine_service_resume p hw;
       State_Monad.return ()
     })
   }"

definition engine_service :: "xdma_params \<Rightarrow> xdma_hw \<Rightarrow> u32 \<Rightarrow> int eng" where
  "engine_service p hw desc_writeback = do {
     let desc_count = desc_writeback AND WB_COUNT_MASK;
     let err_flag = desc_writeback AND WB_ERR_MASK;
     e \<leftarrow> State_Monad.get;
     if \<not> running e then engine_status_read hw True False
     else do {
       rv \<leftarrow> (if desc_count = 0 \<or> err_flag \<noteq> 0 then engine_status_read hw True False else State_Monad.return 0);
       if rv < 0 then State_Monad.return rv
       else do {
         e \<leftarrow> State_Monad.get;
         rv \<leftarrow> (if (running e \<and> status e AND XDMA_STAT_BUSY = 0) \<or> (\<not> eop_flush e \<and> desc_count \<noteq> 0)
                then engine_service_shutdown p else State_Monad.return 0);
         if rv < 0 then State_Monad.return rv
         else do {
           desc_count \<leftarrow> (if desc_count = 0 then read_register hw REG_completed_desc_count
                          else State_Monad.return desc_count);
           when_st (desc_count \<noteq> 0) (service_completed p hw desc_count);
           State_Monad.return (service_status err_flag)
         }
       }
     }
   }"

definition engine_service_work :: "xdma_params \<Rightarrow> xdma_hw \<Rightarrow> bool \<Rightarrow> unit eng" where
  "engine_service_work p hw msix_enabled = do {
     e \<leftarrow> State_Monad.get;
     when_st (magic e = 0xEEEEEEEE) (do {
       rv \<leftarrow> engine_service p hw 0;
       e \<leftarrow> State_Monad.get;
       when_st (0 \<le> rv)
         (if msix_enabled then write_register (interrupt_enable_mask_value e) REG_interrupt_enable_mask_w1s
          else write_register (irq_bitmask e) REG_channel_int_enable_w1s)
     })
   }"

subsection \<open>Queueing and aborting\<close>

definition transfer_abort :: "nat \<Rightarrow> int eng" where
  "transfer_abort i = do {
     e \<leftarrow> State_Monad.get;
     if xf_desc_num (xfers e i) = 0 then State_Monad.return (- EINVAL)
     else do {
       when_st (transfer_list e \<noteq> [] \<and> hd (transfer_list e) = i) list_del_head;
       when_st (xf_state (xfers e i) = TRANSFER_STATE_SUBMITTED)
         (upd_xfer i (\<lambda>t. t\<lparr>xf_state := TRANSFER_STATE_ABORTED\<rparr>));
       State_Monad.return 0
     }
   }"

definition transfer_queue :: "xdma_params \<Rightarrow> xdma_hw \<Rightarrow> bool \<Rightarrow> nat \<Rightarrow> int eng" where
  "transfer_queue p hw offline i = do {
     e \<leftarrow> State_Monad.get;
     if xf_desc_num (xfers e i) = 0 then State_Monad.return (- EINVAL)
     else if offline then State_Monad.return (- EBUSY)
     else if shutdown e AND ENGINE_SHUTDOWN_REQUEST \<noteq> 0 then State_Monad.return (- EBUSY)
     else do {
       upd_xfer i (\<lambda>t. t\<lparr>xf_state := TRANSFER_STATE_SUBMITTED\<rparr>);
       State_Monad.update (\<lambda>e. e\<lparr>transfer_list := transfer_list e @ [i]\<rparr>);
       when_st (\<not> running e) (do {
         _ \<leftarrow> engine_start p hw;
         State_Monad.return ()
       });
       State_Monad.return 0
     }
   }"

subsection \<open>Running the operations\<close>

text \<open>The effect of the straight-line operations, for the simplifier.\<close>

named_theorems eng_run

lemma run_state_update_st [eng_run]: "run_state (State_Monad.update f) e = ((), f e)"
  by (simp add: State_Monad.update_def)

lemma run_log_event [eng_run]: "run_state (log_event ev) e = ((), e\<lparr>io := io e @ [ev]\<rparr>)"
  by (simp add: log_event_def eng_run)

lemma run_read_register [eng_run]:
  "run_state (read_register hw r) e = (reg_val hw (io e) r, e\<lparr>io := io e @ [RegRead r]\<rparr>)"
  by (simp add: read_register_def eng_run)

lemma run_write_register [eng_run]:
  "run_state (write_register v r) e = ((), e\<lparr>io := io e @ [RegWrite r v (desc e)]\<rparr>)"
  by (simp add: write_register_def eng_run)

lemma run_upd_xfer [eng_run]:
  "run_state (upd_xfer i f) e = ((), e\<lparr>xfers := (xfers e)(i := f (xfers e i))\<rparr>)"
  by (simp add: upd_xfer_def eng_run)

lemma run_list_del_head [eng_run]:
  "run_state list_del_head e = ((), e\<lparr>transfer_list := tl (transfer_list e)\<rparr>)"
  by (simp add: list_del_head_def eng_run)

definition stop_events :: "xdma_params \<Rightarrow> xdma_engine \<Rightarrow> xdma_event list" where
  "stop_events p e = (if c2h_credit p e then [RegWrite REG_credits 0 (desc e)] else [])
     @ [RegWrite REG_control (stop_control p) (desc e)]"

lemma run_xdma_engine_stop [eng_run]:
  "run_state (xdma_engine_stop p) e = (0, e\<lparr>io := io e @ stop_events p e, running := False\<rparr>)"
  by (simp add: xdma_engine_stop_def eng_run stop_events_def)

lemma run_engine_service_shutdown [eng_run]:
  "run_state (engine_service_shutdown p) e =
     (0, e\<lparr>io := io e @ stop_events p e @ [WakeShutdown], running := False\<rparr>)"
  by (simp add: engine_service_shutdown_def eng_run)

lemma run_engine_status_read [eng_run]:
  "run_state (engine_status_read hw clear False) e =
     (let r = (if clear then REG_status_rc else REG_status)
      in (0, e\<lparr>io := io e @ [RegRead r], status := reg_val hw (io e) r\<rparr>))"
  by (simp add: engine_status_read_def eng_run Let_def)

definition wake_events :: "xdma_engine \<Rightarrow> nat \<Rightarrow> xdma_event list" where
  "wake_events e i = WakeUp i # (if xf_cb (xfers e i) \<and> xf_last_in_request (xfers e i) then [IoDone i] else [])"

lemma run_engine_transfer_completion [eng_run]:
  "run_state (engine_transfer_completion i) e = ((), e\<lparr>io := io e @ wake_events e i\<rparr>)"
  by (simp add: engine_transfer_completion_def eng_run wake_events_def)

definition start_events :: "xdma_params \<Rightarrow> xdma_engine \<Rightarrow> nat \<Rightarrow> xdma_event list" where
  "start_events p e i =
    (let t = xfers e i; w = (\<lambda>r v. RegWrite r v (desc e))
     in (if c2h_credit p e then [w REG_credits (word_of_int (desc_used e))] else [])
       @ [w REG_first_desc_lo (PCI_DMA_L (xf_desc_bus t)), w REG_first_desc_hi (PCI_DMA_H (xf_desc_bus t)),
          w REG_first_desc_adjacent (xdma_get_next_adj (of_nat (xf_desc_adjacent t)) (PCI_DMA_L (xf_desc_bus t)))]
       @ (if xdma_perf e \<noteq> None then [w REG_interrupt_enable_mask
            (XDMA_CTRL_IE_DESC_STOPPED OR XDMA_CTRL_IE_DESC_COMPLETED
          OR XDMA_CTRL_IE_DESC_ALIGN_MISMATCH OR XDMA_CTRL_IE_MAGIC_STOPPED OR XDMA_CTRL_IE_IDLE_STOPPED
          OR XDMA_CTRL_IE_READ_ERROR OR XDMA_CTRL_IE_DESC_ERROR)] else [])
       @ [w REG_control (run_control p e), RegRead REG_status, RegRead REG_status])"

lemma c2h_credit_fields [simp]:
  "c2h_credit p (e\<lparr>shutdown := a\<rparr>) = c2h_credit p e"
  "c2h_credit p (e\<lparr>io := l\<rparr>) = c2h_credit p e"
  "c2h_credit p (e\<lparr>status := b\<rparr>) = c2h_credit p e"
  "c2h_credit p (e\<lparr>desc_dequeued := n\<rparr>) = c2h_credit p e"
  by (simp_all add: c2h_credit_def)

lemma run_control_fields [simp]:
  "run_control p (e\<lparr>shutdown := a\<rparr>) = run_control p e"
  "run_control p (e\<lparr>io := l\<rparr>) = run_control p e"
  "run_control p (e\<lparr>desc_dequeued := n\<rparr>) = run_control p e"
  by (simp_all add: run_control_def)

lemma run_engine_start [eng_run]:
  "run_state (engine_start p hw) e =
    (case transfer_list e of
       [] \<Rightarrow> (None, e)
     | i # is \<Rightarrow>
         if running e then (None, e)
         else (Some i, e\<lparr>shutdown := 0, desc_dequeued := 0, io := io e @ start_events p e i,
                status := reg_val hw (butlast (io e @ start_events p e i)) REG_status, running := True\<rparr>))"
  by (simp add: engine_start_def engine_start_mode_config_def start_events_def eng_run Let_def butlast_append
      split: list.split)

subsection \<open>Retiring transfers\<close>

text \<open>
  The specification of a service: of the queued transfers, with \<open>num i\<close> descriptors each, those
  that lie strictly before the \<open>c\<close>-th completed descriptor.
\<close>

primrec retired :: "(nat \<Rightarrow> nat) \<Rightarrow> nat \<Rightarrow> nat list \<Rightarrow> nat list" where
  "retired num c [] = []"
| "retired num c (i # is) = (if num i < c then i # retired num (c - num i) is else [])"

abbreviation descs_of :: "xdma_engine \<Rightarrow> nat \<Rightarrow> nat" where
  "descs_of e i \<equiv> xf_desc_num (xfers e i)"

definition queue_ok :: "xdma_engine \<Rightarrow> bool" where
  "queue_ok e \<longleftrightarrow> distinct (transfer_list e)
    \<and> (\<forall>i \<in> set (transfer_list e). xf_state (xfers e i) = TRANSFER_STATE_SUBMITTED
         \<and> 0 < descs_of e i \<and> descs_of e i < 2 ^ 31)"

definition set_states :: "nat list \<Rightarrow> transfer_state \<Rightarrow> (nat \<Rightarrow> xdma_transfer) \<Rightarrow> nat \<Rightarrow> xdma_transfer" where
  "set_states is ts f = (\<lambda>j. if j \<in> set is then (f j)\<lparr>xf_state := ts\<rparr> else f j)"

lemma set_states_Nil [simp]: "set_states [] ts f = f"
  by (simp add: set_states_def)

lemma set_states_Cons [simp]:
  "set_states is ts (f(i := (f i)\<lparr>xf_state := ts\<rparr>)) = set_states (i # is) ts f"
  by (auto simp: set_states_def fun_eq_iff)

lemma retired_prefix: "\<exists>rest. is = retired num c is @ rest"
  by (induction "is" arbitrary: c) auto

lemma retired_sum: "sum_list (map num (retired num c is)) \<le> c"
proof (induction "is" arbitrary: c)
  case (Cons i "is")
  show ?case using Cons.IH [of "c - num i"] by auto
qed simp

lemma retired_stops:
  assumes "is = retired num c is @ j # js"
  shows "c - sum_list (map num (retired num c is)) \<le> num j"
  using assms
proof (induction "is" arbitrary: c)
  case (Cons i "is")
  then show ?case using Cons.IH [of "c - num i"] by (cases "num i < c") auto
qed simp

lemma unat_of_nat_small: "n < 2 ^ 32 \<Longrightarrow> unat (of_nat n :: u32) = n"
  by (simp add: unat_of_nat)

lemma set_retired: "set (retired num c is) \<subseteq> set is"
  using retired_prefix [of "is" num c] by (metis Un_upper1 set_append)

text \<open>Here \<open>e0\<close> is the engine before the loop: the loop changes no transfer that is still queued.\<close>

lemma run_service_loop:
  assumes "transfer_list e = is" "distinct is" "\<forall>i \<in> set is. xfers e i = xfers e0 i"
    and "\<forall>i \<in> set is. \<not> xf_cyclic (xfers e0 i) \<and> descs_of e0 i < 2 ^ 31"
  shows "run_state (engine_service_transfer_list is c) e =
    (let full = retired (descs_of e0) (unat c) is; rest = drop (length full) is
     in ((case rest of [] \<Rightarrow> None | j # _ \<Rightarrow> Some j, c - of_nat (sum_list (map (descs_of e0) full))),
         e\<lparr>transfer_list := rest, desc_dequeued := desc_dequeued e + sum_list (map (descs_of e0) full),
           xfers := set_states full TRANSFER_STATE_COMPLETED (xfers e),
           io := io e @ concat (map (wake_events e0) full)\<rparr>))"
  using assms
proof (induction "is" arbitrary: e c)
  case Nil
  then show ?case by simp
next
  case (Cons i "is")
  have x: "xfers e i = xfers e0 i" using Cons.prems(3) by simp
  have u: "unat (of_nat (descs_of e0 i) :: u32) = descs_of e0 i"
    using Cons.prems(4) by (intro unat_of_nat_small) auto
  have cond: "c > of_nat (descs_of e0 i) \<longleftrightarrow> descs_of e0 i < unat c"
    by (simp add: word_less_nat_alt u)
  have nc: "\<not> xf_cyclic (xfers e0 i)" using Cons.prems(4) by simp
  show ?case
  proof (cases "descs_of e0 i < unat c")
    case True
    let ?t = "(xfers e i)\<lparr>xf_state := TRANSFER_STATE_COMPLETED\<rparr>"
    let ?e1 = "e\<lparr>transfer_list := is, desc_dequeued := desc_dequeued e + descs_of e0 i,
      xfers := (xfers e)(i := ?t), io := io e @ wake_events e0 i\<rparr>"
    have w: "wake_events (e\<lparr>transfer_list := is, desc_dequeued := n, xfers := (xfers e)(i := ?t)\<rparr>) i = wake_events e0 i" for n
      by (simp add: wake_events_def x)
    have step: "run_state (engine_service_transfer_list (i # is) c) e =
        run_state (engine_service_transfer_list is (c - of_nat (descs_of e0 i))) ?e1"
      using True nc Cons.prems(1) w by (simp add: eng_run cond Let_def x)
    have sub: "unat (c - of_nat (descs_of e0 i)) = unat c - descs_of e0 i"
      using True by (subst unat_sub) (simp_all add: word_le_nat_alt u)
    have ni: "i \<notin> set (retired num d is)" for num d
      using set_retired [of num d "is"] Cons.prems(2) by auto
    have ih: "run_state (engine_service_transfer_list is (c - of_nat (descs_of e0 i))) ?e1 =
      (let full = retired (descs_of e0) (unat c - descs_of e0 i) is; rest = drop (length full) is
       in ((case rest of [] \<Rightarrow> None | j # _ \<Rightarrow> Some j,
            c - of_nat (descs_of e0 i) - of_nat (sum_list (map (descs_of e0) full))),
           ?e1\<lparr>transfer_list := rest, desc_dequeued := desc_dequeued ?e1 + sum_list (map (descs_of e0) full),
             xfers := set_states full TRANSFER_STATE_COMPLETED (xfers ?e1),
             io := io ?e1 @ concat (map (wake_events e0) full)\<rparr>))"
      using Cons.prems by (subst Cons.IH) (auto simp: sub)
    show ?thesis
      unfolding step ih using True by (simp add: Let_def diff_diff_eq add.assoc)
  next
    case False
    then show ?thesis using Cons.prems(1) nc by (simp add: eng_run cond Let_def x)
  qed
qed

lemma status_error_fields [simp]:
  "status_error (e\<lparr>transfer_list := a\<rparr>) = status_error e"
  "status_error (e\<lparr>desc_dequeued := n\<rparr>) = status_error e"
  "status_error (e\<lparr>xfers := x\<rparr>) = status_error e"
  "status_error (e\<lparr>io := l\<rparr>) = status_error e"
  "status_error (e\<lparr>running := r\<rparr>) = status_error e"
  by (cases "dir e"; simp add: status_error_def)+

text \<open>The last transfer of a service, on an engine that does not flush on end of packet.\<close>

lemma run_final_transfer:
  assumes "\<not> status_error e" "\<not> eop_flush e" "transfer_list e = j # js"
    and "descs_of e j < 2 ^ 31" "unat c \<le> descs_of e j"
  defines "full \<equiv> unat c = descs_of e j"
  shows "run_state (engine_service_final_transfer p hw (Some j) c) e =
    (Some j, e\<lparr>transfer_list := js, desc_dequeued := desc_dequeued e + descs_of e j,
       xfers := (xfers e)(j := (xfers e j)\<lparr>xf_state := if full then TRANSFER_STATE_COMPLETED else TRANSFER_STATE_FAILED,
         xf_desc_cmpl := unat c\<rparr>),
       io := io e @ wake_events e j\<rparr>)"
proof -
  have "unat (of_nat (descs_of e j) :: u32) = descs_of e j"
    using assms(4) by (intro unat_of_nat_small) simp
  then have c: "c < of_nat (descs_of e j) \<longleftrightarrow> \<not> full"
    using assms(5) by (auto simp: word_less_nat_alt full_def)
  show ?thesis
    using assms(1-3) c
    by (cases full) (simp_all add: engine_service_final_transfer_def transfer_del_def eng_run wake_events_def full_def)
qed

text \<open>The transfers whose waiters an event log wakes.\<close>

definition woken :: "xdma_event list \<Rightarrow> nat list" where
  "woken l = concat (map (\<lambda>ev. case ev of WakeUp i \<Rightarrow> [i] | _ \<Rightarrow> []) l)"

lemma woken_simps [simp]:
  "woken [] = []" "woken (a @ b) = woken a @ woken b" "woken (WakeUp i # l) = i # woken l"
  "woken (RegRead r # l) = woken l" "woken (RegWrite r v d # l) = woken l" "woken (WakeShutdown # l) = woken l"
  "woken (IoDone i # l) = woken l"
  by (simp_all add: woken_def)

lemma woken_events [simp]:
  "woken (stop_events p e) = []" "woken (start_events p e i) = []" "woken (wake_events e i) = [i]"
  by (simp_all add: stop_events_def start_events_def wake_events_def Let_def)

lemma woken_wake_events [simp]: "woken (concat (map (wake_events e) is)) = is"
  by (induction "is") auto

lemma run_resume:
  assumes "run_state (engine_service_resume p hw) e = (rv, e')"
  shows "rv = 0" "transfer_list e' = transfer_list e" "xfers e' = xfers e" "desc e' = desc e"
    "running e' \<longleftrightarrow> transfer_list e \<noteq> []" "woken (io e') = woken (io e)"
  using assms
  by (auto simp: engine_service_resume_def eng_run split: list.splits if_splits)

lemma run_service_perf: "xdma_perf e = None \<Longrightarrow> run_state (engine_service_perf c) e = (0, e)"
  by (simp add: engine_service_perf_def)

text \<open>
  What a service with \<open>c\<close> newly completed descriptors does to the queue: the transfers before the last
  completed descriptor are completed, the next one is completed or failed, the rest stays queued.
\<close>

definition serviced :: "nat \<Rightarrow> xdma_engine \<Rightarrow> xdma_engine \<Rightarrow> bool" where
  "serviced c e e' \<longleftrightarrow>
    (let full = retired (descs_of e) c (transfer_list e);
         rest = drop (length full) (transfer_list e);
         left = c - sum_list (map (descs_of e) full)
     in transfer_list e' = tl rest
        \<and> (\<forall>i \<in> set full. xf_state (xfers e' i) = TRANSFER_STATE_COMPLETED)
        \<and> (case rest of [] \<Rightarrow> True
             | j # _ \<Rightarrow> xf_state (xfers e' j) =
                 (if left = descs_of e j then TRANSFER_STATE_COMPLETED else TRANSFER_STATE_FAILED))
        \<and> (\<forall>i. i \<notin> set full \<and> i \<notin> set (take 1 rest) \<longrightarrow> xfers e' i = xfers e i)
        \<and> (\<forall>i. descs_of e' i = descs_of e i)
        \<and> woken (io e') = woken (io e) @ full @ take 1 rest)"

lemma service_completed_serviced:
  assumes "queue_ok e" "\<forall>i \<in> set (transfer_list e). \<not> xf_cyclic (xfers e i)"
    and "\<not> status_error e" "\<not> eop_flush e" "xdma_perf e = None"
    and "run_state (service_completed p hw desc_count) e = (u, e')"
  shows "serviced (unat (desc_count - of_nat (desc_dequeued e))) e e'" "running e' \<longleftrightarrow> transfer_list e' \<noteq> []"
    "desc e' = desc e"
proof -
  let ?c = "desc_count - of_nat (desc_dequeued e)"
  let ?full = "retired (descs_of e) (unat ?c) (transfer_list e)"
  let ?rest = "drop (length ?full) (transfer_list e)"
  let ?left = "?c - of_nat (sum_list (map (descs_of e) ?full))"
  let ?x = "case ?rest of [] \<Rightarrow> None | j # _ \<Rightarrow> Some j"
  let ?e1 = "e\<lparr>transfer_list := ?rest, desc_dequeued := desc_dequeued e + sum_list (map (descs_of e) ?full),
           xfers := set_states ?full TRANSFER_STATE_COMPLETED (xfers e),
           io := io e @ concat (map (wake_events e) ?full)\<rparr>"
  have small: "\<forall>i \<in> set (transfer_list e). descs_of e i < 2 ^ 31" and dist: "distinct (transfer_list e)"
    using assms(1) by (auto simp: queue_ok_def)
  have loop: "run_state (engine_service_transfer_list (transfer_list e) ?c) e = ((?x, ?left), ?e1)"
    using run_service_loop [of e "transfer_list e" e ?c] dist small assms(2) by (simp add: Let_def)
  have perf: "run_state (when_st (transfer_list e \<noteq> []) (do {
       _ \<leftarrow> engine_service_perf desc_count;
       State_Monad.return ()
     })) e = ((), e)"
    by (simp add: run_service_perf [OF assms(5)])
  obtain y e2 where e2: "run_state (engine_service_final_transfer p hw ?x ?left) ?e1 = (y, e2)"
    by (metis prod.exhaust)
  have "run_state (service_completed p hw desc_count) e = ((), snd (run_state (engine_service_resume p hw) e2))"
    by (simp only: service_completed_def run_state_bind run_state_get prod.case perf loop e2 assms(4)
        run_state_return not_False_eq_True if_True split_def fst_conv snd_conv)
  then obtain rv where res: "run_state (engine_service_resume p hw) e2 = (rv, e')"
    using assms(6) by (metis prod.collapse prod.inject)
  note rs = run_resume [OF res]
  have split: "transfer_list e = ?full @ ?rest"
    using retired_prefix [of "transfer_list e" "descs_of e" "unat ?c"] by (metis append_eq_conv_conj)
  show "running e' \<longleftrightarrow> transfer_list e' \<noteq> []" using rs(2,5) by simp
  have left: "unat ?left = unat ?c - sum_list (map (descs_of e) ?full)"
  proof -
    have "sum_list (map (descs_of e) ?full) \<le> unat ?c" by (rule retired_sum)
    then have "unat (of_nat (sum_list (map (descs_of e) ?full)) :: u32) = sum_list (map (descs_of e) ?full)"
      using unsigned_less [of ?c, where ?'a = nat] by (intro unat_of_nat_small) simp
    with \<open>_ \<le> unat ?c\<close> show ?thesis by (subst unat_sub) (simp_all add: word_le_nat_alt)
  qed
  have "serviced (unat ?c) e e' \<and> desc e' = desc e"
  proof (cases ?rest)
    case Nil
    then have "e2 = ?e1" using e2 by (simp add: engine_service_final_transfer_def)
    then show ?thesis using Nil rs by (simp add: serviced_def Let_def set_states_def)
  next
    case (Cons j js)
    have j: "j \<in> set (transfer_list e)" "j \<notin> set ?full"
      using split Cons dist by (metis list.set_intros(1) Un_iff set_append, metis distinct_append
          disjoint_iff list.set_intros(1))
    then have xj: "xfers ?e1 j = xfers e j" by (simp add: set_states_def)
    have le: "unat ?left \<le> descs_of e j"
      using retired_stops [of "transfer_list e" "descs_of e" "unat ?c" j js] split Cons left by simp
    have w: "wake_events ?e1 j = wake_events e j" using xj by (simp only: wake_events_def)
    have "\<not> status_error ?e1" "\<not> eop_flush ?e1" "transfer_list ?e1 = j # js" "descs_of ?e1 j < 2 ^ 31"
      "unat ?left \<le> descs_of ?e1 j"
      using assms(3,4) Cons small j(1) le unfolding xj by simp_all
    from run_final_transfer [OF this, of p hw] e2 Cons
    have "e2 = ?e1\<lparr>transfer_list := js, desc_dequeued := desc_dequeued ?e1 + descs_of e j,
       xfers := (xfers ?e1)(j := (xfers e j)\<lparr>xf_state := if unat ?left = descs_of e j then TRANSFER_STATE_COMPLETED
           else TRANSFER_STATE_FAILED, xf_desc_cmpl := unat ?left\<rparr>),
       io := io ?e1 @ wake_events e j\<rparr>"
      unfolding xj w by simp
    then show ?thesis
      using rs j(2) Cons left by (auto simp: serviced_def Let_def set_states_def)
  qed
  then show "serviced (unat ?c) e e'" "desc e' = desc e" by simp_all
qed

lemma serviced_cong:
  "serviced c (e\<lparr>io := l, status := s, running := r\<rparr>) e' \<longleftrightarrow> serviced c e e'" if "woken l = woken (io e)"
  using that by (simp add: serviced_def Let_def cong: list.case_cong)

lemma serviced_queue_ok:
  assumes "queue_ok e" "serviced c e e'"
  shows "queue_ok e'"
proof -
  let ?full = "retired (descs_of e) c (transfer_list e)"
  let ?rest = "drop (length ?full) (transfer_list e)"
  have split: "transfer_list e = ?full @ take 1 ?rest @ tl ?rest"
    using retired_prefix [of "transfer_list e" "descs_of e" c]
    by (metis append_eq_conv_conj append_take_drop_id drop_Suc One_nat_def drop0)
  have list: "transfer_list e' = tl ?rest" and num: "\<forall>i. descs_of e' i = descs_of e i"
    and same: "\<forall>i. i \<notin> set ?full \<and> i \<notin> set (take 1 ?rest) \<longrightarrow> xfers e' i = xfers e i"
    using assms(2) by (simp_all add: serviced_def Let_def)
  have "distinct (?full @ take 1 ?rest @ tl ?rest)" using assms(1) split by (simp add: queue_ok_def)
  then have d: "distinct (tl ?rest)" and out: "\<forall>i \<in> set (tl ?rest). i \<notin> set ?full \<and> i \<notin> set (take 1 ?rest)"
    by (auto simp only: distinct_append set_append)
  have "set (transfer_list e) = set ?full \<union> set (take 1 ?rest) \<union> set (tl ?rest)"
    using arg_cong [OF split, of set] by (simp only: set_append Un_assoc)
  then have sub: "i \<in> set (transfer_list e)" if "i \<in> set (tl ?rest)" for i using that by blast
  have "xfers e' i = xfers e i" if "i \<in> set (tl ?rest)" for i using that out same by blast
  with d sub assms(1) show ?thesis unfolding queue_ok_def list by simp
qed

definition service_log :: "xdma_params \<Rightarrow> xdma_hw \<Rightarrow> xdma_engine \<Rightarrow> xdma_event list" where
  "service_log p hw e = io e @ [RegRead REG_status_rc]
     @ (if reg_val hw (io e) REG_status_rc AND XDMA_STAT_BUSY = 0 then stop_events p e @ [WakeShutdown] else [])"

lemma stop_events_fields [simp]:
  "stop_events p (e\<lparr>io := l\<rparr>) = stop_events p e" "stop_events p (e\<lparr>status := s\<rparr>) = stop_events p e"
  by (simp_all add: stop_events_def)

lemma run_engine_service:
  fixes p hw
  assumes "running e" "\<not> eop_flush e"
  defines "count \<equiv> reg_val hw (service_log p hw e) REG_completed_desc_count"
    and "s \<equiv> reg_val hw (io e) REG_status_rc"
  defines "e1 \<equiv> e\<lparr>io := service_log p hw e @ [RegRead REG_completed_desc_count], status := s,
     running := (s AND XDMA_STAT_BUSY \<noteq> 0)\<rparr>"
  shows "run_state (engine_service p hw 0) e =
    (0, if count = 0 then e1 else snd (run_state (service_completed p hw count) e1))"
  using assms(1,2)
  by (cases e) (simp add: engine_service_def eng_run Let_def service_log_def e1_def s_def count_def
      service_status_def split_def stop_events_def c2h_credit_def)

subsection \<open>Properties: the engine\<close>

text \<open>C15: Interrupts retire transfers in order. When the running engine is serviced and the device
  reports no error, the transfers of the queue whose descriptors are all among those the device
  has completed are marked completed, in queue order and no other; the next transfer in the queue is
  completed when the count ends with it and failed otherwise, whether the device is still busy or not; the
  waiters of exactly these transfers are woken in that order; the queue stays well formed, and the
  engine is running afterwards exactly when transfers are left. When the device reports no descriptor,
  nothing is retired, and an engine that is no longer busy is stopped with its transfers still
  queued.\<close>

theorem service_retires_in_order:
  assumes "queue_ok e" "\<forall>i \<in> set (transfer_list e). \<not> xf_cyclic (xfers e i)" "running e" "\<not> eop_flush e"
    and "xdma_perf e = None" "\<not> status_error (e\<lparr>status := reg_val hw (io e) REG_status_rc\<rparr>)"
    and "count = reg_val hw (service_log p hw e) REG_completed_desc_count"
  shows "\<exists>e'. run_state (engine_service p hw 0) e = (0, e') \<and> queue_ok e'
    \<and> (if count = 0
       then transfer_list e' = transfer_list e \<and> xfers e' = xfers e
         \<and> (running e' \<longleftrightarrow> reg_val hw (io e) REG_status_rc AND XDMA_STAT_BUSY \<noteq> 0)
       else serviced (unat (count - of_nat (desc_dequeued e))) e e' \<and> (running e' \<longleftrightarrow> transfer_list e' \<noteq> []))"
proof -
  let ?s = "reg_val hw (io e) REG_status_rc"
  let ?e1 = "e\<lparr>io := service_log p hw e @ [RegRead REG_completed_desc_count], status := ?s,
     running := (?s AND XDMA_STAT_BUSY \<noteq> 0)\<rparr>"
  have run: "run_state (engine_service p hw 0) e =
      (0, if count = 0 then ?e1 else snd (run_state (service_completed p hw count) ?e1))"
    unfolding assms(7) by (rule run_engine_service [OF assms(3,4)])
  have q: "queue_ok ?e1" using assms(1) by (simp add: queue_ok_def)
  have w: "woken (service_log p hw e @ [RegRead REG_completed_desc_count]) = woken (io e)"
    by (simp add: service_log_def)
  have err: "\<not> status_error ?e1"
    using assms(6) by (cases "dir e") (simp_all add: status_error_def)
  obtain e' where e': "run_state (service_completed p hw count) ?e1 = ((), e')"
    by (metis old.unit.exhaust prod.exhaust)
  note sc = service_completed_serviced [OF q _ err _ _ e']
  have "serviced (unat (count - of_nat (desc_dequeued e))) e e'" "running e' \<longleftrightarrow> transfer_list e' \<noteq> []"
    using sc(1,2) assms(2,4,5) serviced_cong [OF w] by simp_all
  then show ?thesis
    using run e' q serviced_queue_ok [OF assms(1)] by (cases "count = 0") auto
qed

definition demo_running :: xdma_engine where
  "demo_running = demo_engine\<lparr>running := True, transfer_list := [1, 2],
     xfers := (\<lambda>i. (xfers demo_engine i)\<lparr>xf_desc_num := 2, xf_state := TRANSFER_STATE_SUBMITTED\<rparr>)\<rparr>"

definition demo_hw :: xdma_hw where
  "demo_hw = \<lparr>reg_val = (\<lambda>_ r. if r = REG_completed_desc_count then 2 else 0),
     res_val = (\<lambda>_ _. \<lparr>rs_status = 0, rs_length = 0\<rparr>)\<rparr>"

theorem service_retires_in_order_witness:
  "\<exists>e'. run_state (engine_service \<lparr>poll_mode = False, enable_st_c2h_credit = False, desc_blen_max = 0xFFFFFFF\<rparr> demo_hw 0)
      demo_running = (0, e')
    \<and> transfer_list e' = [2] \<and> xf_state (xfers e' 1) = TRANSFER_STATE_COMPLETED \<and> running e'"
  using service_retires_in_order [of demo_running demo_hw 2
      "\<lparr>poll_mode = False, enable_st_c2h_credit = False, desc_blen_max = 0xFFFFFFF\<rparr>"]
  by (auto simp: demo_running_def demo_engine_def demo_hw_def queue_ok_def status_error_def serviced_def)

end
