(* ===== verification/Xdma_Submit.thy ===== *)
theory Xdma_Submit
  imports Xdma_Engine
begin

text \<open>
  Submitting a request to the host's DMA engine and waiting for it (\<open>xdma_xfer_submit\<close> of
  \<open>xdma/linux-kernel/xdma/libxdma.c\<close>, in interrupt mode): one transfer after the other is programmed,
  queued and waited for. Between queueing and waking up, interrupts run \<open>engine_service_work\<close>. Shown: with a device
  that completes what it is given, the call ends, returns the number of bytes, and the descriptor
  chains the device was told to run are, one after the other, the whole request; and however the call
  ends, the scatter list is unmapped once, and the transfer is no longer queued unless the engine's
  registers could not be read after a time-out.
\<close>

subsection \<open>The device and its engines\<close>

record xdma_dev =
  engine_h2c :: "nat \<Rightarrow> xdma_engine"
  engine_c2h :: "nat \<Rightarrow> xdma_engine"
  h2c_channel_max :: nat
  c2h_channel_max :: nat
  dev_offline :: bool
  msix_enabled :: bool

text \<open>
  What a submission depends on: module parameters, the device, the allocator, the size of a request
  without its descriptors, the address of the request's first transfer, and for every wait
  the number of interrupts that arrive before it is given up.
\<close>

record submit_env =
  sv_params :: xdma_params
  sv_hw :: xdma_hw
  sv_granted :: "u32 \<Rightarrow> bool"
  sv_hdr :: nat
  sv_tfer :: nat
  sv_irqs :: "nat \<Rightarrow> nat"

record submit_state =
  su_engine :: xdma_engine
  su_req :: xdma_request_cb
  su_done :: int
  su_nents :: nat
  su_unmaps :: nat

text \<open>\<open>xlx_wait_event_interruptible_timeout\<close> on the state of transfer \<open>i\<close>, with at most \<open>n\<close> interrupts.\<close>

primrec wait_transfer :: "unit eng \<Rightarrow> nat \<Rightarrow> nat \<Rightarrow> unit eng" where
  "wait_transfer irq i 0 = State_Monad.return ()"
| "wait_transfer irq i (Suc n) = do {
     e \<leftarrow> State_Monad.get;
     if xf_state (xfers e i) \<noteq> TRANSFER_STATE_SUBMITTED then State_Monad.return ()
     else do {
       irq;
       wait_transfer irq i n
     }
   }"

text \<open>The default branch of the \<open>switch\<close> over the state of the transfer: it timed out.\<close>

definition transfer_timeout :: "xdma_params \<Rightarrow> xdma_hw \<Rightarrow> nat \<Rightarrow> unit eng" where
  "transfer_timeout p hw i = do {
     rv \<leftarrow> engine_status_read hw False True;
     when_st (rv = 0) (do {
       rv \<leftarrow> transfer_abort i;
       when_st (rv = 0) (do {
         _ \<leftarrow> xdma_engine_stop p;
         State_Monad.return ()
       })
     })
   }"

definition result_lengths :: "xdma_hw \<Rightarrow> xdma_engine \<Rightarrow> xdma_transfer \<Rightarrow> int" where
  "result_lengths hw e t =
     sum_list (map (\<lambda>k. uint (rs_length (res_val hw (io e) (xf_desc_index t + k)))) [0..<xf_desc_cmpl t])"

abbreviation st_c2h :: "xdma_engine \<Rightarrow> bool" where
  "st_c2h e \<equiv> streaming e \<and> dir e = DMA_FROM_DEVICE"

text \<open>
  The \<open>switch\<close> over the state of the transfer after the wait: the value of \<open>rv\<close>, the bytes added to
  \<open>done\<close>, whether the whole request is finished early, and the engine.
\<close>

definition transfer_outcome :: "submit_env \<Rightarrow> xdma_engine \<Rightarrow> int \<times> int \<times> bool \<times> xdma_engine" where
  "transfer_outcome env e =
    (let i = sv_tfer env; t = xfers e i
     in case xf_state t of
          TRANSFER_STATE_COMPLETED \<Rightarrow>
            if st_c2h e then (0, result_lengths (sv_hw env) e t, eop_flush e, e)
            else (0, uint (xf_len t), False, e)
        | TRANSFER_STATE_FAILED \<Rightarrow> (- EIO, 0, False, e)
        | _ \<Rightarrow> (- ERESTARTSYS, 0, False, snd (run_state (transfer_timeout (sv_params env) (sv_hw env) i) e)))"

text \<open>
  One round of the loop, from a built transfer on: whether to go on, \<open>rv\<close>, the descriptors left, and the state.
\<close>

definition submit_round ::
  "submit_env \<Rightarrow> xdma_dev \<Rightarrow> bool \<Rightarrow> nat \<Rightarrow> nat \<Rightarrow> submit_state \<Rightarrow> xdma_engine \<times> xdma_request_cb \<times> xdma_transfer
    \<Rightarrow> int \<times> nat \<times> submit_state" where
  "submit_round env xdev dma_mapped k nents s built =
    (case built of (e1, req, xf) \<Rightarrow>
     let i = sv_tfer env;
         nents' = nents - xf_desc_num xf;
         xf1 = xf\<lparr>xf_need_unmap := \<not> dma_mapped, xf_last_in_request := nents' = 0\<rparr>;
         (rv, e3) = run_state (transfer_queue (sv_params env) (sv_hw env) (dev_offline xdev) i)
                      (e1\<lparr>xfers := (xfers e1)(i := xf1)\<rparr>)
     in if rv < 0 then (rv, nents', s\<lparr>su_engine := e3, su_req := req\<rparr>)
        else
          let e4 = snd (run_state (wait_transfer (engine_service_work (sv_params env) (sv_hw env) (msix_enabled xdev))
                     i (sv_irqs env k)) e3);
              (rv, bytes, finished, e5) = transfer_outcome env e4;
              e6 = e5\<lparr>desc_used := desc_used e5 - int (xf_desc_num xf)\<rparr>;
              (e7, sgt_nents, unmapped) = transfer_destroy (xfers e6 i) (su_nents s) e6
          in (rv, if finished then 0 else nents',
              \<lparr>su_engine = e7, su_req = req, su_done = su_done s + bytes, su_nents = sgt_nents,
               su_unmaps = su_unmaps s + of_bool unmapped\<rparr>))"

lemma transfer_init_progress: "transfer_init e req = Ret b \<Longrightarrow> 0 < xf_desc_num (snd (snd b))"
  by (auto simp: transfer_init_def Let_def split: prod.splits if_splits)

lemma submit_round_nents:
  "submit_round env xdev dma_mapped k nents s b = (rv, n, s') \<Longrightarrow> n \<le> nents - xf_desc_num (snd (snd b))"
  by (auto simp: submit_round_def Let_def split: prod.splits if_splits)

function submit_loop ::
  "submit_env \<Rightarrow> xdma_dev \<Rightarrow> bool \<Rightarrow> nat \<Rightarrow> nat \<Rightarrow> submit_state \<Rightarrow> (int \<times> submit_state) outcome" where
  "submit_loop env xdev dma_mapped k nents s =
    (if nents = 0 then Ret (0, s)
     else obind (transfer_init (su_engine s) (su_req s)) (\<lambda>b.
       case submit_round env xdev dma_mapped k nents s b of
         (rv, nents', s') \<Rightarrow> if rv < 0 then Ret (rv, s') else submit_loop env xdev dma_mapped (Suc k) nents' s'))"
  by pat_completeness auto
termination
proof (relation "measure (\<lambda>(env, xdev, dma_mapped, k, nents, s). nents)", goal_cases)
  case (2 env xdev dma_mapped k nents s b rv y nents' s')
  then have "submit_round env xdev dma_mapped k nents s b = (rv, nents', s')" by simp
  from submit_round_nents [OF this] transfer_init_progress [OF 2(2)] 2(1) show ?case by simp
qed simp

declare submit_loop.simps [simp del]

record submit_result =
  sr_ret :: int
  sr_engine :: xdma_engine
  sr_unmaps :: nat

text \<open>
  \<open>xdma_xfer_submit\<close>. \<open>mapped\<close> is the scatter list by bus addresses: what \<open>pci_map_sg\<close> returns, or the
  list itself when the caller has mapped it. Numbers of the handle check are left to the caller, who passes
  the device it was opened with.
\<close>

definition submit_engine ::
  "submit_env \<Rightarrow> xdma_dev \<Rightarrow> bool \<Rightarrow> u64 \<Rightarrow> sg_dma list \<Rightarrow> bool \<Rightarrow> xdma_engine \<Rightarrow> submit_result outcome" where
  "submit_engine env xdev write ep_addr mapped dma_mapped e =
    (if magic e \<noteq> 0xEEEEEEEE then Ret \<lparr>sr_ret = - EINVAL, sr_engine = e, sr_unmaps = 0\<rparr>
     else if dev_offline xdev then Ret \<lparr>sr_ret = - EBUSY, sr_engine = e, sr_unmaps = 0\<rparr>
     else if dir e \<noteq> (if write then DMA_TO_DEVICE else DMA_FROM_DEVICE)
     then Ret \<lparr>sr_ret = - EINVAL, sr_engine = e, sr_unmaps = 0\<rparr>
     else if mapped = [] then Ret \<lparr>sr_ret = - EIO, sr_engine = e, sr_unmaps = 0\<rparr>
     else obind (xdma_init_request (sv_granted env) (sv_hdr env) (desc_blen_max (sv_params env)) mapped ep_addr) (\<lambda>r.
       case r of
         None \<Rightarrow> Ret \<lparr>sr_ret = - ENOMEM, sr_engine = e, sr_unmaps = of_bool (\<not> dma_mapped)\<rparr>
       | Some req \<Rightarrow>
           obind (submit_loop env xdev dma_mapped 0 (sw_desc_cnt req)
             \<lparr>su_engine = e, su_req = req, su_done = 0, su_nents = length mapped, su_unmaps = 0\<rparr>) (\<lambda>(rv, s).
           Ret \<lparr>sr_ret = (if su_done s \<noteq> 0 then su_done s else rv), sr_engine = su_engine s,
             sr_unmaps = su_unmaps s + of_bool (\<not> dma_mapped \<and> su_nents s \<noteq> 0)\<rparr>)))"

definition engine_of :: "xdma_dev \<Rightarrow> bool \<Rightarrow> nat \<Rightarrow> xdma_engine" where
  "engine_of xdev write chan = (if write then engine_h2c xdev chan else engine_c2h xdev chan)"

definition channel_max :: "xdma_dev \<Rightarrow> bool \<Rightarrow> nat" where
  "channel_max xdev write = (if write then h2c_channel_max xdev else c2h_channel_max xdev)"

definition set_engine :: "bool \<Rightarrow> nat \<Rightarrow> xdma_engine \<Rightarrow> xdma_dev \<Rightarrow> xdma_dev" where
  "set_engine write chan e xdev =
    (if write then xdev\<lparr>engine_h2c := (engine_h2c xdev)(chan := e)\<rparr>
     else xdev\<lparr>engine_c2h := (engine_c2h xdev)(chan := e)\<rparr>)"

definition xdma_xfer_submit ::
  "submit_env \<Rightarrow> xdma_dev \<Rightarrow> nat \<Rightarrow> bool \<Rightarrow> u64 \<Rightarrow> sg_dma list \<Rightarrow> bool \<Rightarrow> (int \<times> nat \<times> xdma_dev) outcome" where
  "xdma_xfer_submit env xdev chan write ep_addr mapped dma_mapped =
    (if chan \<ge> channel_max xdev write then Ret (- EINVAL, 0, xdev)
     else obind (submit_engine env xdev write ep_addr mapped dma_mapped (engine_of xdev write chan)) (\<lambda>r.
       Ret (sr_ret r, sr_unmaps r, set_engine write chan (sr_engine r) xdev)))"

lemma engine_of_set_engine [simp]: "engine_of (set_engine write chan e xdev) write chan = e"
  by (simp add: engine_of_def set_engine_def)

subsection \<open>A device that completes its work\<close>

text \<open>
  The chains of descriptors the device is told to run: at every write of the run bit, the chain in memory
  from the address in the two address registers.
\<close>

fun chains :: "nat \<Rightarrow> u64 \<Rightarrow> u32 \<Rightarrow> u32 \<Rightarrow> xdma_event list \<Rightarrow> xdma_desc list list" where
  "chains n base lo hi [] = []"
| "chains n base lo hi (RegWrite r v ring # l) =
    (if r = REG_first_desc_lo then chains n base v hi l
     else if r = REG_first_desc_hi then chains n base lo v l
     else if r = REG_control \<and> bit v 0 then desc_chain n base ring (join32 lo hi) # chains n base lo hi l
     else chains n base lo hi l)"
| "chains n base lo hi (_ # l) = chains n base lo hi l"

abbreviation runs :: "xdma_engine \<Rightarrow> xdma_desc list list" where
  "runs e \<equiv> chains (desc_max e) (desc_bus e) 0 0 (io e)"

text \<open>
  When the driver asks, the device has finished the last chain it was given: it is idle, reports no
  error, and counts the descriptors of that chain.
\<close>

definition completes :: "xdma_hw \<Rightarrow> nat \<Rightarrow> u64 \<Rightarrow> bool" where
  "completes hw n base \<longleftrightarrow> (\<forall>l. reg_val hw l REG_status_rc = 0
     \<and> (chains n base 0 0 l \<noteq> [] \<longrightarrow>
          reg_val hw l REG_completed_desc_count = of_nat (length (last (chains n base 0 0 l)))))"

lemma chains_append:
  "\<exists>lo' hi'. \<forall>b. chains n base lo hi (a @ b) = chains n base lo hi a @ chains n base lo' hi' b"
proof (induction n base lo hi a rule: chains.induct)
  case (2 n base lo hi r v ring l)
  show ?case
    using 2 by (cases "r = REG_first_desc_lo"; cases "r = REG_first_desc_hi"; cases "r = REG_control \<and> bit v 0") auto
qed auto

lemma stop_control_bit: "\<not> bit (stop_control p) 0"
  by (simp add: stop_control_def bit_simps XDMA_CTRL_IE_DESC_ALIGN_MISMATCH_def XDMA_CTRL_IE_MAGIC_STOPPED_def
      XDMA_CTRL_IE_READ_ERROR_def XDMA_CTRL_IE_DESC_ERROR_def XDMA_CTRL_POLL_MODE_WB_def
      XDMA_CTRL_IE_DESC_STOPPED_def XDMA_CTRL_IE_DESC_COMPLETED_def)

lemma run_control_bit: "bit (run_control p e) 0"
  by (simp add: run_control_def bit_simps XDMA_CTRL_RUN_STOP_def)

text \<open>Events that give the device nothing to run.\<close>

lemma quiet_chains:
  assumes "\<forall>ev \<in> set b. \<forall>r v ring. ev = RegWrite r v ring \<longrightarrow>
      r \<noteq> REG_first_desc_lo \<and> r \<noteq> REG_first_desc_hi \<and> (r = REG_control \<longrightarrow> \<not> bit v 0)"
  shows "chains n base lo hi (a @ b) = chains n base lo hi a"
proof -
  have "chains n base lo' hi' b = []" for lo' hi'
    using assms by (induction n base lo' hi' b rule: chains.induct) auto
  then show ?thesis using chains_append [of n base lo hi a] by fastforce
qed

lemma start_chains:
  assumes "desc_max e = n" "desc_bus e = base"
  shows "chains n base lo hi (a @ start_events p e i) =
    chains n base lo hi a @ [desc_chain n base (desc e) (xf_desc_bus (xfers e i))]"
proof -
  obtain lo' hi' where "\<And>b. chains n base lo hi (a @ b) = chains n base lo hi a @ chains n base lo' hi' b"
    using chains_append [of n base lo hi a] by blast
  then show ?thesis by (simp add: start_events_def Let_def run_control_bit)
qed

lemma stop_chains: "chains n base lo hi (a @ stop_events p e) = chains n base lo hi a"
  by (rule quiet_chains) (auto simp: stop_events_def stop_control_bit)

subsection \<open>One transfer\<close>

text \<open>An engine with nothing to do.\<close>

definition idle :: "xdma_engine \<Rightarrow> bool" where
  "idle e \<longleftrightarrow> ring_ok e \<and> transfer_list e = [] \<and> \<not> running e \<and> \<not> streaming e \<and> \<not> eop_flush e
     \<and> xdma_perf e = None \<and> shutdown e = 0 \<and> magic e = 0xEEEEEEEE \<and> desc_max e < 2 ^ 31"

lemma run_service_one:
  assumes "transfer_list e = [i]" "running e" "\<not> eop_flush e" "xdma_perf e = None" "shutdown e = 0"
    and "\<not> xf_cyclic (xfers e i)" "0 < descs_of e i" "descs_of e i < 2 ^ 31" "desc_dequeued e = 0"
    and "\<And>l. reg_val hw l REG_status_rc = 0"
    and "reg_val hw (service_log p hw e) REG_completed_desc_count = of_nat (descs_of e i)"
  shows "run_state (engine_service p hw 0) e =
    (0, e\<lparr>transfer_list := [], running := False, status := 0, desc_dequeued := descs_of e i,
       xfers := (xfers e)(i := (xfers e i)\<lparr>xf_state := TRANSFER_STATE_COMPLETED, xf_desc_cmpl := descs_of e i\<rparr>),
       io := service_log p hw e @ RegRead REG_completed_desc_count # wake_events e i\<rparr>)"
proof -
  let ?c = "of_nat (descs_of e i) :: u32"
  let ?e1 = "e\<lparr>io := service_log p hw e @ [RegRead REG_completed_desc_count], status := 0, running := False\<rparr>"
  have u: "unat ?c = descs_of e i" using assms(8) by (intro unat_of_nat_small) simp
  then have ne: "?c \<noteq> 0" using assms(7) by (metis unat_0 less_irrefl)
  have "\<not> status_error ?e1" by (cases "dir e") (simp_all add: status_error_def)
  moreover have "wake_events ?e1 i = wake_events e i" by (simp add: wake_events_def)
  ultimately have "snd (run_state (service_completed p hw ?c) ?e1) =
      ?e1\<lparr>transfer_list := [], desc_dequeued := descs_of e i,
       xfers := (xfers e)(i := (xfers e i)\<lparr>xf_state := TRANSFER_STATE_COMPLETED, xf_desc_cmpl := descs_of e i\<rparr>),
       io := io ?e1 @ wake_events e i\<rparr>"
    using assms(1,3-6,8,9) u run_final_transfer [of ?e1 i "[]" ?c p hw]
    by (simp add: service_completed_def run_service_perf engine_service_resume_def)
  moreover have "run_state (engine_service p hw 0) e = (0, snd (run_state (service_completed p hw ?c) ?e1))"
    using run_engine_service [OF assms(2,3), of p hw] ne by (simp add: assms(10,11))
  ultimately show ?thesis by simp
qed

lemma wait_completes:
  assumes "transfer_list e = [i]" "running e" "\<not> eop_flush e" "xdma_perf e = None" "shutdown e = 0"
    and "\<not> xf_cyclic (xfers e i)" "0 < descs_of e i" "descs_of e i < 2 ^ 31" "desc_dequeued e = 0"
    and "xf_state (xfers e i) = TRANSFER_STATE_SUBMITTED" "magic e = 0xEEEEEEEE" "0 < m"
    and "completes hw (desc_max e) (desc_bus e)" "runs e = rs @ [c]" "length c = descs_of e i"
  shows "\<exists>l. snd (run_state (wait_transfer (engine_service_work p hw msix) i m) e) =
      e\<lparr>transfer_list := [], running := False, status := 0, desc_dequeued := descs_of e i,
       xfers := (xfers e)(i := (xfers e i)\<lparr>xf_state := TRANSFER_STATE_COMPLETED, xf_desc_cmpl := descs_of e i\<rparr>),
       io := io e @ l\<rparr> \<and> chains (desc_max e) (desc_bus e) 0 0 (io e @ l) = runs e"
proof -
  obtain k where m: "m = Suc k" using assms(12) by (cases m) auto
  have st: "reg_val hw l REG_status_rc = 0" for l using assms(13) by (simp add: completes_def)
  let ?log = "[RegRead REG_status_rc] @ stop_events p e @ [WakeShutdown]"
  have log: "service_log p hw e = io e @ ?log" by (simp add: service_log_def st)
  have quiet: "chains (desc_max e) (desc_bus e) 0 0 (io e @ ?log) = runs e"
    by (rule quiet_chains) (auto simp: stop_events_def stop_control_bit)
  then have "reg_val hw (service_log p hw e) REG_completed_desc_count = of_nat (descs_of e i)"
    using assms(13-15) unfolding completes_def log by simp
  note one = run_service_one [OF assms(1-9) st this]
  let ?w = "if msix then RegWrite REG_interrupt_enable_mask_w1s (interrupt_enable_mask_value e) (desc e)
    else RegWrite REG_channel_int_enable_w1s (irq_bitmask e) (desc e)"
  let ?l = "?log @ RegRead REG_completed_desc_count # wake_events e i @ [?w]"
  have "snd (run_state (wait_transfer (engine_service_work p hw msix) i m) e) =
      e\<lparr>transfer_list := [], running := False, status := 0, desc_dequeued := descs_of e i,
       xfers := (xfers e)(i := (xfers e i)\<lparr>xf_state := TRANSFER_STATE_COMPLETED, xf_desc_cmpl := descs_of e i\<rparr>),
       io := io e @ ?l\<rparr>"
    using assms(10,11) one by (cases k; cases msix; simp add: m engine_service_work_def eng_run log)
  moreover have "chains (desc_max e) (desc_bus e) 0 0 (io e @ ?l) = runs e"
    by (rule quiet_chains) (auto simp: stop_events_def stop_control_bit wake_events_def)
  ultimately show ?thesis by blast
qed

lemma idle_fields [simp]:
  "idle (e\<lparr>xfers := x\<rparr>) = idle e" "idle (e\<lparr>desc_used := u\<rparr>) = idle e"
  by (simp_all add: idle_def ring_ok_def)

lemma submit_round_completes:
  assumes "transfer_init e req = Ret (e1, req', xf)" "idle e" "sw_desc_idx req < sw_desc_cnt req"
    and "completes (sv_hw env) (desc_max e) (desc_bus e)" "\<not> dev_offline xdev" "0 < sv_irqs env k"
    and "submit_round env xdev dma_mapped k nents s (e1, req', xf) = (rv, nents', s')"
  defines "e' \<equiv> su_engine s'"
  shows "rv = 0" "nents' = nents - transfer_count e req" "su_req s' = req'" "idle e'"
    "su_done s' = su_done s + uint (xf_len xf)"
    "runs e' = runs e @ [desc_chain (desc_max e) (desc_bus e) (desc e1) (xf_desc_bus xf)]"
    "desc_max e' = desc_max e" "desc_bus e' = desc_bus e" "dir e' = dir e" "non_incr_addr e' = non_incr_addr e"
proof -
  have i: "ring_ok e" "transfer_list e = []" "\<not> running e" "\<not> streaming e" "\<not> eop_flush e" "xdma_perf e = None"
    "shutdown e = 0" "magic e = 0xEEEEEEEE" "desc_max e < 2 ^ 31"
    using assms(2) by (simp_all add: idle_def)
  note f = transfer_init_fields [OF assms(1) i(1)] and r = transfer_init_ring [OF assms(1) i(1) assms(3) i(4)]
  note n = transfer_count_props [OF i(1) assms(3)]
  let ?i = "sv_tfer env" and ?p = "sv_params env" and ?hw = "sv_hw env" and ?n = "transfer_count e req"
  let ?c = "desc_chain (desc_max e) (desc_bus e) (desc e1) (xf_desc_bus xf)"
  let ?xf = "xf\<lparr>xf_need_unmap := \<not> dma_mapped, xf_last_in_request := nents - ?n = 0,
     xf_state := TRANSFER_STATE_SUBMITTED\<rparr>"
  let ?e2 = "e1\<lparr>xfers := (xfers e1)(?i := ?xf), transfer_list := [?i]\<rparr>"
  let ?e3 = "?e2\<lparr>shutdown := 0, desc_dequeued := 0, io := io e @ start_events ?p ?e2 ?i,
    status := reg_val ?hw (butlast (io e @ start_events ?p ?e2 ?i)) REG_status, running := True\<rparr>"
  obtain d ix u where e1: "e1 = e\<lparr>desc := d, desc_idx := ix, desc_used := u, io := io e\<rparr>"
    using f(9) f(10) [OF i(4)] by metis
  have qn: "descs_of ?e3 ?i = ?n" "descs_of ?e2 ?i = ?n" using f(1) by simp_all
  have queue: "run_state (transfer_queue ?p ?hw (dev_offline xdev) ?i)
      (e1\<lparr>xfers := (xfers e1)(?i := xf\<lparr>xf_need_unmap := \<not> dma_mapped, xf_last_in_request := nents - ?n = 0\<rparr>)\<rparr>)
    = (0, ?e3)"
    using n(1) i(2,3,7) assms(5) f(1) by (simp add: transfer_queue_def eng_run e1)
  have runs3: "runs ?e3 = runs e @ [?c]"
    using start_chains [of ?e2 "desc_max e" "desc_bus e" 0 0 "io e" ?p ?i] by (simp add: e1)
  have c: "completes ?hw (desc_max ?e3) (desc_bus ?e3)" using assms(4) by (simp add: e1)
  have n31: "?n < 2 ^ 31" using n(2) i(9) by simp
  obtain l where w: "snd (run_state (wait_transfer (engine_service_work ?p ?hw (msix_enabled xdev)) ?i (sv_irqs env k)) ?e3) =
      ?e3\<lparr>transfer_list := [], running := False, status := 0, desc_dequeued := ?n,
       xfers := (xfers ?e3)(?i := (xfers ?e3 ?i)\<lparr>xf_state := TRANSFER_STATE_COMPLETED, xf_desc_cmpl := ?n\<rparr>),
       io := io ?e3 @ l\<rparr>"
    and cl: "chains (desc_max ?e3) (desc_bus ?e3) 0 0 (io ?e3 @ l) = runs ?e3"
    using wait_completes [of ?e3 ?i "sv_irqs env k" ?hw "runs e" ?c ?p "msix_enabled xdev"] qn n(1) n31 i f(5) assms(6) c runs3 r(3)
    by (auto simp: e1)
  let ?x4 = "?xf\<lparr>xf_state := TRANSFER_STATE_COMPLETED, xf_desc_cmpl := ?n\<rparr>"
  let ?e4 = "?e3\<lparr>transfer_list := [], running := False, status := 0, desc_dequeued := ?n,
    xfers := (xfers ?e3)(?i := ?x4), io := io ?e3 @ l\<rparr>"
  have "transfer_outcome env ?e4 = (0, uint (xf_len xf), False, ?e4)"
    using i(4) by (simp add: transfer_outcome_def e1 Let_def)
  then have round: "rv = 0" "nents' = nents - ?n" "su_req s' = req'" "su_done s' = su_done s + uint (xf_len xf)"
    "e' = ?e4\<lparr>desc_used := desc_used ?e4 - int ?n, desc := xdma_desc_done (desc_idx e) ?n (desc ?e4)\<rparr>"
    using assms(7) queue w f(1,4)
    by (auto simp: submit_round_def transfer_destroy_def Let_def e'_def simp del: diff_is_0_eq diff_is_0_eq')
  show "rv = 0" "nents' = nents - ?n" "su_req s' = req'" "su_done s' = su_done s + uint (xf_len xf)"
    using round(1-4) .
  show "desc_max e' = desc_max e" "desc_bus e' = desc_bus e" "dir e' = dir e" "non_incr_addr e' = non_incr_addr e"
    unfolding round(5) by (simp_all add: e1)
  show "runs e' = runs e @ [?c]"
    using cl runs3 unfolding round(5) by (simp add: e1)
  have "length (xdma_desc_done (desc_idx e) ?n (desc e1)) = desc_max e"
    using r(1) n(2) f(11) by (simp add: xdma_desc_done_def ring_ok_def)
  then show "idle e'"
    using i r(1) unfolding round(5) by (simp add: idle_def ring_ok_def e1)
qed

subsection \<open>The whole request\<close>

abbreviation sds_total :: "sw_desc list \<Rightarrow> nat" where
  "sds_total sds \<equiv> sum_list (map (\<lambda>sd. unat (sd_len sd)) sds)"

text \<open>What the device has been told to do so far.\<close>

definition ops_run :: "xdma_engine \<Rightarrow> (u64 \<times> u64 \<times> u32) list" where
  "ops_run e = concat (map (map (desc_op (dir e))) (runs e))"

lemma unat_sum_lens: "sds_total sds < 2 ^ 32 \<Longrightarrow> unat (sum_list (map sd_len sds)) = sds_total sds"
proof (induction sds)
  case (Cons sd sds)
  then show ?case by (simp add: unat_word_ariths)
qed simp

lemma uint_sum_lens: "sds_total sds < 2 ^ 32 \<Longrightarrow> uint (sum_list (map sd_len sds)) = int (sds_total sds)"
  by (simp add: uint_nat unat_sum_lens)

lemma submit_loop_completes:
  assumes "idle (su_engine s)" "completes (sv_hw env) (desc_max (su_engine s)) (desc_bus (su_engine s))"
    and "\<not> dev_offline xdev" "\<forall>k. 0 < sv_irqs env k"
    and "nents = sw_desc_cnt (su_req s) - sw_desc_idx (su_req s)"
    and "sds_total (drop (sw_desc_idx (su_req s)) (rq_sdesc (su_req s))) < 2 ^ 32"
  shows "\<exists>s'. submit_loop env xdev dma_mapped k nents s = Ret (0, s') \<and> idle (su_engine s')
    \<and> su_done s' = su_done s + int (sds_total (drop (sw_desc_idx (su_req s)) (rq_sdesc (su_req s))))
    \<and> ops_run (su_engine s') = ops_run (su_engine s)
       @ dma_ops (non_incr_addr (su_engine s)) (rq_ep_addr (su_req s)) (drop (sw_desc_idx (su_req s)) (rq_sdesc (su_req s)))"
  using assms
proof (induction nents arbitrary: s k rule: less_induct)
  case (less nents)
  let ?e = "su_engine s" and ?req = "su_req s"
  let ?rest = "drop (sw_desc_idx ?req) (rq_sdesc ?req)"
  show ?case
  proof (cases "nents = 0")
    case True
    then show ?thesis using less.prems by (simp add: submit_loop.simps)
  next
    case False
    then have left: "sw_desc_idx ?req < sw_desc_cnt ?req" using less.prems(5) by simp
    have i: "ring_ok ?e" "\<not> streaming ?e" using less.prems(1) by (simp_all add: idle_def)
    obtain e1 req' xf where t: "transfer_init ?e ?req = Ret (e1, req', xf)"
      using transfer_init_ret [OF i(1) left] .
    obtain rv nents' s' where rd: "submit_round env xdev dma_mapped k nents s (e1, req', xf) = (rv, nents', s')"
      by (metis prod_cases3)
    note f = transfer_init_fields [OF t i(1)] and r = transfer_init_ring [OF t i(1) left i(2)]
    note c = submit_round_completes [OF t less.prems(1) left less.prems(2,3) _ rd]
    have irq: "0 < sv_irqs env k" using less.prems(4) by simp
    note c = c [OF irq]
    let ?rest' = "drop (sw_desc_idx req') (rq_sdesc req')"
    have split: "?rest = next_sds ?e ?req @ ?rest'"
      using append_take_drop_id [of "transfer_count ?e ?req" ?rest] by (simp add: f(7,8) next_sds_def add.commute)
    then have total: "sds_total ?rest = sds_total (next_sds ?e ?req) + sds_total ?rest'" by simp
    have len: "uint (xf_len xf) = int (sds_total (next_sds ?e ?req))"
      unfolding r(5) using less.prems(6) total by (intro uint_sum_lens) simp
    have lt: "nents' < nents" using c(2) transfer_count_props(1) [OF i(1) left] False by simp
    have n': "nents' = sw_desc_cnt (su_req s') - sw_desc_idx (su_req s')"
      using c(2,3) less.prems(5) by (simp add: f(7,8))
    have cm: "completes (sv_hw env) (desc_max (su_engine s')) (desc_bus (su_engine s'))"
      using less.prems(2) by (simp add: c(7,8))
    have small: "sds_total (drop (sw_desc_idx (su_req s')) (rq_sdesc (su_req s'))) < 2 ^ 32"
      using less.prems(6) total by (simp add: c(3))
    obtain s2 where s2: "submit_loop env xdev dma_mapped (Suc k) nents' s' = Ret (0, s2)" "idle (su_engine s2)"
      "su_done s2 = su_done s' + int (sds_total ?rest')"
      "ops_run (su_engine s2) = ops_run (su_engine s') @ dma_ops (non_incr_addr ?e) (rq_ep_addr req') ?rest'"
      using less.IH [OF lt c(4) cm less.prems(3,4) n' small, of "Suc k"] by (auto simp: c(3,10))
    have "ops_run (su_engine s') = ops_run ?e @ dma_ops (non_incr_addr ?e) (rq_ep_addr ?req) (next_sds ?e ?req)"
      by (simp add: ops_run_def c(6,9) r(2))
    then show ?thesis
      using s2 False t rd c(1,5) len total r(6)
      by (intro exI [of _ s2]) (simp add: submit_loop.simps [of env xdev dma_mapped k nents s])
  qed
qed

text \<open>Operations by the bytes they touch, on the host and on the device.\<close>

abbreviation host_bytes :: "(u64 \<times> u64 \<times> u32) list \<Rightarrow> u64 list" where
  "host_bytes ops \<equiv> concat (map (\<lambda>(h, d, n). byte_addrs h (unat n)) ops)"

abbreviation device_bytes :: "(u64 \<times> u64 \<times> u32) list \<Rightarrow> u64 list" where
  "device_bytes ops \<equiv> concat (map (\<lambda>(h, d, n). byte_addrs d (unat n)) ops)"

abbreviation dma_bytes :: "sg_dma list \<Rightarrow> u64 list" where
  "dma_bytes sgl \<equiv> concat (map (\<lambda>(a, n). byte_addrs a (unat n)) sgl)"

abbreviation dma_total :: "sg_dma list \<Rightarrow> nat" where
  "dma_total sgl \<equiv> sum_list (map (\<lambda>e. unat (snd e)) sgl)"

lemma length_byte_addrs [simp]: "length (byte_addrs a n) = n"
  by (simp add: byte_addrs_def)

lemma host_bytes_dma_ops: "host_bytes (dma_ops fixed ep sds) = concat (map sd_bytes sds)"
  by (induction sds arbitrary: ep) auto

lemma device_bytes_dma_ops: "device_bytes (dma_ops False ep sds) = byte_addrs ep (sds_total sds)"
proof (induction sds arbitrary: ep)
  case (Cons sd sds)
  have "of_nat (unat (sd_len sd)) = (ucast (sd_len sd) :: u64)" by transfer simp
  then show ?case using Cons byte_addrs_append [of ep "unat (sd_len sd)" "sds_total sds"] by simp
qed (simp add: byte_addrs_def)

lemma request_total:
  assumes "request_ok blen sgl ep req"
  shows "sds_total (rq_sdesc req) = dma_total sgl"
proof -
  have "length (concat (map sd_bytes (rq_sdesc req))) = length (dma_bytes sgl)"
    using assms by (simp add: request_ok_def)
  then show ?thesis by (simp add: length_concat comp_def split_def)
qed

lemma submit_engine_completes:
  assumes "idle e" "completes (sv_hw env) (desc_max e) (desc_bus e)" "\<not> dev_offline xdev" "\<forall>k. 0 < sv_irqs env k"
    and "dir e = (if write then DMA_TO_DEVICE else DMA_FROM_DEVICE)" "mapped \<noteq> []"
    and "desc_blen_max (sv_params env) = blen" "blen \<noteq> 0" "\<forall>x \<in> set mapped. unat (snd x) + unat blen \<le> 2 ^ 32"
    and "\<And>n. sv_granted env n" "sv_hdr env + descs_allocated blen mapped * 16 < 2 ^ 32" "dma_total mapped < 2 ^ 32"
  shows "\<exists>r ops. submit_engine env xdev write ep mapped dma_mapped e = Ret r \<and> sr_ret r = int (dma_total mapped)
    \<and> idle (sr_engine r) \<and> ops_run (sr_engine r) = ops_run e @ ops
    \<and> host_bytes ops = dma_bytes mapped
    \<and> (\<not> non_incr_addr e \<longrightarrow> device_bytes ops = byte_addrs ep (dma_total mapped))"
proof -
  obtain req where req: "xdma_init_request (sv_granted env) (sv_hdr env) blen mapped ep = Ret (Some req)"
    and ok: "request_ok blen mapped ep req"
    using xdma_init_request_ok [OF assms(8,9), of "sv_granted env" "sv_hdr env" ep] assms(10,11) by blast
  let ?s = "\<lparr>su_engine = e, su_req = req, su_done = 0, su_nents = length mapped, su_unmaps = 0\<rparr>"
  have idx: "sw_desc_idx req = 0" "rq_ep_addr req = ep" using ok by (simp_all add: request_ok_def)
  note tot = request_total [OF ok]
  obtain s' where s': "submit_loop env xdev dma_mapped 0 (sw_desc_cnt req) ?s = Ret (0, s')" "idle (su_engine s')"
    "su_done s' = int (dma_total mapped)"
    "ops_run (su_engine s') = ops_run e @ dma_ops (non_incr_addr e) ep (rq_sdesc req)"
    using submit_loop_completes [of ?s env xdev "sw_desc_cnt req" dma_mapped 0] assms(1-4,12) idx tot by auto
  let ?ops = "dma_ops (non_incr_addr e) ep (rq_sdesc req)"
  have "magic e = 0xEEEEEEEE" using assms(1) by (simp add: idle_def)
  moreover have "host_bytes ?ops = dma_bytes mapped"
    using ok unfolding host_bytes_dma_ops by (simp add: request_ok_def)
  moreover have "\<not> non_incr_addr e \<longrightarrow> device_bytes ?ops = byte_addrs ep (dma_total mapped)"
    using device_bytes_dma_ops [of ep "rq_sdesc req"] tot by simp
  ultimately show ?thesis
    using s' req assms(3,5-7)
    by (intro exI [of _ "\<lparr>sr_ret = int (dma_total mapped), sr_engine = su_engine s',
        sr_unmaps = su_unmaps s' + of_bool (\<not> dma_mapped \<and> su_nents s' \<noteq> 0)\<rparr>"] exI [of _ ?ops])
      (simp add: submit_engine_def)
qed

subsection \<open>However a submission ends\<close>

text \<open>
  The lock \<open>desc_lock\<close> makes a synchronous submission the only user of the queue: the queue holds its
  transfer while that is submitted, and nothing afterwards. This holds whatever the device answers.
\<close>

definition solo :: "nat \<Rightarrow> xdma_engine \<Rightarrow> bool" where
  "solo i e \<longleftrightarrow> 0 < descs_of e i
     \<and> (if xf_state (xfers e i) = TRANSFER_STATE_SUBMITTED then transfer_list e = [i] else transfer_list e = [])"

definition preserves :: "(xdma_engine \<Rightarrow> bool) \<Rightarrow> 'a eng \<Rightarrow> bool" where
  "preserves P m \<longleftrightarrow> (\<forall>e. P e \<longrightarrow> P (snd (run_state m e)))"

lemma preservesI: "(\<And>e x e'. P e \<Longrightarrow> run_state m e = (x, e') \<Longrightarrow> P e') \<Longrightarrow> preserves P m"
  by (metis preserves_def prod.collapse)

lemma preservesD: "preserves P m \<Longrightarrow> P e \<Longrightarrow> run_state m e = (x, e') \<Longrightarrow> P e'"
  by (metis preserves_def snd_conv)

lemma preserves_bind [intro]:
  "preserves P m \<Longrightarrow> (\<And>x. preserves P (f x)) \<Longrightarrow> preserves P (State_Monad.bind m f)"
  by (auto simp: preserves_def split: prod.split)

lemma preserves_basic [intro!]:
  "preserves P (State_Monad.return x)" "preserves P State_Monad.get"
  by (simp_all add: preserves_def)

lemma solo_fields [simp]:
  "solo i (e\<lparr>io := l\<rparr>) = solo i e" "solo i (e\<lparr>status := s\<rparr>) = solo i e" "solo i (e\<lparr>running := r\<rparr>) = solo i e"
  "solo i (e\<lparr>shutdown := h\<rparr>) = solo i e" "solo i (e\<lparr>desc_dequeued := n\<rparr>) = solo i e"
  "solo i (e\<lparr>xdma_perf := pf\<rparr>) = solo i e"
  by (simp_all add: solo_def)

lemma solo_io [intro!]:
  "preserves (solo i) (log_event ev)" "preserves (solo i) (read_register hw r)" "preserves (solo i) (write_register v r)"
  "preserves (solo i) (xdma_engine_stop p)" "preserves (solo i) (engine_service_shutdown p)"
  "preserves (solo i) (engine_status_read hw clear False)"
  by (simp_all add: preserves_def eng_run Let_def)

lemma solo_start [intro!]: "preserves (solo i) (engine_start p hw)"
  by (auto simp: preserves_def eng_run split: list.split)

lemma solo_resume [intro!]: "preserves (solo i) (engine_service_resume p hw)"
  by (auto simp: preserves_def engine_service_resume_def eng_run split: list.split)

lemma solo_perf [intro!]: "preserves (solo i) (engine_service_perf c)"
  by (auto simp: preserves_def engine_service_perf_def eng_run split: option.split)

text \<open>The loop and the last transfer, together: what the loop leaves at the head is what is finished last.\<close>

lemma solo_retire:
  assumes "solo i e" "run_state (engine_service_transfer_list (transfer_list e) c) e = ((x, c'), e1)"
    and "run_state (engine_service_final_transfer p hw x c') e1 = (y, e2)"
  shows "solo i e2"
proof (cases "transfer_list e = []")
  case True
  then show ?thesis using assms by (auto simp: engine_service_final_transfer_def)
next
  case False
  then have l: "transfer_list e = [i]" "xf_state (xfers e i) = TRANSFER_STATE_SUBMITTED"
    using assms(1) by (auto simp: solo_def split: if_splits)
  show ?thesis
  proof (cases x)
    case None
    then have "xf_state (xfers e1 i) = TRANSFER_STATE_COMPLETED" "transfer_list e1 = []" "e2 = e1" "0 < descs_of e1 i"
      using assms l by (auto simp: solo_def eng_run Let_def engine_service_final_transfer_def split: if_splits)
    then show ?thesis by (simp add: solo_def)
  next
    case (Some j)
    then have e1: "e1 = e" "j = i" using assms(2) l by (auto simp: eng_run Let_def split: if_splits)
    then show ?thesis
      using assms(1,3) l Some
      by (auto simp: solo_def engine_service_final_transfer_def engine_err_handle_def transfer_del_def eng_run
          Let_def split: if_splits)
  qed
qed

lemma solo_service_completed [intro!]: "preserves (solo i) (service_completed p hw c)"
proof (rule preservesI)
  fix e u e'
  assume s: "solo i e" and run: "run_state (service_completed p hw c) e = (u, e')"
  let ?perf = "when_st (transfer_list e \<noteq> []) (do {
       _ \<leftarrow> engine_service_perf c;
       State_Monad.return ()
     })"
  let ?resume = "when_st (\<not> eop_flush e) (do {
       _ \<leftarrow> engine_service_resume p hw;
       State_Monad.return ()
     })"
  obtain e1 where e1: "run_state ?perf e = ((), e1)" by (metis old.unit.exhaust prod.exhaust)
  obtain x c' e2 where e2: "run_state (engine_service_transfer_list (transfer_list e) (c - of_nat (desc_dequeued e))) e1
      = ((x, c'), e2)" by (metis prod.exhaust)
  obtain y e3 where e3: "run_state (engine_service_final_transfer p hw x c') e2 = (y, e3)" by (metis prod.exhaust)
  have run4: "run_state ?resume e3 = ((), e')"
    using run e1 e2 e3 by (simp add: service_completed_def)
  have "preserves (solo i) ?perf" "preserves (solo i) ?resume" by auto
  then have p: "solo i e1" "solo i e3 \<Longrightarrow> solo i e'" using preservesD s e1 run4 by metis+
  have "transfer_list e1 = transfer_list e"
    using e1 by (auto simp: engine_service_perf_def eng_run split: if_splits option.splits)
  then have "solo i e3" using solo_retire [OF p(1) _ e3] e2 by simp
  then show "solo i e'" by (rule p(2))
qed

lemma solo_service [intro!]: "preserves (solo i) (engine_service p hw wb)"
  unfolding engine_service_def Let_def
  by (intro preserves_bind) (auto intro!: preserves_bind)

lemma solo_service_work [intro!]: "preserves (solo i) (engine_service_work p hw msix)"
  unfolding engine_service_work_def
  by (intro preserves_bind) (auto intro!: preserves_bind)

lemma solo_wait: "preserves (solo i) (wait_transfer (engine_service_work p hw msix) j n)"
  by (induction n) (auto intro!: preserves_bind)

definition identifies :: "xdma_hw \<Rightarrow> bool" where
  "identifies hw \<longleftrightarrow> (\<forall>l. reg_val hw l REG_identifier AND 0xFFF00000 = 0x1FC00000)"

lemma timeout_dequeues:
  assumes "solo i e" "identifies hw"
  shows "transfer_list (snd (run_state (transfer_timeout p hw i) e)) = []"
  using assms
  by (auto simp: transfer_timeout_def transfer_abort_def engine_status_read_def engine_reg_dump_def identifies_def
      solo_def eng_run split: if_splits)

lemma timeout_unidentified:
  assumes "reg_val hw (io e) REG_identifier AND 0xFFF00000 \<noteq> 0x1FC00000"
  shows "snd (run_state (transfer_timeout p hw i) e) = e\<lparr>io := io e @ [RegRead REG_identifier]\<rparr>"
  using assms by (simp add: transfer_timeout_def engine_status_read_def engine_reg_dump_def eng_run)

lemma submit_round_dequeues:
  assumes "transfer_list e1 = []" "0 < xf_desc_num xf" "identifies (sv_hw env)"
    and "submit_round env xdev dma_mapped k nents s (e1, req, xf) = (rv, nents', s')"
  shows "transfer_list (su_engine s') = []"
proof -
  let ?i = "sv_tfer env" and ?p = "sv_params env" and ?hw = "sv_hw env"
  let ?e2 = "e1\<lparr>xfers := (xfers e1)(?i := xf\<lparr>xf_need_unmap := \<not> dma_mapped,
    xf_last_in_request := nents - xf_desc_num xf = 0\<rparr>)\<rparr>"
  obtain q e3 where q: "run_state (transfer_queue ?p ?hw (dev_offline xdev) ?i) ?e2 = (q, e3)" by (metis prod.exhaust)
  let ?e4 = "snd (run_state (wait_transfer (engine_service_work ?p ?hw (msix_enabled xdev)) ?i (sv_irqs env k)) e3)"
  show ?thesis
  proof (cases "q < 0")
    case True
    then have "e3 = ?e2" using q assms(2)
      by (auto simp: transfer_queue_def eng_run split: if_splits list.splits)
    then show ?thesis using True q assms(1,4) by (auto simp: submit_round_def Let_def simp del: diff_is_0_eq diff_is_0_eq')
  next
    case False
    then have "solo ?i e3" using q assms(1,2)
      by (auto simp: transfer_queue_def eng_run solo_def split: if_splits list.splits)
    then have s4: "solo ?i ?e4" using solo_wait preserves_def by metis
    have out: "transfer_list (snd (snd (snd (transfer_outcome env ?e4)))) = []"
      using s4 timeout_dequeues [OF s4 assms(3)]
      by (auto simp: transfer_outcome_def Let_def solo_def split: transfer_state.splits if_splits)
    obtain a b c e5 where o: "transfer_outcome env ?e4 = (a, b, c, e5)" by (metis prod_cases4)
    have "transfer_list (su_engine s') = transfer_list e5"
      using False q o assms(4)
      by (auto simp: submit_round_def transfer_destroy_def Let_def simp del: diff_is_0_eq diff_is_0_eq')
    then show ?thesis using out o by simp
  qed
qed

text \<open>The scatter list has been unmapped once, or is still to be unmapped.\<close>

definition unmap_ok :: "submit_state \<Rightarrow> bool" where
  "unmap_ok s \<longleftrightarrow> su_unmaps s = (if su_nents s = 0 then 1 else 0)"

lemma submit_round_unmap:
  assumes "unmap_ok s" "submit_round env xdev dma_mapped k nents s b = (rv, nents', s')"
  shows "unmap_ok s'"
  using assms
  by (auto simp: submit_round_def transfer_destroy_def unmap_ok_def Let_def split: prod.splits if_splits)

lemma submit_loop_invariant:
  assumes "submit_loop env xdev dma_mapped k nents s = Ret (rv, s')" "P s"
    and "\<And>k nents s b rv nents' s'. P s \<Longrightarrow> transfer_init (su_engine s) (su_req s) = Ret b
      \<Longrightarrow> submit_round env xdev dma_mapped k nents s b = (rv, nents', s') \<Longrightarrow> P s'"
  shows "P s'"
  using assms(1,2)
proof (induction nents arbitrary: k s rule: less_induct)
  case (less nents)
  show ?case
  proof (cases "nents = 0")
    case True
    then show ?thesis using less.prems by (simp add: submit_loop.simps)
  next
    case False
    then obtain b where b: "transfer_init (su_engine s) (su_req s) = Ret b"
      using less.prems(1) by (auto simp: submit_loop.simps [of env xdev dma_mapped k nents s] obind_eq_Ret)
    obtain rv1 nents1 s1 where rd: "submit_round env xdev dma_mapped k nents s b = (rv1, nents1, s1)"
      by (metis prod_cases3)
    have p: "P s1" by (rule assms(3) [OF less.prems(2) b rd])
    have lt: "nents1 < nents"
      using submit_round_nents [OF rd] transfer_init_progress [OF b] False by simp
    show ?thesis
      using less.prems(1) False b rd p less.IH [OF lt _ p]
      by (auto simp: submit_loop.simps [of env xdev dma_mapped k nents s] split: if_splits)
  qed
qed

lemma submit_loop_dequeues:
  assumes "submit_loop env xdev dma_mapped k nents s = Ret (rv, s')"
    and "transfer_list (su_engine s) = []" "identifies (sv_hw env)"
  shows "transfer_list (su_engine s') = []"
proof (rule submit_loop_invariant [where P = "\<lambda>s. transfer_list (su_engine s) = []", OF assms(1,2)])
  fix k nents s b rv nents' s'
  assume s: "transfer_list (su_engine s) = []" and b: "transfer_init (su_engine s) (su_req s) = Ret b"
    and rd: "submit_round env xdev dma_mapped k nents s b = (rv, nents', s')"
  obtain e1 req xf where b3: "b = (e1, req, xf)" by (metis prod_cases3)
  have "transfer_list e1 = []" using b b3 s by (auto simp: transfer_init_def Let_def split: prod.splits if_splits)
  then show "transfer_list (su_engine s') = []"
    using submit_round_dequeues [OF _ _ assms(3)] transfer_init_progress [OF b] rd b3 by simp
qed

lemma xfer_submit_completes:
  assumes "chan < channel_max xdev write" "e = engine_of xdev write chan" "idle e"
    and "dir e = (if write then DMA_TO_DEVICE else DMA_FROM_DEVICE)"
    and "completes (sv_hw env) (desc_max e) (desc_bus e)" "\<not> dev_offline xdev" "\<forall>k. 0 < sv_irqs env k" "mapped \<noteq> []"
    and "desc_blen_max (sv_params env) = blen" "blen \<noteq> 0" "\<forall>x \<in> set mapped. unat (snd x) + unat blen \<le> 2 ^ 32"
    and "\<And>n. sv_granted env n" "sv_hdr env + descs_allocated blen mapped * 16 < 2 ^ 32" "dma_total mapped < 2 ^ 32"
  shows "\<exists>unmaps xdev' ops. xdma_xfer_submit env xdev chan write ep mapped dma_mapped = Ret (int (dma_total mapped), unmaps, xdev')
    \<and> idle (engine_of xdev' write chan) \<and> ops_run (engine_of xdev' write chan) = ops_run e @ ops
    \<and> host_bytes ops = dma_bytes mapped
    \<and> (\<not> non_incr_addr e \<longrightarrow> device_bytes ops = byte_addrs ep (dma_total mapped))"
proof -
  obtain r ops where r: "submit_engine env xdev write ep mapped dma_mapped e = Ret r" "sr_ret r = int (dma_total mapped)"
    "idle (sr_engine r)" "ops_run (sr_engine r) = ops_run e @ ops" "host_bytes ops = dma_bytes mapped"
    "\<not> non_incr_addr e \<longrightarrow> device_bytes ops = byte_addrs ep (dma_total mapped)"
    using submit_engine_completes [where xdev = xdev and ep = ep and dma_mapped = dma_mapped and env = env,
        OF assms(3,5-7,4,8-14)] by blast
  show ?thesis
    using r assms(1,2)
    by (intro exI [of _ "sr_unmaps r"] exI [of _ "set_engine write chan (sr_engine r) xdev"] exI [of _ ops])
      (simp add: xdma_xfer_submit_def)
qed

subsection \<open>Properties: submission\<close>


lemma submit_first_timeout:
  assumes "ring_ok e" "transfer_list e = []" "\<not> running e" "shutdown e = 0" "0 < sw_desc_cnt req" "sw_desc_idx req = 0"
    and "\<not> dev_offline xdev" "sv_irqs env 0 = 0"
    and "\<And>l. reg_val (sv_hw env) l REG_identifier AND 0xFFF00000 \<noteq> 0x1FC00000"
  shows "\<exists>s. submit_loop env xdev dma_mapped 0 (sw_desc_cnt req)
      \<lparr>su_engine = e, su_req = req, su_done = 0, su_nents = n, su_unmaps = u\<rparr> = Ret (- ERESTARTSYS, s)
    \<and> su_done s = 0 \<and> transfer_list (su_engine s) = [sv_tfer env]"
proof -
  have left: "sw_desc_idx req < sw_desc_cnt req" using assms(5,6) by simp
  obtain e1 req' xf where t: "transfer_init e req = Ret (e1, req', xf)"
    using transfer_init_ret [OF assms(1) left] .
  note f = transfer_init_fields [OF t assms(1)]
  obtain d ix us l where e1: "e1 = e\<lparr>desc := d, desc_idx := ix, desc_used := us, io := l\<rparr>"
    using f(9) by metis
  have num: "xf_desc_num xf \<noteq> 0" using transfer_count_props(1) [OF assms(1) left] f(1) by simp
  have un: "snd (run_state (transfer_timeout (sv_params env) (sv_hw env) (sv_tfer env)) e') =
      e'\<lparr>io := io e' @ [RegRead REG_identifier]\<rparr>" for e'
    by (rule timeout_unidentified) (rule assms(9))
  show ?thesis
    using assms(2-8) t num
    by (auto simp: submit_loop.simps [of env xdev dma_mapped 0] submit_round_def transfer_queue_def eng_run e1 Let_def
        transfer_outcome_def un transfer_destroy_def)
qed

text \<open>C16: What a submission leaves behind. Once the scatter list is mapped and the request built, however the
  device behaves, the scatter list is unmapped exactly once. The transfer is no longer
  queued, provided the identifier of the engine can be read. When a transfer times out and the
  identifier cannot be read (the device has gone), the transfer stays in the engine's queue
  although its memory is freed with the request.\<close>

theorem submit_cleans_up:
  assumes "chan < channel_max xdev write" "e = engine_of xdev write chan" "idle e"
    and "dir e = (if write then DMA_TO_DEVICE else DMA_FROM_DEVICE)" "\<not> dev_offline xdev" "mapped \<noteq> []"
    and "xdma_init_request (sv_granted env) (sv_hdr env) (desc_blen_max (sv_params env)) mapped ep = Ret (Some req)"
    and "0 < sw_desc_cnt req"
    and "xdma_xfer_submit env xdev chan write ep mapped False = Ret (ret, unmaps, xdev')"
  shows "unmaps = 1
    \<and> ((\<forall>l. reg_val (sv_hw env) l REG_identifier AND 0xFFF00000 = 0x1FC00000)
         \<longrightarrow> transfer_list (engine_of xdev' write chan) = [])
    \<and> ((\<forall>l. reg_val (sv_hw env) l REG_identifier AND 0xFFF00000 \<noteq> 0x1FC00000) \<and> sv_irqs env 0 = 0
         \<longrightarrow> ret = - ERESTARTSYS \<and> transfer_list (engine_of xdev' write chan) = [sv_tfer env])"
proof -
  let ?s = "\<lparr>su_engine = e, su_req = req, su_done = 0, su_nents = length mapped, su_unmaps = 0\<rparr>"
  have i: "ring_ok e" "transfer_list e = []" "\<not> running e" "shutdown e = 0" "magic e = 0xEEEEEEEE"
    using assms(3) by (simp_all add: idle_def)
  obtain rv s where loop: "submit_loop env xdev False 0 (sw_desc_cnt req) ?s = Ret (rv, s)"
    and res: "ret = (if su_done s \<noteq> 0 then su_done s else rv)" "unmaps = su_unmaps s + of_bool (su_nents s \<noteq> 0)"
      "engine_of xdev' write chan = su_engine s"
    using assms(1,4-7,9) i(5) unfolding assms(2)
    by (auto simp: xdma_xfer_submit_def submit_engine_def obind_eq_Ret split: if_splits)
  have idx: "sw_desc_idx req = 0"
    using assms(7) by (auto simp: xdma_init_request_def Let_def obind_eq_Ret split: if_splits option.splits)
  have "unmap_ok ?s" using assms(6) by (simp add: unmap_ok_def)
  then have "unmap_ok s"
    by (rule submit_loop_invariant [where P = unmap_ok, OF loop]) (rule submit_round_unmap)
  then have "unmaps = 1" using res(2) by (simp add: unmap_ok_def)
  moreover have "transfer_list (su_engine s) = []" if "\<forall>l. reg_val (sv_hw env) l REG_identifier AND 0xFFF00000 = 0x1FC00000"
    using submit_loop_dequeues [OF loop] i(2) that by (simp add: identifies_def)
  moreover have "ret = - ERESTARTSYS \<and> transfer_list (su_engine s) = [sv_tfer env]"
    if "\<And>l. reg_val (sv_hw env) l REG_identifier AND 0xFFF00000 \<noteq> 0x1FC00000" "sv_irqs env 0 = 0"
    using submit_first_timeout [OF i(1-4) assms(8) idx assms(5) that(2,1), of False "length mapped" 0] loop res(1) by auto
  ultimately show ?thesis using res(3) by auto
qed

text \<open>A device that completes its work at once, one that has gone, and a small ring of descriptors.\<close>

definition ideal_hw :: xdma_hw where
  "ideal_hw = \<lparr>reg_val = (\<lambda>l r. if r = REG_completed_desc_count \<and> chains 4 0x10000 0 0 l \<noteq> []
       then of_nat (length (last (chains 4 0x10000 0 0 l))) else if r = REG_identifier then 0x1FC00000 else 0),
     res_val = (\<lambda>_ _. \<lparr>rs_status = 0, rs_length = 0\<rparr>)\<rparr>"

definition gone_hw :: xdma_hw where
  "gone_hw = \<lparr>reg_val = (\<lambda>_ _. 0xFFFFFFFF), res_val = (\<lambda>_ _. \<lparr>rs_status = 0, rs_length = 0\<rparr>)\<rparr>"

definition demo_env :: "xdma_hw \<Rightarrow> nat \<Rightarrow> submit_env" where
  "demo_env hw n = \<lparr>sv_params = \<lparr>poll_mode = False, enable_st_c2h_credit = False, desc_blen_max = 0xFFFFFFF\<rparr>,
     sv_hw = hw, sv_granted = (\<lambda>_. True), sv_hdr = 600, sv_tfer = 7, sv_irqs = (\<lambda>_. n)\<rparr>"

definition demo_dev :: xdma_dev where
  "demo_dev = \<lparr>engine_h2c = (\<lambda>_. demo_engine), engine_c2h = (\<lambda>_. demo_engine), h2c_channel_max = 1,
     c2h_channel_max = 0, dev_offline = False, msix_enabled = False\<rparr>"

lemma demo_dev_facts [simp]:
  "engine_of demo_dev True 0 = demo_engine" "channel_max demo_dev True = 1" "\<not> dev_offline demo_dev"
  "idle demo_engine" "dir demo_engine = DMA_TO_DEVICE" "desc_max demo_engine = 4" "desc_bus demo_engine = 0x10000"
  "\<not> non_incr_addr demo_engine"
  by (simp_all add: engine_of_def channel_max_def demo_dev_def idle_def ring_ok_def demo_engine_def)


theorem submit_cleans_up_witness:
  "\<exists>ret xdev'. xdma_xfer_submit (demo_env gone_hw 0) demo_dev 0 True 0x100 [(0x8000, 4096)] False = Ret (ret, 1, xdev')
    \<and> ret = - ERESTARTSYS \<and> transfer_list (engine_of xdev' True 0) = [7]"
proof -
  let ?req = "\<lparr>rq_ep_addr = 0x100, rq_total_len = 4096, rq_sdesc = [\<lparr>sd_addr = 0x8000, sd_len = 4096\<rparr>], sw_desc_idx = 0\<rparr>"
  have init: "xdma_init_request (\<lambda>_. True) 600 0xFFFFFFF [(0x8000, 4096)] 0x100 = Ret (Some ?req)"
    by (simp add: xdma_init_request_def xdma_request_alloc_def descs_allocated_def extra_descs_def split_entry.simps)
  have "\<exists>s. submit_loop (demo_env gone_hw 0) demo_dev False 0 (sw_desc_cnt ?req)
      \<lparr>su_engine = demo_engine, su_req = ?req, su_done = 0, su_nents = 1, su_unmaps = 0\<rparr> = Ret (- ERESTARTSYS, s)"
    using submit_first_timeout [of demo_engine ?req demo_dev "demo_env gone_hw 0" False 1 0] demo_dev_facts(4)
    by (auto simp: idle_def demo_env_def gone_hw_def simp del: demo_dev_facts(4))
  then obtain ret unmaps xdev' where call:
    "xdma_xfer_submit (demo_env gone_hw 0) demo_dev 0 True 0x100 [(0x8000, 4096)] False = Ret (ret, unmaps, xdev')"
    using init demo_dev_facts(4) by (auto simp: xdma_xfer_submit_def submit_engine_def demo_env_def idle_def
        simp del: demo_dev_facts(4))
  show ?thesis
    using submit_cleans_up [OF _ refl _ _ _ _ _ _ call] init call
    by (auto simp: demo_env_def gone_hw_def)
qed

end
