(* ===== verification/Host_Sgdma.thy ===== *)
theory Host_Sgdma
  imports Xdma_Submit Fh_Protocol
begin

text \<open>
  The character device of the host's DMA driver and the entry for escaped requests
  (\<open>xdma/linux-kernel/xdma/cdev_sgdma.c\<close>, \<open>fvp_escape.c\<close>): reading and writing by a process of the host, and by
  the manager on behalf of the guest, whose buffer is given page by page in the memory of the
  simulator. Shown: a request of the manager whose pages can be pinned is carried out completely, between
  exactly the bytes of its chunks and consecutive addresses of the device, and every page is
  released once; a request that fails on some page leaves the pages before it pinned for ever.
\<close>

subsection \<open>Kernel services\<close>

text \<open>
  Tasks by process id, each with its memory maps; pinning of pages; allocation; mapping of a scatter list for
  the device. A page is known by its address. \<open>hk_gup_remote\<close> is \<open>get_user_pages_remote\<close> for one page: its value
  and the page it stores.
\<close>

record task_struct =
  task_mm :: "nat option"
  task_active_mm :: "nat option"

type_synonym sg_entry = "u64 option \<times> u32 \<times> u32"

record host_kernel =
  hk_current :: task_struct
  hk_current_pid :: u32
  hk_task :: "u64 \<Rightarrow> task_struct option"
  hk_gup_remote :: "nat \<Rightarrow> u64 \<Rightarrow> int \<times> u64"
  hk_gup_fast :: "u64 \<Rightarrow> nat \<Rightarrow> int \<times> u64 list"
  hk_sg_alloc :: "nat \<Rightarrow> bool"
  hk_kcalloc :: "nat \<Rightarrow> bool"
  hk_kmalloc :: "u64 \<Rightarrow> bool"
  hk_map_sg :: "sg_entry list \<Rightarrow> sg_dma list"

definition get_mm :: "host_kernel \<Rightarrow> u64 \<Rightarrow> nat option" where
  "get_mm k pid =
    (case (if pid \<noteq> 0 then hk_task k pid else Some (hk_current k)) of
       None \<Rightarrow> None
     | Some t \<Rightarrow> (if task_mm t \<noteq> None then task_mm t else task_active_mm t))"

subsection \<open>The character device\<close>

text \<open>\<open>cd_engine\<close> is the engine the file belongs to: its direction and channel.\<close>

record xdma_cdev =
  cd_magic :: u64
  cd_dev_magic :: "u64 option"
  cd_engine :: "(bool \<times> nat) option"

definition MAGIC_CHAR :: u64 where "MAGIC_CHAR = 0xCCCCCCCC"
definition MAGIC_DEVICE :: u64 where "MAGIC_DEVICE = 0xDDDDDDDD"
definition MAGIC_ENGINE :: u64 where "MAGIC_ENGINE = 0xEEEEEEEE"

definition xcdev_check :: "xdma_dev \<Rightarrow> xdma_cdev \<Rightarrow> bool \<Rightarrow> int" where
  "xcdev_check xdev xcdev check_engine =
    (if cd_magic xcdev \<noteq> MAGIC_CHAR then - EINVAL
     else if cd_dev_magic xcdev \<noteq> Some MAGIC_DEVICE then - EINVAL
     else if check_engine \<and> (case cd_engine xcdev of
        None \<Rightarrow> True | Some (wr, chan) \<Rightarrow> magic (engine_of xdev wr chan) \<noteq> MAGIC_ENGINE) then - EINVAL
     else 0)"

definition char_sgdma_llseek :: "int \<Rightarrow> int \<Rightarrow> int \<Rightarrow> int \<times> int" where
  "char_sgdma_llseek f_pos off whence =
    (let newpos = (if whence = 0 then Some off
                   else if whence = 1 then Some (f_pos + off)
                   else if whence = 2 then Some (0xFFFFFFFF + off) else None)
     in case newpos of
          None \<Rightarrow> (- EINVAL, f_pos)
        | Some p \<Rightarrow> if p < 0 then (- EINVAL, f_pos) else (p, p))"

text \<open>The low bits of addresses and lengths, against the alignment the engine reported.\<close>

definition addr_lsb :: "xdma_engine \<Rightarrow> u64 \<Rightarrow> u32" where
  "addr_lsb e a = ucast a AND (ucast (addr_align e) - 1)"

definition check_transfer_align :: "xdma_engine \<Rightarrow> u64 \<Rightarrow> u64 \<Rightarrow> u64 \<Rightarrow> bool \<Rightarrow> int" where
  "check_transfer_align e buf count pos sync =
    (if non_incr_addr e then
       if addr_lsb e buf \<noteq> 0 then - EINVAL
       else if addr_lsb e pos \<noteq> 0 \<and> sync then - EINVAL
       else if count AND (ucast (len_granularity e) - 1) \<noteq> 0 then - EINVAL
       else 0
     else if addr_lsb e buf \<noteq> addr_lsb e pos then - EINVAL
     else 0)"

subsection \<open>Buffers\<close>

text \<open>
  \<open>struct xdma_io_cb\<close>: the pages of the buffer (\<open>None\<close> for a null array, entries null until they are pinned) and
  the scatter list.
\<close>

record xdma_io_cb =
  io_buf :: u64
  io_len :: u64
  io_pages_nr :: nat
  io_sgl :: "sg_entry list"
  io_pages :: "u64 option list option"

definition io_cb_init :: "u64 \<Rightarrow> u64 \<Rightarrow> xdma_io_cb" where
  "io_cb_init buf count = \<lparr>io_buf = buf, io_len = count, io_pages_nr = 0, io_sgl = [], io_pages = None\<rparr>"

text \<open>
  \<open>char_sgdma_unmap_user_buf\<close>: the control block afterwards and the pages it releases, each with whether it
  is marked dirty first, which is so when the device has written to it.
\<close>

definition char_sgdma_unmap_user_buf :: "xdma_io_cb \<Rightarrow> bool \<Rightarrow> xdma_io_cb \<times> (u64 \<times> bool) list" where
  "char_sgdma_unmap_user_buf cb write =
    (let cb1 = cb\<lparr>io_sgl := []\<rparr>
     in case io_pages cb of
          None \<Rightarrow> (cb1, [])
        | Some ps \<Rightarrow>
            if io_pages_nr cb = 0 then (cb1, [])
            else (cb1\<lparr>io_pages := None\<rparr>,
                  map (\<lambda>p. (the p, \<not> write)) (takeWhile (\<lambda>p. p \<noteq> None) (take (io_pages_nr cb) ps))))"

fun has_duplicates :: "u64 list \<Rightarrow> bool" where
  "has_duplicates (p # q # ps) = (p = q \<or> has_duplicates (q # ps))"
| "has_duplicates _ = False"

text \<open>
  The loop of \<open>map_remote_pages_to_sgl\<close> that pins the pages of the other process: the value of \<open>ret\<close> when it
  is left early, and the pages pinned so far. Chunks are read from the array the ioctl copied.
\<close>

fun pin_remote :: "host_kernel \<Rightarrow> u64 \<Rightarrow> page_chunk list \<Rightarrow> int option \<times> u64 list" where
  "pin_remote k pid [] = (None, [])"
| "pin_remote k pid (c # cs) =
    (case get_mm k pid of
       None \<Rightarrow> (Some (- ENOMEM), [])
     | Some mm \<Rightarrow>
         (case hk_gup_remote k mm (addr c) of
            (ret, page) \<Rightarrow>
              if ret \<noteq> 1 then (Some ret, [])
              else (case pin_remote k pid cs of (r, ps) \<Rightarrow> (r, page # ps))))"

definition fill_pages :: "nat \<Rightarrow> u64 list \<Rightarrow> u64 option list" where
  "fill_pages n ps = map Some ps @ replicate (n - length ps) None"

definition remote_entry :: "page_chunk \<Rightarrow> u64 \<Rightarrow> sg_entry" where
  "remote_entry c p = (Some p, ucast (nbytes c), ucast (offset c))"

text \<open>
  \<open>map_remote_pages_to_sgl\<close>. The number of pages is an \<open>unsigned int\<close>; no path releases a page or the
  scatter list, and \<open>pages_nr\<close> is set only at the end.
\<close>

definition map_remote_pages_to_sgl ::
  "host_kernel \<Rightarrow> xdma_io_cb \<Rightarrow> fh_host_ioctl_dma \<Rightarrow> (int \<times> xdma_io_cb) outcome" where
  "map_remote_pages_to_sgl k cb dma =
    (let n = unat (ucast (dma_chunks_nr dma) :: u32)
     in if n = 0 then Ret (- EINVAL, cb)
        else if \<not> hk_sg_alloc k n then Ret (- ENOMEM, cb)
        else let cb1 = cb\<lparr>io_sgl := replicate n (None, 0, 0)\<rparr>
        in if \<not> hk_kcalloc k n then Ret (- ENOMEM, cb1\<lparr>io_pages := None\<rparr>)
        else if length (dma_chunks dma) < n then Ub OutOfBounds
        else let cs = take n (dma_chunks dma)
        in case pin_remote k (scast (dma_pid dma)) cs of
             (Some ret, ps) \<Rightarrow> Ret (ret, cb1\<lparr>io_pages := Some (fill_pages n ps)\<rparr>)
           | (None, ps) \<Rightarrow>
               let cb2 = cb1\<lparr>io_pages := Some (fill_pages n ps)\<rparr>
               in if has_duplicates ps then Ret (- EFAULT, cb2\<lparr>io_pages_nr := n\<rparr>)
                  else let cb3 = cb2\<lparr>io_sgl := map2 remote_entry cs ps\<rparr>
                  in if io_len cb \<noteq> sum_list (map (\<lambda>c. ucast (ucast (nbytes c) :: u32)) cs) then Ret (- EINVAL, cb3)
                     else Ret (0, cb3\<lparr>io_pages_nr := n\<rparr>))"

text \<open>The pages of an own buffer, cut at page boundaries.\<close>

definition user_pages_nr :: "u64 \<Rightarrow> u64 \<Rightarrow> nat" where
  "user_pages_nr buf len =
     unat (ucast (drop_bit 12 ((buf + len + 4096 - 1) - (buf AND NOT 0xFFF))) :: u32)"

fun user_entries :: "u64 \<Rightarrow> u64 \<Rightarrow> u64 list \<Rightarrow> u64 \<times> sg_entry list" where
  "user_entries buf len [] = (len, [])"
| "user_entries buf len (p # ps) =
    (let off = ucast (buf AND 0xFFF) :: u32;
         n = min (4096 - off) (ucast len);
         (rest, es) = user_entries (buf + ucast n) (len - ucast n) ps
     in (rest, (Some p, n, off) # es))"

text \<open>\<open>char_sgdma_map_user_buf_to_sgl\<close>: value, control block, and the pages released on its error path.\<close>

definition char_sgdma_map_user_buf_to_sgl ::
  "host_kernel \<Rightarrow> xdma_io_cb \<Rightarrow> bool \<Rightarrow> int \<times> xdma_io_cb \<times> (u64 \<times> bool) list" where
  "char_sgdma_map_user_buf_to_sgl k cb write =
    (let n = user_pages_nr (io_buf cb) (io_len cb);
         err_out = (\<lambda>rv cb. case char_sgdma_unmap_user_buf cb write of (cb', ps) \<Rightarrow> (rv, cb', ps))
     in if n = 0 then (- EINVAL, cb, [])
        else if \<not> hk_sg_alloc k n then (- ENOMEM, cb, [])
        else let cb1 = cb\<lparr>io_sgl := replicate n (None, 0, 0)\<rparr>
        in if \<not> hk_kcalloc k n then err_out (- ENOMEM) (cb1\<lparr>io_pages := None\<rparr>)
        else case hk_gup_fast k (io_buf cb) n of
          (rv, ps) \<Rightarrow>
            if rv < 0 then err_out rv (cb1\<lparr>io_pages := Some (replicate n None)\<rparr>)
            else let cb2 = cb1\<lparr>io_pages := Some (fill_pages n ps)\<rparr>
            in if rv \<noteq> int n then err_out (- EFAULT) (cb2\<lparr>io_pages_nr := nat rv\<rparr>)
               else if has_duplicates ps then err_out (- EFAULT) (cb2\<lparr>io_pages_nr := n\<rparr>)
               else case user_entries (io_buf cb) (io_len cb) ps of
                 (rest, es) \<Rightarrow>
                   if rest \<noteq> 0 then (- EINVAL, cb2\<lparr>io_sgl := es\<rparr>, [])
                   else (0, cb2\<lparr>io_sgl := es, io_pages_nr := n\<rparr>, []))"

subsection \<open>Transfers of a file\<close>

text \<open>What a call leaves: its value, the device, and the pages pinned and released by it.\<close>

record rw_result =
  rw_ret :: int
  rw_dev :: xdma_dev
  rw_got :: "u64 list"
  rw_put :: "(u64 \<times> bool) list"

definition pinned_of :: "xdma_io_cb \<Rightarrow> u64 list" where
  "pinned_of cb = (case io_pages cb of None \<Rightarrow> [] | Some ps \<Rightarrow> map the (filter (\<lambda>p. p \<noteq> None) ps))"

definition no_transfer :: "int \<Rightarrow> xdma_dev \<Rightarrow> rw_result" where
  "no_transfer rv xdev = \<lparr>rw_ret = rv, rw_dev = xdev, rw_got = [], rw_put = []\<rparr>"

text \<open>
  From a mapped buffer on: \<open>xdma_xfer_submit\<close>, which maps the scatter list for the device, and the release of
  the pages. An entry without a page is a null dereference when it is mapped.
\<close>

definition submit_buffer ::
  "submit_env \<Rightarrow> host_kernel \<Rightarrow> xdma_dev \<Rightarrow> nat \<Rightarrow> bool \<Rightarrow> u64 \<Rightarrow> xdma_io_cb \<Rightarrow> rw_result outcome" where
  "submit_buffer env k xdev chan write ep cb =
    (if \<exists>x \<in> set (io_sgl cb). fst x = None then Ub NullDeref
     else obind (xdma_xfer_submit env xdev chan write ep (hk_map_sg k (io_sgl cb)) False) (\<lambda>(res, unmaps, xdev').
       Ret \<lparr>rw_ret = res, rw_dev = xdev', rw_got = pinned_of cb, rw_put = snd (char_sgdma_unmap_user_buf cb write)\<rparr>))"

definition rw_checked ::
  "xdma_dev \<Rightarrow> xdma_cdev \<Rightarrow> u64 \<Rightarrow> u64 \<Rightarrow> u64 \<Rightarrow> bool \<Rightarrow> (nat \<Rightarrow> rw_result outcome) \<Rightarrow> rw_result outcome" where
  "rw_checked xdev xcdev buf count pos write body =
    (if xcdev_check xdev xcdev True < 0 then Ret (no_transfer (xcdev_check xdev xcdev True) xdev)
     else case cd_engine xcdev of
       None \<Rightarrow> Ub NullDeref
     | Some (wr, chan) \<Rightarrow>
         let e = engine_of xdev wr chan; rv = check_transfer_align e buf count pos True
         in if dir e \<noteq> (if write then DMA_TO_DEVICE else DMA_FROM_DEVICE) then Ret (no_transfer (- EINVAL) xdev)
            else if rv \<noteq> 0 then Ret (no_transfer rv xdev)
            else body (channel e))"

definition char_sgdma_read_write_remote ::
  "submit_env \<Rightarrow> host_kernel \<Rightarrow> xdma_dev \<Rightarrow> xdma_cdev \<Rightarrow> fh_host_ioctl_dma \<Rightarrow> u64 \<Rightarrow> u64 \<Rightarrow> bool \<Rightarrow> rw_result outcome" where
  "char_sgdma_read_write_remote env k xdev xcdev dma count remote_addr write =
     rw_checked xdev xcdev (dma_user_buf dma) count remote_addr write (\<lambda>chan.
       obind (map_remote_pages_to_sgl k (io_cb_init (dma_user_buf dma) count) dma) (\<lambda>(rv, cb).
         if rv < 0 then Ret \<lparr>rw_ret = rv, rw_dev = xdev, rw_got = pinned_of cb, rw_put = []\<rparr>
         else submit_buffer env k xdev chan write remote_addr cb))"

definition host_sgdma_read_write ::
  "submit_env \<Rightarrow> host_kernel \<Rightarrow> xdma_dev \<Rightarrow> xdma_cdev \<Rightarrow> u64 \<Rightarrow> u64 \<Rightarrow> u64 \<Rightarrow> bool \<Rightarrow> rw_result outcome" where
  "host_sgdma_read_write env k xdev xcdev buf count pos write =
     rw_checked xdev xcdev buf count pos write (\<lambda>chan.
       case char_sgdma_map_user_buf_to_sgl k (io_cb_init buf count) write of
         (rv, cb, put) \<Rightarrow>
           if rv < 0 then Ret \<lparr>rw_ret = rv, rw_dev = xdev, rw_got = map fst put @ pinned_of cb, rw_put = put\<rparr>
           else submit_buffer env k xdev chan write pos cb)"

subsection \<open>The ioctl of the escape\<close>

text \<open>
  \<open>fh_handle_dma\<close>. \<open>copied\<close> is what \<open>copy_from_user\<close> returns for the request and for its chunks: the number of
  bytes it could not copy, never negative, so that the tests \<open>ret < 0\<close> do not see a failure and
  uninitialised memory is used. The value is truncated to an \<open>int\<close>.
\<close>

definition to_int :: "int \<Rightarrow> int" where
  "to_int v = sint (word_of_int v :: u32)"

definition fh_handle_dma ::
  "submit_env \<Rightarrow> host_kernel \<Rightarrow> xdma_dev \<Rightarrow> xdma_cdev \<Rightarrow> nat \<times> nat \<Rightarrow> fh_host_ioctl_dma \<Rightarrow> rw_result outcome" where
  "fh_handle_dma env k xdev xcdev copied usr =
    (if fst copied \<noteq> 0 then Ub Uninitialised
     else if \<not> hk_kmalloc k (dma_chunks_nr usr * 24) then Ret (no_transfer (- ENOMEM) xdev)
     else if snd copied \<noteq> 0 then Ub Uninitialised
     else obind (char_sgdma_read_write_remote env k xdev xcdev usr (dma_len usr) (dma_phy_addr usr)
            (dma_do_write usr \<noteq> 0)) (\<lambda>r.
       Ret (r\<lparr>rw_ret := to_int (rw_ret r)\<rparr>)))"

datatype fh_cmd = FH_HOST_IOCTL_DMA | FH_OTHER_CMD

definition fh_handle_ioctl ::
  "submit_env \<Rightarrow> host_kernel \<Rightarrow> xdma_dev \<Rightarrow> xdma_cdev \<Rightarrow> fh_cmd \<Rightarrow> nat \<times> nat \<Rightarrow> fh_host_ioctl_dma \<Rightarrow> rw_result outcome" where
  "fh_handle_ioctl env k xdev xcdev cmd copied usr =
    (case cmd of
       FH_HOST_IOCTL_DMA \<Rightarrow> fh_handle_dma env k xdev xcdev copied usr
     | FH_OTHER_CMD \<Rightarrow> Ret (no_transfer (- EINVAL) xdev))"

subsection \<open>Opening and closing\<close>

definition char_sgdma_open :: "xdma_engine \<Rightarrow> bool \<Rightarrow> int \<times> xdma_engine" where
  "char_sgdma_open e trunc =
    (if st_c2h e then
       if device_open e then (- EBUSY, e)
       else (0, e\<lparr>device_open := True, eop_flush := trunc\<rparr>)
     else (0, e))"

definition char_sgdma_close :: "xdma_dev \<Rightarrow> xdma_cdev \<Rightarrow> int \<times> xdma_dev" where
  "char_sgdma_close xdev xcdev =
    (if xcdev_check xdev xcdev True < 0 then (xcdev_check xdev xcdev True, xdev)
     else case cd_engine xcdev of
       None \<Rightarrow> (0, xdev)
     | Some (wr, chan) \<Rightarrow>
         let e = engine_of xdev wr chan
         in (0, if st_c2h e then set_engine wr chan (e\<lparr>device_open := False\<rparr>) xdev else xdev))"

subsection \<open>Pinned buffers\<close>

lemma fill_pages_full [simp]: "fill_pages (length ps) ps = map Some ps"
  by (simp add: fill_pages_def)

lemma takeWhile_Some [simp]:
  "takeWhile (\<lambda>p. p \<noteq> None) (map Some ps) = map Some ps" "takeWhile (\<lambda>p. \<exists>y. p = Some y) (map Some ps) = map Some ps"
  by (induction ps) auto

lemma pinned_of_fill: "io_pages cb = Some (fill_pages n ps) \<Longrightarrow> pinned_of cb = ps"
  by (simp add: pinned_of_def fill_pages_def comp_def filter_map)

lemma pin_remote_all:
  assumes "get_mm k pid = Some mm" "\<forall>c \<in> set cs. fst (hk_gup_remote k mm (addr c)) = 1"
  shows "pin_remote k pid cs = (None, map (\<lambda>c. snd (hk_gup_remote k mm (addr c))) cs)"
  using assms by (induction cs) (auto split: prod.splits)

text \<open>Pinning stops at the first page that cannot be had.\<close>

lemma pin_remote_fails:
  assumes "get_mm k pid = Some mm" "\<forall>c \<in> set cs. fst (hk_gup_remote k mm (addr c)) = 1"
    and "fst (hk_gup_remote k mm (addr c)) = ret" "ret \<noteq> 1"
  shows "pin_remote k pid (cs @ c # rest) = (Some ret, map (\<lambda>c. snd (hk_gup_remote k mm (addr c))) cs)"
  using assms by (induction cs) (auto split: prod.splits)

text \<open>A request of the manager: its chunks lie inside pages, are as many as announced and add up to its length.\<close>

definition dma_ok :: "fh_host_ioctl_dma \<Rightarrow> bool" where
  "dma_ok dma \<longleftrightarrow> dma_chunks dma \<noteq> [] \<and> length (dma_chunks dma) < 2 ^ 32
    \<and> dma_chunks_nr dma = of_nat (length (dma_chunks dma))
    \<and> (\<forall>c \<in> set (dma_chunks dma). unat (offset c) + unat (nbytes c) \<le> 4096)
    \<and> sum_list (map (\<lambda>c. unat (nbytes c)) (dma_chunks dma)) = unat (dma_len dma) \<and> unat (dma_len dma) < 2 ^ 31"

lemma ucast_small:
  assumes "unat (v :: u64) < 2 ^ 32"
  shows "ucast (ucast v :: u32) = v" "unat (ucast v :: u32) = unat v"
proof -
  show u: "unat (ucast v :: u32) = unat v" using assms by (simp add: unsigned_ucast_eq take_bit_nat_eq_self)
  have "ucast (ucast v :: u32) = take_bit 32 v" by (rule bit_word_eqI) (auto simp: bit_simps)
  then show "ucast (ucast v :: u32) = v" using take_bit_small [OF assms] by simp
qed

lemma chunks_sum:
  assumes "\<forall>c \<in> set cs. unat (nbytes c) < 2 ^ 32" "sum_list (map (\<lambda>c. unat (nbytes c)) cs) = unat (len :: u64)"
  shows "sum_list (map (\<lambda>c. ucast (ucast (nbytes c) :: u32)) cs) = len"
proof -
  have m: "map (\<lambda>c. ucast (ucast (nbytes c) :: u32)) cs = map nbytes cs"
    using assms(1) ucast_small(1) by auto
  have "sum_list (map nbytes cs) = of_nat (sum_list (map (\<lambda>c. unat (nbytes c)) cs))"
    by (induction cs) auto
  then show ?thesis unfolding m assms(2) by simp
qed

text \<open>The scatter list of a pinned request, as the kernel is given it.\<close>

definition pages_of :: "host_kernel \<Rightarrow> nat \<Rightarrow> page_chunk list \<Rightarrow> u64 list" where
  "pages_of k mm cs = map (\<lambda>c. snd (hk_gup_remote k mm (addr c))) cs"

lemma map_remote_ok:
  assumes "dma_ok dma" "get_mm k (scast (dma_pid dma)) = Some mm"
    and "\<forall>c \<in> set (dma_chunks dma). fst (hk_gup_remote k mm (addr c)) = 1"
    and "\<not> has_duplicates (pages_of k mm (dma_chunks dma))" "\<And>n. hk_sg_alloc k n" "\<And>n. hk_kcalloc k n"
  shows "map_remote_pages_to_sgl k (io_cb_init buf (dma_len dma)) dma =
    Ret (0, \<lparr>io_buf = buf, io_len = dma_len dma, io_pages_nr = length (dma_chunks dma),
      io_sgl = map2 remote_entry (dma_chunks dma) (pages_of k mm (dma_chunks dma)),
      io_pages = Some (map Some (pages_of k mm (dma_chunks dma)))\<rparr>)"
proof -
  let ?cs = "dma_chunks dma"
  have ok: "?cs \<noteq> []" "length ?cs < 2 ^ 32" "dma_chunks_nr dma = of_nat (length ?cs)"
    "\<forall>c \<in> set ?cs. unat (offset c) + unat (nbytes c) \<le> 4096"
    "sum_list (map (\<lambda>c. unat (nbytes c)) ?cs) = unat (dma_len dma)"
    using assms(1) by (simp_all add: dma_ok_def)
  have "unat (dma_chunks_nr dma) = length ?cs" using ok(2,3) by (simp add: unat_of_nat)
  then have n: "unat (ucast (dma_chunks_nr dma) :: u32) = length ?cs"
    using ok(2) ucast_small(2) [of "dma_chunks_nr dma"] by simp
  have "\<forall>c \<in> set ?cs. unat (nbytes c) < 2 ^ 32" using ok(4) by fastforce
  from chunks_sum [OF this ok(5)] have sum: "sum_list (map (\<lambda>c. ucast (ucast (nbytes c) :: u32)) ?cs) = dma_len dma" .
  have pin: "pin_remote k (scast (dma_pid dma)) ?cs = (None, pages_of k mm ?cs)"
    using pin_remote_all [OF assms(2,3)] by (simp add: pages_of_def)
  have "fill_pages (length ?cs) (pages_of k mm ?cs) = map Some (pages_of k mm ?cs)"
    using fill_pages_full [of "pages_of k mm ?cs"] by (simp add: pages_of_def)
  then show ?thesis
    using ok(1) assms(4-6) by (simp add: map_remote_pages_to_sgl_def n pin sum io_cb_init_def Let_def)
qed

subsection \<open>Carrying out a request\<close>

text \<open>
  The device sees a page at a fixed bus address: \<open>pci_map_sg\<close> maps every entry on its own, at the bus address of
  its page plus its offset.
\<close>

definition maps_pages :: "host_kernel \<Rightarrow> (u64 \<Rightarrow> u64) \<Rightarrow> bool" where
  "maps_pages k bus \<longleftrightarrow> (\<forall>es. hk_map_sg k es = map (\<lambda>(p, n, off). (bus (the p) + ucast off, n)) es)"

definition chunk_dma :: "(u64 \<Rightarrow> u64) \<Rightarrow> page_chunk \<Rightarrow> u64 \<Rightarrow> sg_dma" where
  "chunk_dma bus c p = (bus p + offset c, ucast (nbytes c))"

lemma mapped_chunks:
  assumes "maps_pages k bus" "length cs = length ps" "\<forall>c \<in> set cs. unat (offset c) + unat (nbytes c) \<le> 4096"
  shows "hk_map_sg k (map2 remote_entry cs ps) = map2 (chunk_dma bus) cs ps
    \<and> dma_total (map2 (chunk_dma bus) cs ps) = sum_list (map (\<lambda>c. unat (nbytes c)) cs)
    \<and> (\<forall>x \<in> set (map2 (chunk_dma bus) cs ps). unat (snd x) \<le> 4096)
    \<and> dma_bytes (map2 (chunk_dma bus) cs ps) =
        concat (map2 (\<lambda>c p. byte_addrs (bus p + offset c) (unat (nbytes c))) cs ps)"
  using assms(2,3)
proof (induction cs ps rule: list_induct2)
  case Nil
  then show ?case using assms(1) by (simp add: maps_pages_def)
next
  case (Cons c cs p ps)
  have small: "unat (offset c) < 2 ^ 32" "unat (nbytes c) < 2 ^ 32" "unat (nbytes c) \<le> 4096"
    using Cons.prems by auto
  have rest: "\<forall>c \<in> set cs. unat (offset c) + unat (nbytes c) \<le> 4096" using Cons.prems by simp
  have "hk_map_sg k es = map (\<lambda>(p, n, off). (bus (the p) + ucast off, n)) es" for es
    using assms(1) by (simp add: maps_pages_def)
  then show ?case
    using Cons.IH [OF rest] small by (simp add: remote_entry_def chunk_dma_def ucast_small)
qed

lemma descs_allocated_small:
  assumes "\<forall>x \<in> set sgl. unat (snd x) \<le> 4096" "4096 \<le> unat blen"
  shows "descs_allocated blen sgl = length sgl"
proof -
  have "extra_descs blen (snd x) = 0" if "x \<in> set sgl" for x
    using assms that by (fastforce simp: extra_descs_def word_less_nat_alt)
  then have "map (\<lambda>e. extra_descs blen (snd e)) sgl = map (\<lambda>e. 0) sgl" by simp
  then show ?thesis by (simp add: descs_allocated_def)
qed

text \<open>The engine is ready for requests of the manager, with a device that completes its work.\<close>

definition dma_ready :: "submit_env \<Rightarrow> xdma_dev \<Rightarrow> bool \<Rightarrow> nat \<Rightarrow> bool" where
  "dma_ready env xdev write chan \<longleftrightarrow>
    (let e = engine_of xdev write chan
     in idle e \<and> channel e = chan \<and> chan < channel_max xdev write \<and> \<not> dev_offline xdev
        \<and> dir e = (if write then DMA_TO_DEVICE else DMA_FROM_DEVICE)
        \<and> completes (sv_hw env) (desc_max e) (desc_bus e) \<and> (\<forall>k. 0 < sv_irqs env k) \<and> (\<forall>n. sv_granted env n)
        \<and> 4096 \<le> unat (desc_blen_max (sv_params env)) \<and> 4096 + unat (desc_blen_max (sv_params env)) \<le> 2 ^ 32)"

lemma submit_buffer_completes:
  assumes "dma_ready env xdev write chan" "maps_pages k bus" "length cs = length ps" "cs \<noteq> []"
    and "\<forall>c \<in> set cs. unat (offset c) + unat (nbytes c) \<le> 4096" "sum_list (map (\<lambda>c. unat (nbytes c)) cs) = len"
    and "len < 2 ^ 32" "sv_hdr env + length cs * 16 < 2 ^ 32"
    and "io_sgl cb = map2 remote_entry cs ps" "io_pages cb = Some (map Some ps)" "io_pages_nr cb = length ps"
  defines "e \<equiv> engine_of xdev write chan"
  shows "\<exists>r ops. submit_buffer env k xdev chan write ep cb = Ret r \<and> rw_ret r = int len
    \<and> rw_got r = ps \<and> rw_put r = map (\<lambda>p. (p, \<not> write)) ps
    \<and> idle (engine_of (rw_dev r) write chan) \<and> ops_run (engine_of (rw_dev r) write chan) = ops_run e @ ops
    \<and> host_bytes ops = concat (map2 (\<lambda>c p. byte_addrs (bus p + offset c) (unat (nbytes c))) cs ps)
    \<and> (\<not> non_incr_addr e \<longrightarrow> device_bytes ops = byte_addrs ep len)"
proof -
  let ?m = "map2 (chunk_dma bus) cs ps" and ?blen = "desc_blen_max (sv_params env)"
  note mc = mapped_chunks [OF assms(2,3,5)]
  have r: "idle e" "chan < channel_max xdev write" "\<not> dev_offline xdev"
    "dir e = (if write then DMA_TO_DEVICE else DMA_FROM_DEVICE)" "completes (sv_hw env) (desc_max e) (desc_bus e)"
    "\<forall>k. 0 < sv_irqs env k" "\<And>n. sv_granted env n" "4096 \<le> unat ?blen" "4096 + unat ?blen \<le> 2 ^ 32"
    using assms(1) by (simp_all add: dma_ready_def Let_def e_def)
  have ee: "e = engine_of xdev write chan" by (simp add: e_def)
  have ne: "?m \<noteq> []" using assms(3,4) by (cases cs; cases ps) auto
  have b0: "?blen \<noteq> 0" using r(8) by auto
  have small: "\<forall>x \<in> set ?m. unat (snd x) + unat ?blen \<le> 2 ^ 32" using mc r(9) by fastforce
  have alloc: "sv_hdr env + descs_allocated ?blen ?m * 16 < 2 ^ 32"
    using descs_allocated_small [OF _ r(8), of ?m] mc assms(3,8) by simp
  have tot: "dma_total ?m < 2 ^ 32" using mc assms(6,7) by simp
  obtain unmaps xdev' ops where x: "xdma_xfer_submit env xdev chan write ep ?m False = Ret (int (dma_total ?m), unmaps, xdev')"
    "idle (engine_of xdev' write chan)" "ops_run (engine_of xdev' write chan) = ops_run e @ ops" "host_bytes ops = dma_bytes ?m"
    "\<not> non_incr_addr e \<longrightarrow> device_bytes ops = byte_addrs ep (dma_total ?m)"
    using xfer_submit_completes [where env = env and ep = ep and dma_mapped = False,
        OF r(2) ee r(1,4,5,3,6) ne refl b0 small r(7) alloc tot] by blast
  have nn: "\<not> (\<exists>x \<in> set (io_sgl cb). fst x = None)"
    using assms(9) by (auto simp: remote_entry_def)
  let ?r = "\<lparr>rw_ret = int len, rw_dev = xdev', rw_got = ps, rw_put = map (\<lambda>p. (p, \<not> write)) ps\<rparr>"
  have "ps \<noteq> []" using assms(3,4) by auto
  then have "snd (char_sgdma_unmap_user_buf cb write) = map (\<lambda>p. (p, \<not> write)) ps" "pinned_of cb = ps"
    using assms(10,11) by (simp_all add: char_sgdma_unmap_user_buf_def pinned_of_def comp_def filter_map)
  then have "submit_buffer env k xdev chan write ep cb = Ret ?r"
    using x(1) nn mc assms(6) by (simp add: submit_buffer_def assms(9))
  then show ?thesis using x mc assms(6) by (intro exI [of _ ?r] exI [of _ ops]) simp
qed

lemma to_int_small: "0 \<le> v \<Longrightarrow> v < 2 ^ 31 \<Longrightarrow> to_int v = v"
  by (simp add: to_int_def sint_word_of_int)

lemma to_int_nat: "n < 2 ^ 31 \<Longrightarrow> to_int (int n) = int n"
  by (rule to_int_small) simp_all

text \<open>The file the manager has open belongs to the engine of the request's direction.\<close>

definition file_ok :: "xdma_dev \<Rightarrow> xdma_cdev \<Rightarrow> bool \<Rightarrow> nat \<Rightarrow> bool" where
  "file_ok xdev xcdev write chan \<longleftrightarrow> cd_magic xcdev = MAGIC_CHAR \<and> cd_dev_magic xcdev = Some MAGIC_DEVICE
    \<and> cd_engine xcdev = Some (write, chan)"

lemma fh_handle_dma_completes:
  fixes dma mm k
  defines "cs \<equiv> dma_chunks dma" and "ps \<equiv> pages_of k mm (dma_chunks dma)"
  assumes "dma_ok dma" "dma_do_write dma = of_bool write" "file_ok xdev xcdev write chan" "dma_ready env xdev write chan"
    and "e = engine_of xdev write chan"
    and "check_transfer_align e (dma_user_buf dma) (dma_len dma) (dma_phy_addr dma) True = 0"
    and "get_mm k (scast (dma_pid dma)) = Some mm" "\<forall>c \<in> set cs. fst (hk_gup_remote k mm (addr c)) = 1"
    and "\<not> has_duplicates ps" "\<And>n. hk_sg_alloc k n" "\<And>n. hk_kcalloc k n" "\<And>n. hk_kmalloc k n" "maps_pages k bus"
    and "sv_hdr env + length cs * 16 < 2 ^ 32"
  shows "\<exists>r ops. fh_handle_dma env k xdev xcdev (0, 0) dma = Ret r \<and> rw_ret r = int (unat (dma_len dma))
    \<and> rw_got r = ps \<and> rw_put r = map (\<lambda>p. (p, \<not> write)) ps
    \<and> idle (engine_of (rw_dev r) write chan) \<and> ops_run (engine_of (rw_dev r) write chan) = ops_run e @ ops
    \<and> host_bytes ops = concat (map2 (\<lambda>c p. byte_addrs (bus p + offset c) (unat (nbytes c))) cs ps)
    \<and> (\<not> non_incr_addr e \<longrightarrow> device_bytes ops = byte_addrs (dma_phy_addr dma) (unat (dma_len dma)))"
proof -
  let ?len = "unat (dma_len dma)"
  let ?cb = "\<lparr>io_buf = dma_user_buf dma, io_len = dma_len dma, io_pages_nr = length cs,
      io_sgl = map2 remote_entry cs ps, io_pages = Some (map Some ps)\<rparr>"
  have ok: "cs \<noteq> []" "\<forall>c \<in> set cs. unat (offset c) + unat (nbytes c) \<le> 4096"
    "sum_list (map (\<lambda>c. unat (nbytes c)) cs) = ?len" "?len < 2 ^ 31"
    using assms(3) by (simp_all add: dma_ok_def cs_def)
  have len: "length cs = length ps" by (simp add: cs_def ps_def pages_of_def)
  have l32: "?len < 2 ^ 32" using ok(4) by simp
  have map: "map_remote_pages_to_sgl k (io_cb_init (dma_user_buf dma) (dma_len dma)) dma = Ret (0, ?cb)"
    unfolding cs_def ps_def using assms by (intro map_remote_ok) (auto simp: cs_def ps_def)
  obtain r ops where r: "submit_buffer env k xdev chan write (dma_phy_addr dma) ?cb = Ret r" "rw_ret r = int ?len"
    "rw_got r = ps" "rw_put r = map (\<lambda>p. (p, \<not> write)) ps" "idle (engine_of (rw_dev r) write chan)"
    "ops_run (engine_of (rw_dev r) write chan) = ops_run e @ ops"
    "host_bytes ops = concat (map2 (\<lambda>c p. byte_addrs (bus p + offset c) (unat (nbytes c))) cs ps)"
    "\<not> non_incr_addr e \<longrightarrow> device_bytes ops = byte_addrs (dma_phy_addr dma) ?len"
    using submit_buffer_completes [OF assms(6,15) len ok(1,2,3) l32 assms(16), of ?cb "dma_phy_addr dma"] len assms(7)
    by auto
  have e: "dir e = (if write then DMA_TO_DEVICE else DMA_FROM_DEVICE)" "channel e = chan" "magic e = MAGIC_ENGINE"
    using assms(6,7) by (simp_all add: dma_ready_def Let_def idle_def MAGIC_ENGINE_def)
  have "char_sgdma_read_write_remote env k xdev xcdev dma (dma_len dma) (dma_phy_addr dma) write = Ret r"
    using map r(1) e assms(5,7,8)
    by (simp add: char_sgdma_read_write_remote_def rw_checked_def xcdev_check_def file_ok_def Let_def)
  then have "fh_handle_dma env k xdev xcdev (0, 0) dma = Ret (r\<lparr>rw_ret := int ?len\<rparr>)"
    using assms(4,14) r(2) to_int_nat [OF ok(4)] by (simp add: fh_handle_dma_def)
  then show ?thesis
    using r by (intro exI [of _ "r\<lparr>rw_ret := int ?len\<rparr>"] exI [of _ ops]) simp
qed

subsection \<open>Properties: requests of the manager\<close>

text \<open>A failing page leaks the pages before it. When the buffer of the guest is pinned page by page and some
  page cannot be had, the call returns the error, the device is not touched, and the pages pinned
  before are not released.\<close>

theorem remote_failure_leaks_pages:
  assumes "dma_ok dma" "dma_do_write dma = of_bool write" "file_ok xdev xcdev write chan" "e = engine_of xdev write chan"
    and "magic e = MAGIC_ENGINE" "dir e = (if write then DMA_TO_DEVICE else DMA_FROM_DEVICE)"
    and "check_transfer_align e (dma_user_buf dma) (dma_len dma) (dma_phy_addr dma) True = 0"
    and "get_mm k (scast (dma_pid dma)) = Some mm" "dma_chunks dma = cs @ c # rest"
    and "\<forall>c \<in> set cs. fst (hk_gup_remote k mm (addr c)) = 1" "fst (hk_gup_remote k mm (addr c)) = ret" "ret < 0" "- (2 ^ 31) \<le> ret"
    and "\<And>n. hk_sg_alloc k n" "\<And>n. hk_kcalloc k n" "\<And>n. hk_kmalloc k n"
  shows "fh_handle_dma env k xdev xcdev (0, 0) dma =
    Ret \<lparr>rw_ret = ret, rw_dev = xdev, rw_got = map (\<lambda>c. snd (hk_gup_remote k mm (addr c))) cs, rw_put = []\<rparr>"
proof -
  let ?n = "length (dma_chunks dma)"
  have nr: "?n < 2 ^ 32" "dma_chunks_nr dma = of_nat ?n" using assms(1) by (simp_all add: dma_ok_def)
  then have "unat (dma_chunks_nr dma) = ?n" by (simp add: unat_of_nat)
  then have n: "unat (ucast (dma_chunks_nr dma) :: u32) = ?n"
    using nr(1) ucast_small(2) [of "dma_chunks_nr dma"] by simp
  have ne: "dma_chunks dma \<noteq> []" using assms(9) by simp
  have pin: "pin_remote k (scast (dma_pid dma)) (dma_chunks dma)
      = (Some ret, map (\<lambda>c. snd (hk_gup_remote k mm (addr c))) cs)"
    unfolding assms(9) using assms(8,10-12) by (intro pin_remote_fails) auto
  obtain cb where cb: "map_remote_pages_to_sgl k (io_cb_init (dma_user_buf dma) (dma_len dma)) dma = Ret (ret, cb)"
    "io_pages cb = Some (fill_pages ?n (map (\<lambda>c. snd (hk_gup_remote k mm (addr c))) cs))"
    using ne assms(14,15) by (simp add: map_remote_pages_to_sgl_def n pin Let_def)
  have "to_int ret = ret" using assms(12,13) by (simp add: to_int_def sint_word_of_int)
  then show ?thesis
    using cb(1) pinned_of_fill [OF cb(2)] assms(2-7,12,16)
    by (simp add: fh_handle_dma_def char_sgdma_read_write_remote_def rw_checked_def xcdev_check_def file_ok_def Let_def)
qed


definition demo_kernel :: host_kernel where
  "demo_kernel = \<lparr>hk_current = \<lparr>task_mm = Some 0, task_active_mm = Some 0\<rparr>, hk_current_pid = 1,
     hk_task = (\<lambda>_. Some \<lparr>task_mm = Some 0, task_active_mm = Some 0\<rparr>),
     hk_gup_remote = (\<lambda>_ a. if a < 0x100000 then (1, a) else (- EFAULT, 0)),
     hk_gup_fast = (\<lambda>_ n. (int n, map of_nat [0..<n])), hk_sg_alloc = (\<lambda>_. True), hk_kcalloc = (\<lambda>_. True),
     hk_kmalloc = (\<lambda>_. True), hk_map_sg = map (\<lambda>(p, n, off). (the p + ucast off, n))\<rparr>"

definition demo_cdev :: xdma_cdev where
  "demo_cdev = \<lparr>cd_magic = MAGIC_CHAR, cd_dev_magic = Some MAGIC_DEVICE, cd_engine = Some (True, 0)\<rparr>"

definition demo_dma :: "u64 \<Rightarrow> fh_host_ioctl_dma" where
  "demo_dma a = \<lparr>dma_pid = 42, dma_phy_addr = 0x200, dma_do_write = 1, dma_do_aperture = 0, dma_user_buf = 0x7000,
     dma_len = 4100, dma_chunks_nr = 2,
     dma_chunks = [\<lparr>addr = 0x5000, offset = 0, nbytes = 4096\<rparr>, \<lparr>addr = a, offset = 0, nbytes = 4\<rparr>]\<rparr>"

lemma demo_dma_facts:
  "dma_ok (demo_dma a)" "file_ok demo_dev demo_cdev True 0"
  "check_transfer_align demo_engine (dma_user_buf (demo_dma a)) (dma_len (demo_dma a)) (dma_phy_addr (demo_dma a)) True = 0"
  "get_mm demo_kernel (scast (dma_pid (demo_dma a))) = Some 0" "magic demo_engine = MAGIC_ENGINE"
  by (simp_all add: dma_ok_def demo_dma_def file_ok_def demo_cdev_def check_transfer_align_def demo_engine_def
      addr_lsb_def get_mm_def demo_kernel_def MAGIC_ENGINE_def)

theorem remote_failure_leaks_pages_witness:
  "\<exists>r. fh_handle_dma (demo_env ideal_hw 1) demo_kernel demo_dev demo_cdev (0, 0) (demo_dma 0x900000) = Ret r
    \<and> rw_got r = [0x5000] \<and> rw_put r = [] \<and> rw_ret r = - EFAULT"
  using remote_failure_leaks_pages [OF demo_dma_facts(1) _ demo_dma_facts(2) refl _ _ _ demo_dma_facts(4),
      of "0x900000" "[\<lparr>addr = 0x5000, offset = 0, nbytes = 4096\<rparr>]" "\<lparr>addr = 0x900000, offset = 0, nbytes = 4\<rparr>" "[]"
      "- EFAULT" "demo_env ideal_hw 1"] demo_dma_facts(3,5)
  by (auto simp: demo_kernel_def demo_dma_def)


end
