(* ===== verification/Remote_Map.thy ===== *)
theory Remote_Map
  imports Host_Sgdma Fpga_Comm
begin

text \<open>
  Mapping the device's memory into another process
  (\<open>xdma/linux-kernel/xdma/fvp_escape.c\<close>, \<open>cdev_ctrl.c\<close>): when a guest maps the FPGA, the manager asks the host's driver to
  replace the page of the simulator that backs the guest's frame by a page of a PCI BAR. Shown: the page ends up on the
  requested page of the BAR and no other page changes; a mapping that is granted lies inside the BAR, but only as
  long as the requested offset does, because the remaining size wraps around.
\<close>

subsection \<open>Address spaces\<close>

text \<open>
  An address space of the kernel: what the page walk for an address finds on each level, the leaf entries by page
  number, the areas (by identity, since the code keeps pointers to them) in address order, and the state of its
  lock.
\<close>

record pt_level =
  lv_none :: bool
  lv_bad :: bool
  lv_large :: bool

record vma =
  va_start :: u64
  va_end :: u64
  va_pgoff :: u64
  va_flags :: u64
  va_page_prot :: u64

record mm_struct =
  mm_pgd :: "u64 \<Rightarrow> pt_level"
  mm_p4d :: "u64 \<Rightarrow> pt_level"
  mm_pud :: "u64 \<Rightarrow> pt_level"
  mm_pmd :: "u64 \<Rightarrow> pt_level"
  mm_has_pte :: "u64 \<Rightarrow> bool"
  mm_pte :: "u64 \<Rightarrow> u64"
  mm_vma :: "nat \<Rightarrow> vma option"
  mm_order :: "nat list"
  mm_readers :: nat
  mm_writer :: bool

definition page_of :: "u64 \<Rightarrow> u64" where
  "page_of a = drop_bit PAGE_SHIFT a"

text \<open>
  \<open>find_vma\<close>: the first area that ends above the address. The locks of an address space: taking one that
  is held for good is a deadlock.
\<close>

definition find_vma :: "mm_struct \<Rightarrow> u64 \<Rightarrow> nat option" where
  "find_vma mm a = find (\<lambda>i. case mm_vma mm i of None \<Rightarrow> False | Some v \<Rightarrow> a < va_end v) (mm_order mm)"

definition read_lock_mm :: "mm_struct \<Rightarrow> mm_struct outcome" where
  "read_lock_mm mm = (if mm_writer mm then Ub Deadlock else Ret (mm\<lparr>mm_readers := mm_readers mm + 1\<rparr>))"

definition read_unlock_mm :: "mm_struct \<Rightarrow> mm_struct" where
  "read_unlock_mm mm = mm\<lparr>mm_readers := mm_readers mm - 1\<rparr>"

definition write_lock_mm :: "mm_struct \<Rightarrow> mm_struct outcome" where
  "write_lock_mm mm = (if mm_writer mm \<or> mm_readers mm \<noteq> 0 then Ub Deadlock else Ret (mm\<lparr>mm_writer := True\<rparr>))"

definition write_unlock_mm :: "mm_struct \<Rightarrow> mm_struct" where
  "write_unlock_mm mm = mm\<lparr>mm_writer := False\<rparr>"

text \<open>
  \<open>resolve_vm\<close>: the levels of the walk that were found, and the page of the leaf entry. A level that fails a test
  is reset.
\<close>

record vm_t =
  e_pgd :: bool
  e_p4d :: bool
  e_pud :: bool
  e_pmd :: bool
  e_pte :: "u64 option"

definition vm_empty :: vm_t where
  "vm_empty = \<lparr>e_pgd = False, e_p4d = False, e_pud = False, e_pmd = False, e_pte = None\<rparr>"

definition walk_vm :: "mm_struct \<Rightarrow> u64 \<Rightarrow> int \<times> vm_t" where
  "walk_vm mm vaddr =
    (if lv_none (mm_pgd mm vaddr) \<or> lv_bad (mm_pgd mm vaddr) then (1, vm_empty)
     else if lv_none (mm_p4d mm vaddr) \<or> lv_bad (mm_p4d mm vaddr) then (1, vm_empty\<lparr>e_pgd := True\<rparr>)
     else if lv_none (mm_pud mm vaddr) then (1, vm_empty\<lparr>e_pgd := True, e_p4d := True\<rparr>)
     else if lv_none (mm_pmd mm vaddr) \<or> lv_large (mm_pud mm vaddr)
       then (1, vm_empty\<lparr>e_pgd := True, e_p4d := True, e_pud := True\<rparr>)
     else if \<not> mm_has_pte mm vaddr \<or> lv_large (mm_pmd mm vaddr)
       then (1, vm_empty\<lparr>e_pgd := True, e_p4d := True, e_pud := True, e_pmd := True\<rparr>)
     else (0, \<lparr>e_pgd = True, e_p4d = True, e_pud = True, e_pmd = True, e_pte = Some (page_of vaddr)\<rparr>))"

definition resolve_vm :: "mm_struct \<Rightarrow> u64 \<Rightarrow> bool \<Rightarrow> (int \<times> vm_t \<times> mm_struct) outcome" where
  "resolve_vm mm vaddr lock =
    (if lock then obind (read_lock_mm mm) (\<lambda>mm1. case walk_vm mm1 vaddr of (r, e) \<Rightarrow> Ret (r, e, read_unlock_mm mm1))
     else case walk_vm mm vaddr of (r, e) \<Rightarrow> Ret (r, e, mm))"

subsection \<open>Changing another address space\<close>

text \<open>
  The kernel: tasks (\<open>host_kernel\<close>), the symbols that can be looked up, \<open>do_mprotect_pkey\<close> (which may split and merge
  areas), \<open>remap_pfn_range\<close> on an area, the attribute for uncached pages, and the two ends of a BAR.
\<close>

record map_env =
  mv_kernel :: host_kernel
  mv_symbol :: "string \<Rightarrow> bool"
  mv_mprotect :: "mm_struct \<Rightarrow> u64 \<Rightarrow> u64 \<Rightarrow> u64 \<Rightarrow> int \<times> mm_struct"
  mv_remap :: "mm_struct \<Rightarrow> nat \<Rightarrow> u64 \<Rightarrow> u64 \<Rightarrow> u64 \<Rightarrow> u64 \<Rightarrow> int \<times> mm_struct"
  mv_noncached :: "u64 \<Rightarrow> u64"
  mv_bar :: "nat \<Rightarrow> u64 \<times> u64"

text \<open>The variables of the file, and all address spaces.\<close>

record map_state =
  ensure_lookup_init :: bool
  do_mprotect_pkey :: bool
  mms :: "nat \<Rightarrow> mm_struct"

definition set_mm :: "nat \<Rightarrow> mm_struct \<Rightarrow> map_state \<Rightarrow> map_state" where
  "set_mm i mm s = s\<lparr>mms := (mms s)(i := mm)\<rparr>"

text \<open>\<open>fvp_escape_init\<close>: a second call reports success, also when the first one failed.\<close>

definition fvp_escape_init :: "map_env \<Rightarrow> map_state \<Rightarrow> int \<times> map_state" where
  "fvp_escape_init env s =
    (if ensure_lookup_init s then (0, s)
     else let s1 = s\<lparr>ensure_lookup_init := True\<rparr>
       in if \<not> mv_symbol env ''kallsyms_lookup_name'' then (- ENXIO, s1)
          else if \<not> mv_symbol env ''flush_tlb_mm_range'' then (- ENXIO, s1)
          else if \<not> mv_symbol env ''do_mprotect_pkey'' then (- ENXIO, s1\<lparr>do_mprotect_pkey := False\<rparr>)
          else (0, s1\<lparr>do_mprotect_pkey := True\<rparr>))"

definition call_mprotect :: "map_env \<Rightarrow> nat \<Rightarrow> u64 \<Rightarrow> u64 \<Rightarrow> u64 \<Rightarrow> map_state \<Rightarrow> (int \<times> map_state) outcome" where
  "call_mprotect env i vaddr len prot s =
    (if \<not> do_mprotect_pkey s then Ub NullDeref
     else case mv_mprotect env (mms s i) vaddr len prot of (r, mm) \<Rightarrow> Ret (r, set_mm i mm s))"

definition PROT_RWX :: u64 where "PROT_RWX = 7"

text \<open>
  \<open>protect_pid\<close>: in the own process directly, otherwise through a worker that borrows the other address space and whose
  value is waited for. The value of \<open>fvp_escape_init\<close> is not looked at.
\<close>

definition protect_pid :: "map_env \<Rightarrow> u32 \<Rightarrow> u64 \<Rightarrow> u64 \<Rightarrow> u64 \<Rightarrow> map_state \<Rightarrow> (int \<times> map_state) outcome" where
  "protect_pid env pid vaddr len prot s =
    (let k = mv_kernel env; s1 = snd (fvp_escape_init env s)
     in if pid = hk_current_pid k
        then (case task_mm (hk_current k) of None \<Rightarrow> Ub NullDeref | Some i \<Rightarrow> call_mprotect env i vaddr len prot s1)
        else case get_mm k (scast pid) of
               None \<Rightarrow> Ret (- EFAULT, s1)
             | Some i \<Rightarrow> call_mprotect env i vaddr len prot s1)"

text \<open>\<open>prepare_mmap_remote\<close>: the area it found before the protection was changed is used afterwards.\<close>

definition clear_page :: "nat \<Rightarrow> nat \<Rightarrow> u64 \<Rightarrow> u64 \<Rightarrow> map_state \<Rightarrow> map_state outcome" where
  "clear_page i v p pgoff s =
    (let mm = mms s i; mm1 = mm\<lparr>mm_pte := (mm_pte mm)(p := 0)\<rparr>
     in case mm_vma mm v of
          None \<Rightarrow> Ub UseAfterFree
        | Some a \<Rightarrow> Ret (set_mm i (mm1\<lparr>mm_vma := (mm_vma mm1)(v := Some (a\<lparr>va_pgoff := pgoff\<rparr>))\<rparr>) s))"

definition prepare_mmap_remote ::
  "map_env \<Rightarrow> u32 \<Rightarrow> u64 \<Rightarrow> u64 \<Rightarrow> u64 list \<Rightarrow> map_state \<Rightarrow> (int \<times> (nat \<times> nat) option \<times> map_state) outcome" where
  "prepare_mmap_remote env pid vm_pgoff vaddr_pages_size vaddr_pages s =
    (if vaddr_pages_size \<noteq> 1 then Ret (- EINVAL, None, s)
     else if vaddr_pages = [] then Ub Uninitialised
     else let k = mv_kernel env; vaddr = hd vaddr_pages
       in case (if pid \<noteq> 0 then get_mm k (scast pid) else task_mm (hk_current k)) of
            None \<Rightarrow> (if pid \<noteq> 0 then Ret (- EFAULT, None, s) else Ub NullDeref)
          | Some i \<Rightarrow>
              (case find_vma (mms s i) vaddr of
                 None \<Rightarrow> Ret (- EFAULT, None, s)
               | Some v \<Rightarrow>
                   (case mm_vma (mms s i) v of
                      None \<Rightarrow> Ub UseAfterFree
                    | Some a \<Rightarrow>
                        if vaddr \<ge> va_end a then Ret (- EFAULT, None, s)
                        else obind (resolve_vm (mms s i) vaddr True) (\<lambda>(ret, vm, mm1).
                          let s1 = set_mm i mm1 s
                          in if ret \<noteq> 0 then Ret (- ENXIO, None, s1)
                             else obind (protect_pid env pid vaddr 4096 PROT_RWX s1) (\<lambda>(ret, s2).
                               if ret \<noteq> 0 then Ret (- EFAULT, None, s2)
                               else case e_pte vm of
                                      None \<Rightarrow> Ub NullDeref
                                    | Some p \<Rightarrow> obind (clear_page i v p vm_pgoff s2) (\<lambda>s3. Ret (0, Some (i, v), s3)))))))"

subsection \<open>The control device\<close>

definition VMEM_FLAGS :: u64 where
  "VMEM_FLAGS = 0x4000 OR 0x40000 OR 0x4000000"

abbreviation EAGAIN :: int where "EAGAIN \<equiv> 11"
abbreviation EPROTO :: int where "EPROTO \<equiv> 71"

text \<open>
  \<open>bridge_mmap\<close> for an area of some address space: the pages of a BAR from the area's page offset on. \<open>psize\<close> is what is left of
  the BAR behind the offset, in unsigned arithmetic.
\<close>

definition bridge_mmap ::
  "map_env \<Rightarrow> xdma_dev \<Rightarrow> xdma_cdev \<Rightarrow> nat \<Rightarrow> nat \<Rightarrow> nat \<Rightarrow> map_state \<Rightarrow> (int \<times> map_state) outcome" where
  "bridge_mmap env xdev xcdev bar i v s =
    (if xcdev_check xdev xcdev False < 0 then Ret (xcdev_check xdev xcdev False, s)
     else case mm_vma (mms s i) v of
       None \<Rightarrow> Ub UseAfterFree
     | Some a \<Rightarrow>
         let (start, stop) = mv_bar env bar; off = push_bit PAGE_SHIFT (va_pgoff a); phys = start + off;
             vsize = va_end a - va_start a; psize = stop - start + 1 - off
         in if vsize > psize then Ret (- EINVAL, s)
            else let a1 = a\<lparr>va_page_prot := mv_noncached env (va_page_prot a), va_flags := va_flags a OR VMEM_FLAGS\<rparr>;
                     mm1 = (mms s i)\<lparr>mm_vma := (mm_vma (mms s i))(v := Some a1)\<rparr>
              in case mv_remap env mm1 v (va_start a1) (drop_bit PAGE_SHIFT phys) vsize (va_page_prot a1) of
                   (rv, mm2) \<Rightarrow> Ret (if rv \<noteq> 0 then - EAGAIN else 0, set_mm i mm2 s))"

text \<open>
  \<open>char_mmap_ioctl\<close>; \<open>copied\<close> is what \<open>copy_from_user\<close> could not copy of the addresses, which is returned as it is.
\<close>

definition char_mmap_ioctl ::
  "map_env \<Rightarrow> xdma_dev \<Rightarrow> xdma_cdev \<Rightarrow> nat \<Rightarrow> nat \<Rightarrow> xdma_ioc_faulthook_mmap \<Rightarrow> map_state \<Rightarrow> (int \<times> map_state) outcome" where
  "char_mmap_ioctl env xdev xcdev bar copied ioc s =
    (if ioc_addr_size ioc > 64 then Ret (- EINVAL, s)
     else if copied \<noteq> 0 then Ret (int copied, s)
     else obind (prepare_mmap_remote env (ioc_pid ioc) (ioc_vm_pgoff ioc) (ioc_addr_size ioc) (ioc_addr ioc) s)
       (\<lambda>(ret, area, s1).
         if ret < 0 then Ret (ret, s1)
         else case area of
                None \<Rightarrow> Ub Uninitialised
              | Some (i, v) \<Rightarrow> bridge_mmap env xdev xcdev bar i v s1))"

text \<open>The two mapping commands of \<open>char_ctrl_ioctl\<close>; \<open>char_unmap_ioctl\<close> does nothing.\<close>

definition char_unmap_ioctl :: "xdma_ioc_faulthook_unmmap \<Rightarrow> int" where
  "char_unmap_ioctl ioc = 0"

definition ctrl_ioctl_mmap ::
  "map_env \<Rightarrow> xdma_dev \<Rightarrow> xdma_cdev \<Rightarrow> nat \<Rightarrow> nat \<times> nat \<Rightarrow> xdma_ioc_faulthook_mmap \<Rightarrow> map_state \<Rightarrow> (int \<times> map_state) outcome" where
  "ctrl_ioctl_mmap env xdev xcdev bar copied ioc s =
    (if fst copied \<noteq> 0 then Ret (- EFAULT, s) else char_mmap_ioctl env xdev xcdev bar (snd copied) ioc s)"

definition ctrl_ioctl_unmmap :: "nat \<Rightarrow> xdma_ioc_faulthook_unmmap \<Rightarrow> int" where
  "ctrl_ioctl_unmmap copied ioc = (if copied \<noteq> 0 then - EFAULT else char_unmap_ioctl ioc)"

text \<open>
  Reading and writing a register of a BAR: the value, the new position, and the value read or the address and value
  written. The position is not compared with the size of the BAR.
\<close>

definition char_ctrl_read ::
  "(u64 \<Rightarrow> u32) \<Rightarrow> xdma_dev \<Rightarrow> xdma_cdev \<Rightarrow> u64 \<Rightarrow> u64 \<Rightarrow> int \<times> u64 \<times> u32 option" where
  "char_ctrl_read ioread32 xdev xcdev base pos =
    (if xcdev_check xdev xcdev False < 0 then (xcdev_check xdev xcdev False, pos, None)
     else if pos AND 3 \<noteq> 0 then (- EPROTO, pos, None)
     else (4, pos + 4, Some (ioread32 (base + pos))))"

definition char_ctrl_write ::
  "xdma_dev \<Rightarrow> xdma_cdev \<Rightarrow> u64 \<Rightarrow> u32 \<Rightarrow> u64 \<Rightarrow> int \<times> u64 \<times> (u64 \<times> u32) option" where
  "char_ctrl_write xdev xcdev base w pos =
    (if xcdev_check xdev xcdev False < 0 then (xcdev_check xdev xcdev False, pos, None)
     else if pos AND 3 \<noteq> 0 then (- EPROTO, pos, None)
     else (4, pos + 4, Some (base + pos, w)))"

subsection \<open>Lemmas\<close>

lemma find_vma_covers: "find_vma mm a = Some v \<Longrightarrow> \<exists>x. mm_vma mm v = Some x \<and> a < va_end x"
  by (auto simp: find_vma_def find_Some_iff split: option.splits)

lemma resolve_vm_ok:
  assumes "fst (walk_vm mm a) = 0" "\<not> mm_writer mm"
  shows "\<exists>e. resolve_vm mm a True = Ret (0, e, mm) \<and> e_pte e = Some (page_of a)"
proof -
  have "walk_vm (mm\<lparr>mm_readers := n\<rparr>) a = walk_vm mm a" for n by (simp add: walk_vm_def)
  moreover obtain e where "walk_vm mm a = (0, e)" using assms(1) by (cases "walk_vm mm a") auto
  moreover from this have "e_pte e = Some (page_of a)" by (auto simp: walk_vm_def split: if_splits)
  ultimately show ?thesis using assms(2) by (simp add: resolve_vm_def read_lock_mm_def read_unlock_mm_def)
qed

text \<open>A walk that fails leaves the lock as it was, too.\<close>

lemma resolve_vm_keeps: "resolve_vm mm a l = Ret (r, e, mm') \<Longrightarrow> mm' = mm"
  by (auto simp: resolve_vm_def read_lock_mm_def read_unlock_mm_def split: if_splits prod.splits)

text \<open>What \<open>remap_pfn_range\<close> does: the pages of the range get consecutive frames with the given attributes.\<close>

definition remapped :: "u64 \<Rightarrow> u64 \<Rightarrow> u64 \<Rightarrow> u64 \<Rightarrow> (u64 \<Rightarrow> u64) \<Rightarrow> u64 \<Rightarrow> u64" where
  "remapped a pfn sz prot ptes =
    (\<lambda>p. if p - page_of a < drop_bit PAGE_SHIFT sz then push_bit PAGE_SHIFT (pfn + (p - page_of a)) OR prot else ptes p)"

definition remap_ok :: "'a map_env_scheme \<Rightarrow> bool" where
  "remap_ok env \<longleftrightarrow> (\<forall>mm v a pfn sz prot.
     mv_remap env mm v a pfn sz prot = (0, mm\<lparr>mm_pte := remapped a pfn sz prot (mm_pte mm)\<rparr>))"

lemma remapped_page: "remapped a pfn 4096 prot ptes = ptes(page_of a := push_bit PAGE_SHIFT pfn OR prot)"
proof
  fix p
  have "(drop_bit PAGE_SHIFT 4096 :: u64) = 1" by simp
  moreover have "(p - page_of a < 1) = (p = page_of a)" by (simp add: word_less_nat_alt unat_eq_0)
  ultimately show "remapped a pfn 4096 prot ptes p = (ptes(page_of a := push_bit PAGE_SHIFT pfn OR prot)) p"
    by (auto simp: remapped_def)
qed

lemma bridge_mmap_done:
  assumes "xcdev_check xdev xcdev False = 0" "mm_vma (mms s i) v = Some a" "mv_bar env bar = (start, stop)" "remap_ok env"
    and "off = push_bit PAGE_SHIFT (va_pgoff a)" "vsize = va_end a - va_start a" "vsize \<le> stop - start + 1 - off"
  shows "\<exists>mm. bridge_mmap env xdev xcdev bar i v s = Ret (0, set_mm i mm s)
    \<and> mm_pte mm = remapped (va_start a) (drop_bit PAGE_SHIFT (start + off)) vsize (mv_noncached env (va_page_prot a)) (mm_pte (mms s i))
    \<and> mm_readers mm = mm_readers (mms s i) \<and> mm_writer mm = mm_writer (mms s i)"
  using assms by (simp add: bridge_mmap_def Let_def remap_ok_def not_less) (rule exI, rule conjI, rule refl, simp)

lemma bar_size:
  assumes "start \<le> stop" "unat stop - unat start + 1 < 2 ^ 64"
  shows "unat (stop - start + 1 :: u64) = unat stop - unat start + 1"
  using assms unat_sub [OF assms(1)] by (simp add: unat_word_ariths)

lemma unat_page_of: "unat (drop_bit PAGE_SHIFT (w :: u64)) = unat w div 4096"
proof -
  have "take_bit 64 (unat w) = unat w" using unsigned_less [of w, where ?'a = nat] by (simp add: take_bit_nat_eq_self)
  then show ?thesis unfolding unsigned_drop_bit_eq by (simp add: drop_bit_eq_div)
qed

text \<open>The page frame of an offset into an aligned BAR.\<close>

lemma bar_frame:
  assumes "unat start mod 4096 = 0" "unat start + unat pgoff * 4096 < 2 ^ 64"
  shows "drop_bit PAGE_SHIFT (start + push_bit PAGE_SHIFT pgoff) = page_of start + pgoff"
proof -
  have off: "unat (push_bit PAGE_SHIFT pgoff :: u64) = unat pgoff * 4096"
    using assms(2) by (simp add: push_bit_eq_mult unat_word_ariths)
  then have "unat (start + push_bit PAGE_SHIFT pgoff) = unat start + unat pgoff * 4096"
    using assms(2) by (simp add: unat_word_ariths)
  then have l: "unat (drop_bit PAGE_SHIFT (start + push_bit PAGE_SHIFT pgoff)) = unat start div 4096 + unat pgoff"
    unfolding unat_page_of by simp
  have "unat start div 4096 + unat pgoff < 2 ^ 64" using assms(2) by linarith
  then have "unat (page_of start + pgoff) = unat start div 4096 + unat pgoff"
    by (simp add: page_of_def unat_word_ariths unat_page_of)
  with l show ?thesis by (simp add: word_unat_eq_iff)
qed

subsection \<open>Properties: the BAR in another process\<close>

text \<open>
  The driver is ready to serve a request for the page at \<open>a\<close> of the address space \<open>i\<close>: the page lies in the area \<open>v\<close>
  and has a leaf entry, nobody writes to the address space, and the change of protection leaves \<open>v\<close> as the area of
  just that page and keeps the page table.
\<close>

definition can_remap :: "map_env \<Rightarrow> map_state \<Rightarrow> nat \<Rightarrow> u64 \<Rightarrow> vma \<Rightarrow> bool" where
  "can_remap env s i a x \<longleftrightarrow> (let mm = mms s i; (r, mm') = mv_mprotect env mm a 4096 PROT_RWX in
     ensure_lookup_init s \<and> do_mprotect_pkey s \<and> \<not> mm_writer mm \<and> fst (walk_vm mm a) = 0 \<and> r = 0
     \<and> (\<exists>v. find_vma mm a = Some v \<and> mm_vma mm' v = Some x) \<and> va_start x = a \<and> va_end x = a + 4096
     \<and> mm_pte mm' = mm_pte mm \<and> mm_readers mm' = mm_readers mm \<and> mm_writer mm' = mm_writer mm)"

lemma prepare_mmap_done:
  assumes "pid \<noteq> 0" "pid \<noteq> hk_current_pid (mv_kernel env)" "get_mm (mv_kernel env) (scast pid) = Some i"
    and "can_remap env s i a x"
  shows "\<exists>v mm. prepare_mmap_remote env pid pgoff 1 [a] s = Ret (0, Some (i, v), set_mm i mm s)
    \<and> mm_vma mm v = Some (x\<lparr>va_pgoff := pgoff\<rparr>) \<and> mm_pte mm = (mm_pte (mms s i))(page_of a := 0)
    \<and> mm_readers mm = mm_readers (mms s i) \<and> mm_writer mm = mm_writer (mms s i)"
proof -
  obtain v r mm' where c: "mv_mprotect env (mms s i) a 4096 PROT_RWX = (r, mm')" "ensure_lookup_init s" "do_mprotect_pkey s"
    "\<not> mm_writer (mms s i)" "fst (walk_vm (mms s i) a) = 0" "r = 0" "find_vma (mms s i) a = Some v" "mm_vma mm' v = Some x"
    "mm_pte mm' = mm_pte (mms s i)" "mm_readers mm' = mm_readers (mms s i)" "mm_writer mm' = mm_writer (mms s i)"
    using assms(4) by (auto simp: can_remap_def Let_def split: prod.splits)
  obtain y where y: "mm_vma (mms s i) v = Some y" "\<not> va_end y \<le> a" using find_vma_covers [OF c(7)] by (auto simp: not_le)
  obtain e where e: "resolve_vm (mms s i) a True = Ret (0, e, mms s i)" "e_pte e = Some (page_of a)"
    using resolve_vm_ok [OF c(5,4)] by blast
  have id: "set_mm i (mms s i) s = s" by (simp add: set_mm_def)
  have "protect_pid env pid a 4096 PROT_RWX s = Ret (0, set_mm i mm' s)"
    using assms(2,3) c by (simp add: protect_pid_def fvp_escape_init_def call_mprotect_def)
  then show ?thesis
    using assms(1,3) y e c(7-11) id
    by (simp add: prepare_mmap_remote_def clear_page_def Let_def) (simp add: set_mm_def, rule exI, rule conjI, rule refl, simp)
qed

text \<open>A page of the device in another process. For a request of the manager for one page that the driver can
  serve and an offset inside the BAR, the ioctl returns 0; afterwards that page of the other process is the requested page of
  the BAR, uncached, no other page of it and no other process has changed, and the locks are as
  before.\<close>

lemma remote_mmap_maps_bar:
  assumes "xcdev_check xdev xcdev False = 0" "ioc_pid ioc \<noteq> 0" "ioc_pid ioc \<noteq> hk_current_pid (mv_kernel env)"
    and "get_mm (mv_kernel env) (scast (ioc_pid ioc)) = Some i" "ioc_addr_size ioc = 1" "ioc_addr ioc = [a]"
    and "can_remap env s i a x" "remap_ok env" "mv_bar env bar = (start, stop)" "unat start mod 4096 = 0"
    and "start \<le> stop" "unat (ioc_vm_pgoff ioc) * 4096 + 4096 \<le> unat stop - unat start + 1" "unat stop - unat start + 1 < 2 ^ 64"
  shows "\<exists>s'. ctrl_ioctl_mmap env xdev xcdev bar (0, 0) ioc s = Ret (0, s')
    \<and> mm_pte (mms s' i) = (mm_pte (mms s i))(page_of a :=
        push_bit PAGE_SHIFT (page_of start + ioc_vm_pgoff ioc) OR mv_noncached env (va_page_prot x))
    \<and> (\<forall>j. j \<noteq> i \<longrightarrow> mms s' j = mms s j)
    \<and> mm_readers (mms s' i) = mm_readers (mms s i) \<and> mm_writer (mms s' i) = mm_writer (mms s i)"
proof -
  let ?g = "ioc_vm_pgoff ioc"
  obtain v mm where p: "prepare_mmap_remote env (ioc_pid ioc) ?g 1 [a] s = Ret (0, Some (i, v), set_mm i mm s)"
    "mm_vma mm v = Some (x\<lparr>va_pgoff := ?g\<rparr>)" "mm_pte mm = (mm_pte (mms s i))(page_of a := 0)"
    "mm_readers mm = mm_readers (mms s i)" "mm_writer mm = mm_writer (mms s i)"
    using prepare_mmap_done [OF assms(2-4,7)] by blast
  have x: "va_start x = a" "va_end x = a + 4096" using assms(7) by (auto simp: can_remap_def Let_def split: prod.splits)
  have stop: "unat stop < 2 ^ 64" using unsigned_less [of stop, where ?'a = nat] by simp
  have le: "unat start \<le> unat stop" using assms(11) by (simp add: word_le_nat_alt)
  have fr: "drop_bit PAGE_SHIFT (start + push_bit PAGE_SHIFT ?g) = page_of start + ?g"
    using assms(10,12) stop le by (intro bar_frame) linarith+
  have off: "unat (push_bit PAGE_SHIFT ?g :: u64) = unat ?g * 4096"
    using assms(12,13) by (simp add: push_bit_eq_mult unat_word_ariths)
  have "push_bit PAGE_SHIFT ?g \<le> stop - start + 1"
    unfolding word_le_nat_alt off bar_size [OF assms(11,13)] using assms(12) by linarith
  from unat_sub [OF this] have "(4096 :: u64) \<le> stop - start + 1 - push_bit PAGE_SHIFT ?g"
    unfolding word_le_nat_alt off bar_size [OF assms(11,13)] using assms(12) by simp
  then obtain mm2 where "bridge_mmap env xdev xcdev bar i v (set_mm i mm s) = Ret (0, set_mm i mm2 (set_mm i mm s))"
    "mm_pte mm2 = (mm_pte (mms s i))(page_of a := push_bit PAGE_SHIFT (page_of start + ?g) OR mv_noncached env (va_page_prot x))"
    "mm_readers mm2 = mm_readers (mms s i)" "mm_writer mm2 = mm_writer (mms s i)"
    using bridge_mmap_done [OF assms(1) _ assms(9,8) refl refl, of "set_mm i mm s" i v "x\<lparr>va_pgoff := ?g\<rparr>"] p x fr
    by (auto simp: set_mm_def remapped_page)
  then show ?thesis
    using p(1) assms(5,6) by (simp add: ctrl_ioctl_mmap_def char_mmap_ioctl_def) (simp add: set_mm_def)
qed

text \<open>C23: What \<open>mmap\<close> of the BAR grants. For an area whose page offset lies in the BAR the call succeeds exactly when the
  area ends inside the BAR; but for an offset behind the end of the BAR the size that is left wraps around, so that
  the area is mapped to the physical pages behind the BAR unless it is nearly as large as the address
  space.\<close>

theorem bridge_mmap_bounds:
  assumes "xcdev_check xdev xcdev False = 0" "mm_vma (mms s i) v = Some a" "mv_bar env bar = (start, stop)" "remap_ok env"
    and "start \<le> stop" "len = unat stop - unat start + 1" "len < 2 ^ 64"
    and "off = unat (push_bit PAGE_SHIFT (va_pgoff a) :: u64)" "vsize = unat (va_end a - va_start a)"
  shows "\<exists>r s'. bridge_mmap env xdev xcdev bar i v s = Ret (r, s')
    \<and> r = (if (if off \<le> len then off + vsize \<le> len else off + vsize \<le> 2 ^ 64 + len) then 0 else - EINVAL)
    \<and> (r = 0 \<longrightarrow> mm_pte (mms s' i) = remapped (va_start a) (page_of (start + push_bit PAGE_SHIFT (va_pgoff a)))
          (va_end a - va_start a) (mv_noncached env (va_page_prot a)) (mm_pte (mms s i)))
    \<and> (r \<noteq> 0 \<longrightarrow> s' = s)"
proof -
  let ?off = "push_bit PAGE_SHIFT (va_pgoff a) :: u64" and ?vs = "va_end a - va_start a"
  let ?ps = "stop - start + 1 - ?off"
  have len: "unat (stop - start + 1) = len" using bar_size [OF assms(5)] assms(6,7) by simp
  have "unat ?ps = (if off \<le> len then len - off else 2 ^ 64 + len - off)"
  proof (cases "off \<le> len")
    case True
    then show ?thesis using unat_sub [of ?off "stop - start + 1"] len assms(8) by (simp add: word_le_nat_alt)
  next
    case False
    then show ?thesis using unat_sub_if' [of "stop - start + 1" ?off] len assms(8) by (simp add: word_le_nat_alt)
  qed
  moreover have "off < 2 ^ 64" using assms(8) unsigned_less [of ?off, where ?'a = nat] by simp
  ultimately have iff: "?vs \<le> ?ps \<longleftrightarrow> (if off \<le> len then off + vsize \<le> len else off + vsize \<le> 2 ^ 64 + len)"
    unfolding word_le_nat_alt using assms(9) by auto
  show ?thesis
  proof (cases "?vs \<le> ?ps")
    case True
    from bridge_mmap_done [OF assms(1-4) refl refl True] show ?thesis
      using True unfolding iff by (auto simp: set_mm_def page_of_def)
  next
    case False
    then show ?thesis using iff assms(1-3) by (auto simp: bridge_mmap_def Let_def not_le)
  qed
qed

text \<open>The host's driver behind the manager's system call: the value of the ioctl.\<close>

definition mmap_ioctl ::
  "map_env \<Rightarrow> xdma_dev \<Rightarrow> xdma_cdev \<Rightarrow> nat \<Rightarrow> map_state \<Rightarrow> xdma_ioc_faulthook_mmap \<Rightarrow> int \<times> int" where
  "mmap_ioctl env xdev xcdev bar t ioc =
    (case ctrl_ioctl_mmap env xdev xcdev bar (0, 0) ioc t of Ret (r, _) \<Rightarrow> (r, 0) | Ub _ \<Rightarrow> (- 1, 0))"


subsection \<open>Witnesses\<close>

text \<open>A simulator with one page in an area of its own, and a BAR of 64 KiB.\<close>

definition demo_vma :: vma where
  "demo_vma = \<lparr>va_start = 0x10000, va_end = 0x11000, va_pgoff = 0x100, va_flags = 0, va_page_prot = 0x27\<rparr>"

definition demo_level :: pt_level where
  "demo_level = \<lparr>lv_none = False, lv_bad = False, lv_large = False\<rparr>"

definition demo_mm :: mm_struct where
  "demo_mm = \<lparr>mm_pgd = (\<lambda>_. demo_level), mm_p4d = (\<lambda>_. demo_level), mm_pud = (\<lambda>_. demo_level), mm_pmd = (\<lambda>_. demo_level),
     mm_has_pte = (\<lambda>_. True), mm_pte = (\<lambda>p. push_bit 12 p OR 0x67), mm_vma = [0 \<mapsto> demo_vma], mm_order = [0],
     mm_readers = 0, mm_writer = False\<rparr>"

definition demo_maps :: map_state where
  "demo_maps = \<lparr>ensure_lookup_init = True, do_mprotect_pkey = True, mms = (\<lambda>_. demo_mm)\<rparr>"

definition demo_menv :: map_env where
  "demo_menv = \<lparr>mv_kernel = demo_kernel, mv_symbol = (\<lambda>_. True), mv_mprotect = (\<lambda>mm _ _ _. (0, mm)),
     mv_remap = (\<lambda>mm v a pfn sz prot. (0, mm\<lparr>mm_pte := remapped a pfn sz prot (mm_pte mm)\<rparr>)),
     mv_noncached = (\<lambda>p. p OR 0x10), mv_bar = (\<lambda>_. (0x80000000, 0x8000FFFF))\<rparr>"

definition demo_map_page :: mem where
  "demo_map_page = st 8 (st 8 (st 8 (demo_page FH_ACTION_MMAP) D_mmap_pfn_size 1) D_mmap_pfn 5) D_mmap_vm_pgoff 2"

definition map_os :: host_os where
  "map_os = \<lparr>sys_malloc = (\<lambda>_. Some (\<lambda>_. 0)),
     sys_call = (\<lambda>_ c. case c of IocMmap _ ioc \<Rightarrow> mmap_ioctl demo_menv demo_dev demo_cdev 0 demo_maps ioc | _ \<Rightarrow> (0, 0))\<rparr>"

lemma map_os_sel:
  "sys_malloc map_os n \<noteq> None"
  "sys_call map_os log (IocMmap fd ioc) = mmap_ioctl demo_menv demo_dev demo_cdev 0 demo_maps ioc"
  by (simp_all add: map_os_def)

lemma demo_bar: "mv_bar demo_menv 0 = (0x80000000, 0x8000FFFF)"
  by (simp add: demo_menv_def)

lemma demo_map_facts:
  "ld 8 demo_map_page F_turn = turn_code FH_TURN_HOST" "ld 8 demo_map_page F_action = action_code FH_ACTION_MMAP"
  "ld 8 demo_map_page D_mmap_pfn_size = 1" "ld 8 demo_map_page D_mmap_pfn = 5" "ld 8 demo_map_page D_mmap_vm_pgoff = 2"
  "can_remap demo_menv demo_maps 0 0x10000 demo_vma" "remap_ok demo_menv" "xcdev_check demo_dev demo_cdev False = 0"
  by (simp_all add: demo_map_page_def demo_page_def mem_simps can_remap_def demo_menv_def demo_maps_def demo_mm_def
      demo_level_def demo_vma_def walk_vm_def find_vma_def remap_ok_def xcdev_check_def demo_cdev_def)


theorem bridge_mmap_bounds_witness:
  "\<exists>s'. bridge_mmap demo_menv demo_dev demo_cdev 0 0 0 demo_maps = Ret (0, s') \<and> mm_pte (mms s' 0) 0x10 = 0x80100037"
proof -
  have v: "mm_vma (mms demo_maps 0) 0 = Some demo_vma"
    by (simp add: demo_maps_def demo_mm_def)
  have f: "va_end demo_vma = 0x11000" "(push_bit PAGE_SHIFT (va_pgoff demo_vma) :: u64) = 0x100000"
    "va_start demo_vma = 0x10000" "mv_noncached demo_menv (va_page_prot demo_vma) = 0x37"
    by (simp_all add: demo_vma_def demo_menv_def)
  have "remapped 0x10000 (page_of 0x80100000) 0x1000 0x37 (mm_pte (mms demo_maps 0)) 0x10 = 0x80100037"
    by (simp add: remapped_def page_of_def)
  then show ?thesis
    using bridge_mmap_bounds [OF demo_map_facts(8) v demo_bar demo_map_facts(7) _ refl _ refl refl] unfolding f by auto
qed

end
