(* ===== verification/Fh_Fixup.thy ===== *)
theory Fh_Fixup
  imports Remote_Map
begin

text \<open>
  The kernel module of the GPU variant (\<open>gpu_driver/fh_fixup/mod/fh_fixup_mod.c\<close>) and its library (\<open>fh_fixup.c\<close>): pages of the
  calling process are put in the place of given pages of another process. Shown: a request that can be served makes
  every target page translate to the frame of its source page, keeps all other pages and the locks, and
  records the old entries; the mapping is not taken back by the second ioctl; and a target address without an area
  leaves the lock of the other address space taken, so that the next writer waits for ever. The walk and the
  locks are those of \<open>Remote_Map\<close>, whose code the module repeats; printing and the flushing of caches are left out.
\<close>

subsection \<open>State\<close>

text \<open>
  The request of the user (\<open>fh_fixup_map_t\<close>), an entry of the record that is kept for it, and the state of the module: the
  address spaces and their reference counts, the records by address, and the number of blocks allocated.
\<close>

record fh_fixup_map_t =
  fm_src_base_addr :: u64
  fm_pages_num :: u64
  fm_target_pid :: u32
  fm_target_pages :: u64
  fm_handle :: u64

record vm_target_entry =
  te_pte_val :: u64
  te_addr :: u64
  te_pid :: u32

record fixup_state =
  device_busy :: bool
  fx_mms :: "nat \<Rightarrow> mm_struct"
  fx_users :: "nat \<Rightarrow> nat"
  fx_entries :: "u64 \<Rightarrow> vm_target_entry list option"
  fx_blocks :: nat

text \<open>The kernel: the services of \<open>map_env\<close>, and \<open>kmalloc\<close>, which gives 0 or the address of the \<open>n\<close>-th block.\<close>

record fixup_env = map_env +
  fx_kmalloc :: "nat \<Rightarrow> u64 \<Rightarrow> u64"

definition upd_mm :: "nat \<Rightarrow> mm_struct \<Rightarrow> fixup_state \<Rightarrow> fixup_state" where
  "upd_mm i mm s = s\<lparr>fx_mms := (fx_mms s)(i := mm)\<rparr>"

definition fops_open :: "fixup_state \<Rightarrow> int \<times> fixup_state" where
  "fops_open s = (0, s\<lparr>device_busy := True\<rparr>)"

definition fops_release :: "fixup_state \<Rightarrow> int \<times> fixup_state" where
  "fops_release s = (0, s\<lparr>device_busy := False\<rparr>)"

subsection \<open>The other process\<close>

definition fixup_get_mm :: "host_kernel \<Rightarrow> u64 \<Rightarrow> nat option" where
  "fixup_get_mm k pid =
    (case (if pid \<noteq> scast (hk_current_pid k) then hk_task k pid else Some (hk_current k)) of
       None \<Rightarrow> None
     | Some t \<Rightarrow> (if task_mm t \<noteq> None then task_mm t else task_active_mm t))"

text \<open>\<open>mmput\<close> drops a reference; the last one destroys the address space.\<close>

definition mmput :: "nat \<Rightarrow> fixup_state \<Rightarrow> fixup_state outcome" where
  "mmput i s = (if fx_users s i \<le> 1 then Ub UseAfterFree else Ret (s\<lparr>fx_users := (fx_users s)(i := fx_users s i - 1)\<rparr>))"

text \<open>\<open>protect_pid\<close>: for another process it drops a reference that \<open>get_mm\<close> did not take.\<close>

definition fixup_protect_pid :: "fixup_env \<Rightarrow> u32 \<Rightarrow> u64 \<Rightarrow> u64 \<Rightarrow> u64 \<Rightarrow> fixup_state \<Rightarrow> (int \<times> fixup_state) outcome" where
  "fixup_protect_pid env pid vaddr len prot s =
    (let k = mv_kernel env
     in if pid = hk_current_pid k
        then (case task_mm (hk_current k) of
                None \<Rightarrow> Ub NullDeref
              | Some i \<Rightarrow> (case mv_mprotect env (fx_mms s i) vaddr len prot of (r, mm) \<Rightarrow> Ret (r, upd_mm i mm s)))
        else case fixup_get_mm k (scast pid) of
               None \<Rightarrow> Ret (- EFAULT, s)
             | Some i \<Rightarrow> (case mv_mprotect env (fx_mms s i) vaddr len prot of
                            (r, mm) \<Rightarrow> obind (mmput i (upd_mm i mm s)) (\<lambda>s1. Ret (r, s1))))"

fun pages_continuous :: "u64 list \<Rightarrow> bool" where
  "pages_continuous (a # b # as) = (a + 4096 = b \<and> pages_continuous (b # as))"
| "pages_continuous _ = True"

subsection \<open>Mapping\<close>

text \<open>
  The block that looks up the area of a target address: on failure the function returns from inside it, with the lock
  taken.
\<close>

definition in_vma :: "mm_struct \<Rightarrow> u64 \<Rightarrow> nat option" where
  "in_vma mm a =
    (case find_vma mm a of
       None \<Rightarrow> None
     | Some v \<Rightarrow> (case mm_vma mm v of
                    None \<Rightarrow> None
                  | Some x \<Rightarrow> if a \<ge> va_end x \<or> a < va_start x then None else Some v))"

definition target_area :: "nat \<Rightarrow> u64 \<Rightarrow> fixup_state \<Rightarrow> (nat option \<times> fixup_state) outcome" where
  "target_area t a s =
    obind (read_lock_mm (fx_mms s t)) (\<lambda>mm.
      case in_vma mm a of
        None \<Rightarrow> Ret (None, upd_mm t mm s)
      | Some v \<Rightarrow> Ret (Some v, upd_mm t (read_unlock_mm mm) s))"

definition VM_SHARED_MAYWRITE :: u64 where
  "VM_SHARED_MAYWRITE = 0x8 OR 0x20"

text \<open>
  Replacing one page: the old entry is recorded and cleared, the area takes over flags and protection of the source's area, and
  the page is mapped to the frame of the source's page.
\<close>

definition replace_page ::
  "fixup_env \<Rightarrow> nat \<Rightarrow> nat \<Rightarrow> nat \<Rightarrow> nat \<Rightarrow> u32 \<Rightarrow> u64 \<Rightarrow> u64 \<Rightarrow> u64 \<Rightarrow> fixup_state \<Rightarrow> (int \<times> vm_target_entry \<times> fixup_state) outcome" where
  "replace_page env src sv t v pid vaddr pt ps s =
    (let old = mm_pte (fx_mms s t) pt;
         s1 = upd_mm t ((fx_mms s t)\<lparr>mm_pte := (mm_pte (fx_mms s t))(pt := 0)\<rparr>) s
     in case (mm_vma (fx_mms s1 src) sv, mm_vma (fx_mms s1 t) v) of
          (Some x, Some y) \<Rightarrow>
            let y1 = y\<lparr>va_flags := va_flags x OR VM_SHARED_MAYWRITE, va_page_prot := va_page_prot x\<rparr>;
                mm1 = (fx_mms s1 t)\<lparr>mm_vma := (mm_vma (fx_mms s1 t))(v := Some y1)\<rparr>;
                s2 = upd_mm t mm1 s1
            in (case mv_remap env mm1 v vaddr (drop_bit PAGE_SHIFT (mm_pte (fx_mms s2 src) ps)) 4096 (va_page_prot y1) of
                  (ret, mm2) \<Rightarrow> Ret (ret, \<lparr>te_pte_val = old, te_addr = vaddr, te_pid = pid\<rparr>, upd_mm t mm2 s2))
        | _ \<Rightarrow> Ub UseAfterFree)"

text \<open>
  One round of the loop, for the target address \<open>vaddr\<close> and the source address \<open>saddr\<close>: an error to return, or the entry; \<open>protect\<close>
  tells whether the protection is changed in this round.
\<close>

definition map_round ::
  "fixup_env \<Rightarrow> nat \<Rightarrow> nat \<Rightarrow> nat \<Rightarrow> u32 \<Rightarrow> u64 \<Rightarrow> bool \<Rightarrow> u64 \<Rightarrow> u64 \<Rightarrow> fixup_state
    \<Rightarrow> ((int + int \<times> vm_target_entry) \<times> fixup_state) outcome" where
  "map_round env src sv t pid tsize protect vaddr saddr s =
    obind (target_area t vaddr s) (\<lambda>(area, s1).
      if area = None then Ret (Inl (- EFAULT), s1)
      else obind (if protect then fixup_protect_pid env pid vaddr tsize PROT_RWX s1 else Ret (0, s1)) (\<lambda>(ret, s2).
      if ret \<noteq> 0 then Ret (Inl (- EFAULT), s2)
      else obind (target_area t vaddr s2) (\<lambda>(area, s3).
      case area of
        None \<Rightarrow> Ret (Inl (- EFAULT), s3)
      | Some v \<Rightarrow>
          obind (resolve_vm (fx_mms s3 t) vaddr True) (\<lambda>(ret, vm_target, mm).
          let s4 = upd_mm t mm s3
          in if ret \<noteq> 0 then Ret (Inl (- ENXIO), s4)
          else obind (resolve_vm (fx_mms s4 src) saddr True) (\<lambda>(ret, vm_source, mm).
          let s5 = upd_mm src mm s4
          in if ret \<noteq> 0 then Ret (Inl (- ENXIO), s5)
          else case (e_pte vm_target, e_pte vm_source) of
                 (Some pt, Some ps) \<Rightarrow>
                   obind (replace_page env src sv t v pid vaddr pt ps s5) (\<lambda>(ret, entry, s6).
                     Ret (if ret < 0 then Inl ret else Inr (ret, entry), s6))
               | _ \<Rightarrow> Ub NullDeref)))))"

fun map_loop ::
  "fixup_env \<Rightarrow> nat \<Rightarrow> nat \<Rightarrow> nat \<Rightarrow> u32 \<Rightarrow> u64 \<Rightarrow> bool \<Rightarrow> bool \<Rightarrow> int \<Rightarrow> u64 list \<Rightarrow> u64 \<Rightarrow> fixup_state
    \<Rightarrow> ((int + int \<times> vm_target_entry list) \<times> fixup_state) outcome" where
  "map_loop env src sv t pid tsize contiguous began ret [] saddr s = Ret (Inr (ret, []), s)"
| "map_loop env src sv t pid tsize contiguous began ret (a # as) saddr s =
    obind (map_round env src sv t pid tsize (\<not> contiguous \<or> \<not> began) a saddr s) (\<lambda>(r, s1).
      case r of
        Inl err \<Rightarrow> Ret (Inl err, s1)
      | Inr (ret1, e) \<Rightarrow> obind (map_loop env src sv t pid tsize contiguous True ret1 as (saddr + 4096) s1) (\<lambda>(q, s2).
          Ret (case q of Inl err \<Rightarrow> Inl err | Inr (ret2, es) \<Rightarrow> Inr (ret2, e # es), s2)))"

definition kmalloc :: "fixup_env \<Rightarrow> u64 \<Rightarrow> fixup_state \<Rightarrow> u64 \<times> fixup_state" where
  "kmalloc env n s =
    (let p = fx_kmalloc env (fx_blocks s) n in (p, if p = 0 then s else s\<lparr>fx_blocks := fx_blocks s + 1\<rparr>))"

text \<open>
  \<open>fops_ioctl_do_map\<close>. \<open>copied\<close> says which of the three copies between user and kernel work, \<open>targets\<close> is the user's array of target
  addresses. The blocks of the call are never freed; the last one stays as the record of the mapping.
\<close>

definition fops_ioctl_do_map ::
  "fixup_env \<Rightarrow> bool \<times> bool \<times> bool \<Rightarrow> fh_fixup_map_t \<Rightarrow> u64 list \<Rightarrow> fixup_state
    \<Rightarrow> (int \<times> fh_fixup_map_t \<times> fixup_state) outcome" where
  "fops_ioctl_do_map env copied req targets s =
    (let (pages, s0) = kmalloc env 8 s; num = fm_pages_num req
     in if pages = 0 then Ret (- ENOMEM, req, s0)
     else if \<not> fst copied then Ret (- EFAULT, req, s0)
     else if fm_target_pages req = 0 \<or> num = 0 \<or> fm_src_base_addr req = 0 then Ret (- EINVAL, req, s0)
     else let (buf, s1) = kmalloc env (num * 8) s0
     in if buf = 0 then Ret (- ENOMEM, req, s1)
     else if \<not> fst (snd copied) then Ret (- EFAULT, req, s1)
     else if length targets \<noteq> unat num then Ub OutOfBounds
     else let (entries, s2) = kmalloc env (24 * num) s1; k = mv_kernel env; pid = fm_target_pid req
     in if entries = 0 then Ret (- ENOMEM, req, s2)
     else case task_mm (hk_current k) of
       None \<Rightarrow> Ub NullDeref
     | Some src \<Rightarrow>
         (case (if pid \<noteq> hk_current_pid k then fixup_get_mm k (scast pid) else Some src) of
            None \<Rightarrow> Ret (- EFAULT, req, s2)
          | Some t \<Rightarrow>
              obind (read_lock_mm (fx_mms s2 src)) (\<lambda>mm.
                case find_vma mm (fm_src_base_addr req) of
                  None \<Rightarrow> Ret (- EFAULT, req, upd_mm src mm s2)
                | Some sv \<Rightarrow>
                    obind (map_loop env src sv t pid (num * 4096) (pages_continuous targets) False 0 targets
                             (fm_src_base_addr req) (upd_mm src (read_unlock_mm mm) s2)) (\<lambda>(r, s3).
                      case r of
                        Inl err \<Rightarrow> Ret (err, req, s3)
                      | Inr (ret, es) \<Rightarrow>
                          let s4 = s3\<lparr>fx_entries := (fx_entries s3)(entries \<mapsto> es)\<rparr>
                          in if \<not> snd (snd copied) then Ret (- EFAULT, req, s4)
                             else Ret (ret, req\<lparr>fm_handle := entries\<rparr>, s4)))))"

subsection \<open>The other ioctl\<close>

text \<open>
  \<open>FH_FIXUP_IOCTL_UNMAP\<close>: the line that would restore an entry is a comment; what remains looks up every entry, and reads it for a
  message.
\<close>

primrec unmap_loop :: "nat \<Rightarrow> vm_target_entry list \<Rightarrow> fixup_state \<Rightarrow> (int \<times> fixup_state) outcome" where
  "unmap_loop t [] s = Ret (0, s)"
| "unmap_loop t (e # es) s =
    obind (write_lock_mm (fx_mms s t)) (\<lambda>mm.
    obind (resolve_vm mm (te_addr e) False) (\<lambda>(ret, vm, mm1).
      if e_pte vm = None then Ub NullDeref
      else unmap_loop t es (upd_mm t (write_unlock_mm mm1) s)))"

definition fops_ioctl_unmap :: "fixup_env \<Rightarrow> bool \<Rightarrow> fh_fixup_map_t \<Rightarrow> fixup_state \<Rightarrow> (int \<times> fixup_state) outcome" where
  "fops_ioctl_unmap env copied req s =
    (let k = mv_kernel env; pid = fm_target_pid req
     in if \<not> copied then Ret (- EFAULT, s)
     else if fm_handle req = 0 then Ret (- EINVAL, s)
     else case (if pid \<noteq> hk_current_pid k then fixup_get_mm k (scast pid) else task_mm (hk_current k)) of
       None \<Rightarrow> (if pid \<noteq> hk_current_pid k then Ret (- EFAULT, s) else Ub NullDeref)
     | Some t \<Rightarrow>
         (case fx_entries s (fm_handle req) of
            None \<Rightarrow> Ub OutOfBounds
          | Some es \<Rightarrow>
              if length es < unat (fm_pages_num req) then Ub OutOfBounds
              else obind (unmap_loop t (take (unat (fm_pages_num req)) es) s) (\<lambda>(ret, s1).
                Ret (ret, s1\<lparr>fx_entries := (fx_entries s1)(fm_handle req := None)\<rparr>))))"

datatype fixup_cmd = FH_FIXUP_IOCTL_MAP | FH_FIXUP_IOCTL_UNMAP | FH_FIXUP_OTHER

definition fops_ioctl ::
  "fixup_env \<Rightarrow> bool \<times> bool \<times> bool \<Rightarrow> fixup_cmd \<Rightarrow> fh_fixup_map_t \<Rightarrow> u64 list \<Rightarrow> fixup_state
    \<Rightarrow> (int \<times> fh_fixup_map_t \<times> fixup_state) outcome" where
  "fops_ioctl env copied cmd req targets s =
    (case cmd of
       FH_FIXUP_IOCTL_MAP \<Rightarrow> fops_ioctl_do_map env copied req targets s
     | FH_FIXUP_IOCTL_UNMAP \<Rightarrow> obind (fops_ioctl_unmap env (fst copied) req s) (\<lambda>(ret, s1). Ret (ret, req, s1))
     | FH_FIXUP_OTHER \<Rightarrow> Ret (- EINVAL, req, s))"

text \<open>\<open>fh_fixup_init\<close> of the module: its value, and whether the device is registered, which it stays on every later failure.\<close>

definition fixup_module_init :: "fixup_env \<Rightarrow> bool \<Rightarrow> bool \<Rightarrow> int \<times> bool" where
  "fixup_module_init env registered invpcid =
    (if \<not> mv_symbol env ''kallsyms_lookup_name'' then (- ENXIO, False)
     else if \<not> registered then (- ENXIO, False)
     else if \<not> mv_symbol env ''flush_tlb_mm_range'' then (- ENXIO, True)
     else if \<not> invpcid \<and> \<not> mv_symbol env ''native_write_cr4'' then (- ENXIO, True)
     else if \<not> mv_symbol env ''do_mprotect_pkey'' then (- ENXIO, True)
     else if \<not> mv_symbol env ''untrack_pfn'' then (- ENXIO, True)
     else (0, True))"

subsection \<open>The library\<close>

text \<open>
  \<open>fh_fixup.c\<close>. The system calls of the library reach the module above: a negative value arrives as -1. \<open>touch\<close> is a read of one
  byte by the calling process, which brings its page in; the product of the index and 4096 is an \<open>int\<close>, so that
  more than \<open>2 ^ 19\<close> pages are undefined behaviour. \<open>mallocs\<close> says which of the two allocations succeed, \<open>junk\<close> is what the
  handle holds before the kernel sets it.
\<close>

definition fh_fixup_init :: "int \<Rightarrow> int \<times> int" where
  "fh_fixup_init opened = (if opened < 0 then (- 1, opened) else (0, opened))"

definition fh_fixup_cleanup :: "int \<Rightarrow> int list" where
  "fh_fixup_cleanup fd = (if fd \<ge> 0 then [fd] else [])"

definition sys_ioctl ::
  "fixup_env \<Rightarrow> bool \<times> bool \<times> bool \<Rightarrow> int \<Rightarrow> fixup_cmd \<Rightarrow> fh_fixup_map_t \<Rightarrow> u64 list \<Rightarrow> fixup_state
    \<Rightarrow> (int \<times> fh_fixup_map_t \<times> fixup_state) outcome" where
  "sys_ioctl env copied fd cmd req targets s =
    (if fd < 0 then Ret (- 1, req, s)
     else obind (fops_ioctl env copied cmd req targets s) (\<lambda>(r, req1, s1). Ret (if r < 0 then - 1 else r, req1, s1)))"

definition fh_fixup_map ::
  "fixup_env \<Rightarrow> bool \<times> bool \<times> bool \<Rightarrow> bool \<times> bool \<Rightarrow> (u64 \<Rightarrow> fixup_state \<Rightarrow> fixup_state outcome) \<Rightarrow> u64 \<Rightarrow> int
    \<Rightarrow> u64 \<Rightarrow> u64 \<Rightarrow> u32 \<Rightarrow> u64 \<Rightarrow> u64 list \<Rightarrow> fixup_state \<Rightarrow> (int \<times> fh_fixup_map_t option \<times> fixup_state) outcome" where
  "fh_fixup_map env copied mallocs touch junk fd src_base num_pages pid target_pages targets s =
    (if \<not> fst mallocs then Ret (- 1, None, s)
     else if unat num_pages > 2 ^ 19 then Ub OutOfBounds
     else obind (ofold (\<lambda>i. touch (src_base + of_nat (i * 4096))) [0..<unat num_pages] s) (\<lambda>s1.
       let req = \<lparr>fm_src_base_addr = src_base, fm_pages_num = num_pages, fm_target_pid = pid, fm_target_pages = target_pages,
                  fm_handle = junk\<rparr>
       in obind (sys_ioctl env copied fd FH_FIXUP_IOCTL_MAP req targets s1) (\<lambda>(ret, req1, s2).
         if ret < 0 then Ret (ret, None, s2)
         else if \<not> snd mallocs then Ub NullDeref
         else Ret (0, Some req1, s2))))"

definition fh_fixup_unmap ::
  "fixup_env \<Rightarrow> bool \<Rightarrow> int \<Rightarrow> fh_fixup_map_t \<Rightarrow> fixup_state \<Rightarrow> (int \<times> fixup_state) outcome" where
  "fh_fixup_unmap env copied fd req s =
    obind (sys_ioctl env (copied, copied, copied) fd FH_FIXUP_IOCTL_UNMAP req [] s) (\<lambda>(ret, _, s1). Ret (ret, s1))"

subsection \<open>One page\<close>

text \<open>What an address space keeps while pages of it are replaced: its table structure, its locks, and which addresses have an area.\<close>

definition kept :: "mm_struct \<Rightarrow> mm_struct \<Rightarrow> bool" where
  "kept mm mm' \<longleftrightarrow> walk_vm mm' = walk_vm mm \<and> mm_readers mm' = mm_readers mm \<and> mm_writer mm' = mm_writer mm
    \<and> (\<forall>a. in_vma mm a \<noteq> None \<longrightarrow> in_vma mm' a \<noteq> None)"

lemma kept_trans: "kept a b \<Longrightarrow> kept b c \<Longrightarrow> kept a c"
  by (auto simp: kept_def)

lemma kept_pte: "kept mm (mm\<lparr>mm_pte := f\<rparr>)"
proof -
  have "find_vma (mm\<lparr>mm_pte := f\<rparr>) = find_vma mm" by (simp add: find_vma_def fun_eq_iff)
  then have "in_vma (mm\<lparr>mm_pte := f\<rparr>) = in_vma mm" by (simp add: in_vma_def fun_eq_iff split: option.splits)
  then show ?thesis by (simp add: kept_def) (simp add: walk_vm_def fun_eq_iff)
qed

lemma kept_vma:
  assumes "mm_vma mm v = Some y"
  shows "kept mm (mm\<lparr>mm_vma := (mm_vma mm)(v := Some (y\<lparr>va_flags := f, va_page_prot := p\<rparr>))\<rparr>)"
proof -
  let ?mm = "mm\<lparr>mm_vma := (mm_vma mm)(v := Some (y\<lparr>va_flags := f, va_page_prot := p\<rparr>))\<rparr>"
  have "(\<lambda>i. case mm_vma ?mm i of None \<Rightarrow> False | Some z \<Rightarrow> a < va_end z) =
      (\<lambda>i. case mm_vma mm i of None \<Rightarrow> False | Some z \<Rightarrow> a < va_end z)" for a
    using assms by (auto simp: fun_eq_iff)
  then have "find_vma ?mm a = find_vma mm a" for a unfolding find_vma_def by simp
  then have "in_vma ?mm a = in_vma mm a" for a
    using assms by (auto simp: in_vma_def split: option.splits)
  then show ?thesis by (simp add: kept_def) (simp add: walk_vm_def fun_eq_iff)
qed

text \<open>\<open>do_mprotect_pkey\<close> at an address that has an area succeeds and changes no entry of the page table.\<close>

definition mprotect_ok :: "'a map_env_scheme \<Rightarrow> bool" where
  "mprotect_ok env \<longleftrightarrow> (\<forall>mm a l p. in_vma mm a \<noteq> None \<longrightarrow> (case mv_mprotect env mm a l p of
     (r, mm') \<Rightarrow> r = 0 \<and> mm_pte mm' = mm_pte mm \<and> kept mm mm'))"

lemma upd_mm_same [simp]: "upd_mm i (fx_mms s i) s = s"
  by (simp add: upd_mm_def)

lemma find_vma_readers [simp]: "find_vma (mm\<lparr>mm_readers := n\<rparr>) a = find_vma mm a"
  by (simp add: find_vma_def)

lemma in_vma_readers [simp]: "in_vma (mm\<lparr>mm_readers := n\<rparr>) a = in_vma mm a"
  by (simp add: in_vma_def split: option.splits)

lemma target_area_ok:
  assumes "in_vma (fx_mms s t) a = Some v" "\<not> mm_writer (fx_mms s t)"
  shows "target_area t a s = Ret (Some v, s)"
  using assms by (simp add: target_area_def read_lock_mm_def read_unlock_mm_def)

lemma replace_page_ok:
  assumes "t \<noteq> src" "remap_ok env" "mm_vma (fx_mms s src) sv = Some x" "mm_vma (fx_mms s t) v = Some y"
    and "mm_pte (fx_mms s t) (page_of a) = old"
  shows "\<exists>mm. replace_page env src sv t v pid a (page_of a) ps s =
      Ret (0, \<lparr>te_pte_val = old, te_addr = a, te_pid = pid\<rparr>, upd_mm t mm s)
    \<and> mm_pte mm = (mm_pte (fx_mms s t))(page_of a :=
        push_bit PAGE_SHIFT (drop_bit PAGE_SHIFT (mm_pte (fx_mms s src) ps)) OR va_page_prot x)
    \<and> kept (fx_mms s t) mm"
proof -
  let ?m = "fx_mms s t"
  let ?m1 = "?m\<lparr>mm_pte := (mm_pte ?m)(page_of a := 0)\<rparr>"
  let ?m2 = "?m1\<lparr>mm_vma := (mm_vma ?m1)(v := Some (y\<lparr>va_flags := va_flags x OR VM_SHARED_MAYWRITE, va_page_prot := va_page_prot x\<rparr>))\<rparr>"
  let ?m3 = "?m2\<lparr>mm_pte := remapped a (drop_bit PAGE_SHIFT (mm_pte (fx_mms s src) ps)) 4096 (va_page_prot x) (mm_pte ?m2)\<rparr>"
  have "mm_vma ?m1 v = Some y" using assms(4) by simp
  from kept_trans [OF kept_trans [OF kept_pte kept_vma [OF this]] kept_pte] have "kept ?m ?m3" .
  moreover have "mm_pte ?m3 = (mm_pte ?m)(page_of a :=
      push_bit PAGE_SHIFT (drop_bit PAGE_SHIFT (mm_pte (fx_mms s src) ps)) OR va_page_prot x)"
    by (simp add: remapped_page)
  moreover have "replace_page env src sv t v pid a (page_of a) ps s =
      Ret (0, \<lparr>te_pte_val = old, te_addr = a, te_pid = pid\<rparr>, upd_mm t ?m3 s)"
    using assms by (simp add: replace_page_def upd_mm_def remap_ok_def Let_def)
  ultimately show ?thesis by blast
qed

lemma protect_ok:
  assumes "mprotect_ok env" "pid \<noteq> hk_current_pid (mv_kernel env)" "fixup_get_mm (mv_kernel env) (scast pid) = Some t"
    and "in_vma (fx_mms s t) a \<noteq> None" "1 < fx_users s t"
  shows "\<exists>mm. fixup_protect_pid env pid a l p s = Ret (0, (upd_mm t mm s)\<lparr>fx_users := (fx_users s)(t := fx_users s t - 1)\<rparr>)
    \<and> mm_pte mm = mm_pte (fx_mms s t) \<and> kept (fx_mms s t) mm"
proof -
  obtain r mm where mm: "mv_mprotect env (fx_mms s t) a l p = (r, mm)" by (cases "mv_mprotect env (fx_mms s t) a l p")
  then have "r = 0" "mm_pte mm = mm_pte (fx_mms s t)" "kept (fx_mms s t) mm"
    using assms(1,4) unfolding mprotect_ok_def by (metis (mono_tags, lifting) case_prod_conv)+
  then show ?thesis
    using assms(2,3,5) mm by (auto simp: fixup_protect_pid_def mmput_def upd_mm_def)
qed

text \<open>The old entry, the new one, and what remains, for one round.\<close>

definition round_done ::
  "nat \<Rightarrow> nat \<Rightarrow> u32 \<Rightarrow> u64 \<Rightarrow> u64 \<Rightarrow> u64 \<Rightarrow> nat \<Rightarrow> fixup_state \<Rightarrow> fixup_state \<Rightarrow> bool" where
  "round_done src t pid a sa prot n s s' \<longleftrightarrow> (\<exists>mm. s' = (upd_mm t mm s)\<lparr>fx_users := (fx_users s)(t := fx_users s t - n)\<rparr>
     \<and> kept (fx_mms s t) mm
     \<and> mm_pte mm = (mm_pte (fx_mms s t))(page_of a :=
         push_bit PAGE_SHIFT (drop_bit PAGE_SHIFT (mm_pte (fx_mms s src) (page_of sa))) OR prot))"

lemma map_round_ok:
  assumes "t \<noteq> src" "remap_ok env" "mprotect_ok env" "pid \<noteq> hk_current_pid (mv_kernel env)"
    and "fixup_get_mm (mv_kernel env) (scast pid) = Some t" "mm_vma (fx_mms s src) sv = Some x"
    and "in_vma (fx_mms s t) a \<noteq> None" "fst (walk_vm (fx_mms s t) a) = 0" "\<not> mm_writer (fx_mms s t)"
    and "fst (walk_vm (fx_mms s src) sa) = 0" "\<not> mm_writer (fx_mms s src)" "protect \<longrightarrow> 1 < fx_users s t"
  shows "\<exists>s'. map_round env src sv t pid l protect a sa s =
      Ret (Inr (0, \<lparr>te_pte_val = mm_pte (fx_mms s t) (page_of a), te_addr = a, te_pid = pid\<rparr>), s')
    \<and> round_done src t pid a sa (va_page_prot x) (of_bool protect) s s'"
proof -
  obtain v where v: "in_vma (fx_mms s t) a = Some v" using assms(7) by auto
  note area = target_area_ok [OF v assms(9)]
  obtain mm where mm: "(if protect then fixup_protect_pid env pid a l PROT_RWX s else Ret (0, s)) =
      Ret (0, (upd_mm t mm s)\<lparr>fx_users := (fx_users s)(t := fx_users s t - of_bool protect)\<rparr>)"
    "mm_pte mm = mm_pte (fx_mms s t)" "kept (fx_mms s t) mm"
  proof (cases protect)
    case True
    then show thesis using protect_ok [OF assms(3-5,7), of l PROT_RWX] assms(12) that by auto
  next
    case False
    moreover have "kept (fx_mms s t) (fx_mms s t)" by (simp add: kept_def)
    ultimately show thesis using that [of "fx_mms s t"] by simp
  qed
  let ?s2 = "(upd_mm t mm s)\<lparr>fx_users := (fx_users s)(t := fx_users s t - of_bool protect)\<rparr>"
  have s2: "fx_mms ?s2 t = mm" "fx_mms ?s2 src = fx_mms s src" using assms(1) by (simp_all add: upd_mm_def)
  have k: "\<not> mm_writer mm" "fst (walk_vm mm a) = 0" using mm(3) assms(8,9) by (simp_all add: kept_def)
  obtain v2 where v2: "in_vma mm a = Some v2" using mm(3) v by (auto simp: kept_def)
  then obtain y where y: "mm_vma mm v2 = Some y" by (auto simp: in_vma_def split: option.splits if_splits)
  have area2: "target_area t a ?s2 = Ret (Some v2, ?s2)" using v2 k(1) s2(1) by (intro target_area_ok) simp_all
  obtain e where e: "resolve_vm (fx_mms ?s2 t) a True = Ret (0, e, fx_mms ?s2 t)" "e_pte e = Some (page_of a)"
    using resolve_vm_ok [OF k(2,1)] s2(1) by auto
  obtain f where f: "resolve_vm (fx_mms ?s2 src) sa True = Ret (0, f, fx_mms ?s2 src)" "e_pte f = Some (page_of sa)"
    using resolve_vm_ok [OF assms(10,11)] s2(2) by auto
  obtain mm3 where r: "replace_page env src sv t v2 pid a (page_of a) (page_of sa) ?s2 =
      Ret (0, \<lparr>te_pte_val = mm_pte (fx_mms s t) (page_of a), te_addr = a, te_pid = pid\<rparr>, upd_mm t mm3 ?s2)"
    "mm_pte mm3 = (mm_pte mm)(page_of a :=
        push_bit PAGE_SHIFT (drop_bit PAGE_SHIFT (mm_pte (fx_mms s src) (page_of sa))) OR va_page_prot x)" "kept mm mm3"
    using replace_page_ok [OF assms(1,2), of ?s2 sv x v2 y a _ pid "page_of sa"] s2 assms(6) y mm(2) by auto
  have "map_round env src sv t pid l protect a sa s =
      Ret (Inr (0, \<lparr>te_pte_val = mm_pte (fx_mms s t) (page_of a), te_addr = a, te_pid = pid\<rparr>), upd_mm t mm3 ?s2)"
    unfolding map_round_def area obind.simps prod.case mm(1) area2 option.case e(1) f(1) Let_def upd_mm_same e(2) f(2) r(1) by simp
  moreover have "round_done src t pid a sa (va_page_prot x) (of_bool protect) s (upd_mm t mm3 ?s2)"
    unfolding round_done_def
    using kept_trans [OF mm(3) r(3)] r(2) mm(2) by (intro exI [of _ mm3]) (cases s, simp add: upd_mm_def)
  ultimately show ?thesis by blast
qed

subsection \<open>All pages\<close>

text \<open>The table of the target after the loop, page by page, as a reference for it.\<close>

fun installed :: "(u64 \<Rightarrow> u64) \<Rightarrow> u64 \<Rightarrow> u64 list \<Rightarrow> u64 \<Rightarrow> (u64 \<Rightarrow> u64) \<Rightarrow> (u64 \<Rightarrow> u64)" where
  "installed src prot [] sa f = f"
| "installed src prot (a # as) sa f = installed src prot as (sa + 4096)
     (f(page_of a := push_bit PAGE_SHIFT (drop_bit PAGE_SHIFT (src (page_of sa))) OR prot))"

lemma installed_other: "p \<notin> page_of ` set as \<Longrightarrow> installed src prot as sa f p = f p"
  by (induction as arbitrary: sa f) auto

lemma installed_nth:
  assumes "distinct (map page_of as)" "i < length as"
  shows "installed src prot as sa f (page_of (as ! i)) =
    push_bit PAGE_SHIFT (drop_bit PAGE_SHIFT (src (page_of (sa + 4096 * of_nat i)))) OR prot"
  using assms
proof (induction as arbitrary: sa f i)
  case (Cons a as)
  show ?case
  proof (cases i)
    case 0
    with Cons.prems show ?thesis by (simp add: installed_other)
  next
    case (Suc j)
    with Cons show ?thesis by (simp add: algebra_simps)
  qed
qed simp

text \<open>How often the loop changes the protection: once for a contiguous range, otherwise for every page.\<close>

definition protects :: "bool \<Rightarrow> bool \<Rightarrow> u64 list \<Rightarrow> nat" where
  "protects contiguous began as = (if contiguous then of_bool (\<not> began \<and> as \<noteq> []) else length as)"

lemma protects_Cons: "protects c b (a # as) = of_bool (\<not> c \<or> \<not> b) + protects c True as"
  by (simp add: protects_def)

definition old_entry :: "(u64 \<Rightarrow> u64) \<Rightarrow> u32 \<Rightarrow> u64 \<Rightarrow> vm_target_entry" where
  "old_entry f pid a = \<lparr>te_pte_val = f (page_of a), te_addr = a, te_pid = pid\<rparr>"

lemma map_loop_ok:
  assumes "t \<noteq> src" "remap_ok env" "mprotect_ok env" "pid \<noteq> hk_current_pid (mv_kernel env)"
    and "fixup_get_mm (mv_kernel env) (scast pid) = Some t"
    and "mm_vma (fx_mms s src) sv = Some x" "\<not> mm_writer (fx_mms s t)" "\<not> mm_writer (fx_mms s src)"
    and "distinct (map page_of as)" "\<forall>a\<in>set as. in_vma (fx_mms s t) a \<noteq> None \<and> fst (walk_vm (fx_mms s t) a) = 0"
    and "\<forall>i<length as. fst (walk_vm (fx_mms s src) (sa + 4096 * of_nat i)) = 0" "protects c b as < fx_users s t"
  shows "\<exists>mm. map_loop env src sv t pid l c b 0 as sa s = Ret (Inr (0, map (old_entry (mm_pte (fx_mms s t)) pid) as),
      (upd_mm t mm s)\<lparr>fx_users := (fx_users s)(t := fx_users s t - protects c b as)\<rparr>)
    \<and> kept (fx_mms s t) mm
    \<and> mm_pte mm = installed (mm_pte (fx_mms s src)) (va_page_prot x) as sa (mm_pte (fx_mms s t))"
  using assms(6-)
proof (induction as arbitrary: s sa b)
  case Nil
  have "kept (fx_mms s t) (fx_mms s t)" "protects c b [] = 0" by (simp_all add: protects_def kept_def)
  then show ?case by (intro exI [of _ "fx_mms s t"]) simp
next
  case (Cons a as)
  let ?n = "of_bool (\<not> c \<or> \<not> b) :: nat"
  have w0: "fst (walk_vm (fx_mms s src) sa) = 0" using Cons.prems(6) [rule_format, of 0] by simp
  have u: "(\<not> c \<or> \<not> b) \<longrightarrow> 1 < fx_users s t" using Cons.prems(7) by (auto simp: protects_Cons)
  obtain mm where r: "map_round env src sv t pid l (\<not> c \<or> \<not> b) a sa s = Ret (Inr (0, old_entry (mm_pte (fx_mms s t)) pid a),
      (upd_mm t mm s)\<lparr>fx_users := (fx_users s)(t := fx_users s t - ?n)\<rparr>)" "kept (fx_mms s t) mm"
    "mm_pte mm = (mm_pte (fx_mms s t))(page_of a :=
       push_bit PAGE_SHIFT (drop_bit PAGE_SHIFT (mm_pte (fx_mms s src) (page_of sa))) OR va_page_prot x)"
    using map_round_ok [OF assms(1-5) Cons.prems(1) _ _ Cons.prems(2) w0 Cons.prems(3) u, of a l] Cons.prems(5)
    by (auto simp: round_done_def old_entry_def)
  let ?s = "(upd_mm t mm s)\<lparr>fx_users := (fx_users s)(t := fx_users s t - ?n)\<rparr>"
  have m: "fx_mms ?s t = mm" "fx_mms ?s src = fx_mms s src" "fx_users ?s t = fx_users s t - ?n"
    using assms(1) by (simp_all add: upd_mm_def)
  have w: "\<forall>i<length as. fst (walk_vm (fx_mms s src) (sa + 4096 + 4096 * of_nat i)) = 0"
    using Cons.prems(6) [rule_format, of "Suc _"] by (simp add: algebra_simps)
  have p: "protects c True as < fx_users s t - ?n" using Cons.prems(7) by (simp add: protects_Cons)
  have k: "\<forall>p\<in>set as. in_vma mm p \<noteq> None \<and> fst (walk_vm mm p) = 0"
    using Cons.prems(5) r(2) by (auto simp: kept_def)
  have nw: "\<not> mm_writer mm" using r(2) Cons.prems(2) by (simp add: kept_def)
  have d: "distinct (map page_of as)" using Cons.prems(4) by simp
  obtain mm2 where i: "map_loop env src sv t pid l c True 0 as (sa + 4096) ?s =
      Ret (Inr (0, map (old_entry (mm_pte mm) pid) as), (upd_mm t mm2 ?s)\<lparr>fx_users := (fx_users ?s)(t := fx_users s t - ?n - protects c True as)\<rparr>)"
    "kept mm mm2" "mm_pte mm2 = installed (mm_pte (fx_mms s src)) (va_page_prot x) as (sa + 4096) (mm_pte mm)"
    using Cons.IH [of ?s "sa + 4096" True, unfolded m, OF Cons.prems(1) nw Cons.prems(3) d k w p] by blast
  have "map (old_entry (mm_pte mm) pid) as = map (old_entry (mm_pte (fx_mms s t)) pid) as"
    using Cons.prems(4) r(3) by (auto simp: old_entry_def image_iff)
  moreover have "(upd_mm t mm2 ?s)\<lparr>fx_users := (fx_users ?s)(t := fx_users s t - ?n - protects c True as)\<rparr> =
      (upd_mm t mm2 s)\<lparr>fx_users := (fx_users s)(t := fx_users s t - protects c b (a # as))\<rparr>"
    by (simp add: upd_mm_def protects_Cons)
  ultimately have "map_loop env src sv t pid l c b 0 (a # as) sa s =
      Ret (Inr (0, map (old_entry (mm_pte (fx_mms s t)) pid) (a # as)),
        (upd_mm t mm2 s)\<lparr>fx_users := (fx_users s)(t := fx_users s t - protects c b (a # as))\<rparr>)"
    unfolding map_loop.simps r(1) obind.simps prod.case sum.case i(1) by simp
  moreover have "kept (fx_mms s t) mm2" by (rule kept_trans [OF r(2) i(2)])
  moreover note i(3) [unfolded r(3) installed.simps(2) [symmetric]]
  ultimately show ?case by blast
qed

subsection \<open>The two ioctls\<close>

text \<open>
  What every call of the first ioctl needs to get as far as the loop: memory, a sensible request with the array it announces, another
  process, and an area at the source address.
\<close>

definition asks ::
  "fixup_env \<Rightarrow> fixup_state \<Rightarrow> fh_fixup_map_t \<Rightarrow> u64 list \<Rightarrow> nat \<Rightarrow> nat \<Rightarrow> nat \<Rightarrow> bool" where
  "asks env s req targets src sv t \<longleftrightarrow> (\<forall>i n. fx_kmalloc env i n \<noteq> 0)
     \<and> fm_target_pages req \<noteq> 0 \<and> fm_src_base_addr req \<noteq> 0 \<and> targets \<noteq> [] \<and> length targets = unat (fm_pages_num req)
     \<and> fm_target_pid req \<noteq> hk_current_pid (mv_kernel env) \<and> task_mm (hk_current (mv_kernel env)) = Some src
     \<and> fixup_get_mm (mv_kernel env) (scast (fm_target_pid req)) = Some t \<and> t \<noteq> src
     \<and> \<not> mm_writer (fx_mms s src) \<and> find_vma (fx_mms s src) (fm_src_base_addr req) = Some sv"

lemma do_map_loop:
  assumes "asks env s req targets src sv t" "s2 = s\<lparr>fx_blocks := fx_blocks s + 3\<rparr>"
  shows "fops_ioctl_do_map env (True, True, True) req targets s =
    obind (map_loop env src sv t (fm_target_pid req) (fm_pages_num req * 4096) (pages_continuous targets) False 0 targets
             (fm_src_base_addr req) s2) (\<lambda>(r, s3).
      case r of
        Inl err \<Rightarrow> Ret (err, req, s3)
      | Inr (ret, es) \<Rightarrow> let h = fx_kmalloc env (fx_blocks s + 2) (24 * fm_pages_num req) in
          Ret (ret, req\<lparr>fm_handle := h\<rparr>, s3\<lparr>fx_entries := (fx_entries s3)(h \<mapsto> es)\<rparr>))"
proof -
  note a = assms(1) [unfolded asks_def]
  have n: "fm_pages_num req \<noteq> 0" using a by auto
  let ?s1 = "s\<lparr>fx_blocks := fx_blocks s + 1\<rparr>" and ?s2 = "s\<lparr>fx_blocks := fx_blocks s + 2\<rparr>"
  have k: "kmalloc env 8 s = (fx_kmalloc env (fx_blocks s) 8, ?s1)" "kmalloc env m ?s1 = (fx_kmalloc env (fx_blocks s + 1) m, ?s2)"
    "kmalloc env m ?s2 = (fx_kmalloc env (fx_blocks s + 2) m, s2)" for m
    using a by (simp_all add: kmalloc_def Let_def assms(2) numeral_3_eq_3 numeral_2_eq_2)
  have l: "read_lock_mm (fx_mms s2 src) = Ret ((fx_mms s src)\<lparr>mm_readers := Suc (mm_readers (fx_mms s src))\<rparr>)"
    "upd_mm src (read_unlock_mm ((fx_mms s src)\<lparr>mm_readers := Suc (mm_readers (fx_mms s src))\<rparr>)) s2 = s2"
    using a assms(2) by (simp_all add: read_lock_mm_def read_unlock_mm_def upd_mm_def)
  show ?thesis
    unfolding fops_ioctl_do_map_def k Let_def prod.case fst_conv snd_conv not_True_eq_False if_False
    using a n by (simp add: l)
qed

text \<open>The request can be served: the target pages are distinct and present in both processes, and the kernel functions do their job.\<close>

definition serves ::
  "fixup_env \<Rightarrow> fixup_state \<Rightarrow> fh_fixup_map_t \<Rightarrow> u64 list \<Rightarrow> nat \<Rightarrow> nat \<Rightarrow> nat \<Rightarrow> bool" where
  "serves env s req targets src sv t \<longleftrightarrow> asks env s req targets src sv t \<and> remap_ok env \<and> mprotect_ok env
     \<and> \<not> mm_writer (fx_mms s t) \<and> distinct (map page_of targets)
     \<and> (\<forall>a\<in>set targets. in_vma (fx_mms s t) a \<noteq> None \<and> fst (walk_vm (fx_mms s t) a) = 0)
     \<and> (\<forall>i<length targets. fst (walk_vm (fx_mms s src) (fm_src_base_addr req + 4096 * of_nat i)) = 0)
     \<and> (if pages_continuous targets then 1 else length targets) < fx_users s t"

lemma fixup_map_done:
  assumes "serves env s req targets src sv t" "mm_vma (fx_mms s src) sv = Some x"
    and "h = fx_kmalloc env (fx_blocks s + 2) (24 * fm_pages_num req)"
  shows "\<exists>mm s'. fops_ioctl_do_map env (True, True, True) req targets s = Ret (0, req\<lparr>fm_handle := h\<rparr>, s')
    \<and> fx_entries s' = (fx_entries s)(h \<mapsto> map (old_entry (mm_pte (fx_mms s t)) (fm_target_pid req)) targets)
    \<and> fx_mms s' = (fx_mms s)(t := mm) \<and> kept (fx_mms s t) mm
    \<and> mm_pte mm = installed (mm_pte (fx_mms s src)) (va_page_prot x) targets (fm_src_base_addr req) (mm_pte (fx_mms s t))
    \<and> fx_users s' t = fx_users s t - (if pages_continuous targets then 1 else length targets)"
proof -
  let ?s = "s\<lparr>fx_blocks := fx_blocks s + 3\<rparr>" and ?c = "pages_continuous targets"
  have a: "asks env s req targets src sv t" using assms(1) by (simp add: serves_def)
  have p: "protects ?c False targets = (if ?c then 1 else length targets)"
    using a by (simp add: protects_def asks_def)
  obtain mm where "map_loop env src sv t (fm_target_pid req) (fm_pages_num req * 4096) ?c False 0 targets (fm_src_base_addr req) ?s =
      Ret (Inr (0, map (old_entry (mm_pte (fx_mms s t)) (fm_target_pid req)) targets),
        (upd_mm t mm ?s)\<lparr>fx_users := (fx_users s)(t := fx_users s t - protects ?c False targets)\<rparr>)"
    "kept (fx_mms s t) mm"
    "mm_pte mm = installed (mm_pte (fx_mms s src)) (va_page_prot x) targets (fm_src_base_addr req) (mm_pte (fx_mms s t))"
    using map_loop_ok [of t src env "fm_target_pid req" ?s sv x targets "fm_src_base_addr req" ?c False "fm_pages_num req * 4096"]
      assms(1,2) p by (auto simp: serves_def asks_def)
  then show ?thesis
    unfolding do_map_loop [OF a refl] p assms(3) by (intro exI [of _ mm]) (simp add: Let_def, simp add: upd_mm_def)
qed


lemma ofold_same: "(\<And>x. x \<in> set xs \<Longrightarrow> f x s = Ret s) \<Longrightarrow> ofold f xs s = Ret s"
  by (induction xs) simp_all

text \<open>The second ioctl looks entries up and does nothing with them.\<close>

lemma unmap_loop_keeps:
  assumes "mm_readers (fx_mms s t) = 0" "\<not> mm_writer (fx_mms s t)" "\<forall>e\<in>set es. fst (walk_vm (fx_mms s t) (te_addr e)) = 0"
  shows "unmap_loop t es s = Ret (0, s)"
  using assms
proof (induction es)
  case (Cons e es)
  have w: "walk_vm (mm\<lparr>mm_writer := b\<rparr>) a = walk_vm mm a" for mm b a by (simp add: walk_vm_def)
  obtain vm where vm: "walk_vm (fx_mms s t) (te_addr e) = (0, vm)"
    using Cons.prems(3) by (cases "walk_vm (fx_mms s t) (te_addr e)") auto
  then have "e_pte vm = Some (page_of (te_addr e))" by (auto simp: walk_vm_def split: if_splits)
  moreover have "(fx_mms s t)\<lparr>mm_writer := False\<rparr> = fx_mms s t" using Cons.prems(2) by (cases "fx_mms s t") simp
  then have "upd_mm t ((fx_mms s t)\<lparr>mm_writer := False\<rparr>) s = s" unfolding upd_mm_def by simp
  ultimately show ?case
    using Cons vm by (simp add: write_lock_mm_def write_unlock_mm_def resolve_vm_def w)
qed simp


text \<open>C25: A target address without an area. The first ioctl returns \<open>-EFAULT\<close> with the read lock of the other
  address space still taken; the next writer waits for ever, and one is the second ioctl, for any record of the
  same process.\<close>

theorem fixup_unknown_address_locks:
  assumes "asks env s req targets src sv t" "in_vma (fx_mms s t) (hd targets) = None" "\<not> mm_writer (fx_mms s t)"
    and "fm_target_pid req' = fm_target_pid req" "fm_handle req' \<noteq> 0" "fx_entries s (fm_handle req') = Some es"
    and "0 < fm_pages_num req'" "unat (fm_pages_num req') \<le> length es"
  shows "\<exists>s'. fops_ioctl env (True, True, True) FH_FIXUP_IOCTL_MAP req targets s = Ret (- EFAULT, req, s')
    \<and> mm_readers (fx_mms s' t) = mm_readers (fx_mms s t) + 1
    \<and> fops_ioctl env (True, True, True) FH_FIXUP_IOCTL_UNMAP req' targets s' = Ub Deadlock"
proof -
  obtain a as where t: "targets = a # as" using assms(1) by (cases targets) (auto simp: asks_def)
  define s' where "s' = upd_mm t ((fx_mms s t)\<lparr>mm_readers := mm_readers (fx_mms s t) + 1\<rparr>) (s\<lparr>fx_blocks := fx_blocks s + 3\<rparr>)"
  have s': "fx_mms s' t = (fx_mms s t)\<lparr>mm_readers := mm_readers (fx_mms s t) + 1\<rparr>" "fx_entries s' = fx_entries s"
    by (simp_all add: s'_def upd_mm_def)
  have "target_area t a (s\<lparr>fx_blocks := fx_blocks s + 3\<rparr>) = Ret (None, s')"
    using assms(2,3) t by (simp add: target_area_def read_lock_mm_def s'_def)
  then have "fops_ioctl_do_map env (True, True, True) req targets s = Ret (- EFAULT, req, s')"
    unfolding do_map_loop [OF assms(1) refl] unfolding t by (simp add: map_round_def)
  moreover have "take (unat (fm_pages_num req')) es \<noteq> []" using assms(7,8) by (auto simp: word_less_nat_alt)
  then obtain e es' where "take (unat (fm_pages_num req')) es = e # es'" by (cases "take (unat (fm_pages_num req')) es") auto
  then have "fops_ioctl_unmap env True req' s' = Ub Deadlock"
    using assms(1,4-8) by (simp add: fops_ioctl_unmap_def Let_def asks_def s' write_lock_mm_def)
  ultimately show ?thesis by (intro exI [of _ s']) (simp add: fops_ioctl_def s'(1))
qed

subsection \<open>Witnesses\<close>

text \<open>Two processes with an area of three pages; pages 0x12 and 0x10 of the second are replaced by pages 0x10 and 0x11 of the first.\<close>

definition fix_vma :: vma where
  "fix_vma = \<lparr>va_start = 0x10000, va_end = 0x13000, va_pgoff = 0, va_flags = 0, va_page_prot = 0x27\<rparr>"

definition fix_mm :: "(u64 \<Rightarrow> u64) \<Rightarrow> mm_struct" where
  "fix_mm f = \<lparr>mm_pgd = (\<lambda>_. demo_level), mm_p4d = (\<lambda>_. demo_level), mm_pud = (\<lambda>_. demo_level), mm_pmd = (\<lambda>_. demo_level),
     mm_has_pte = (\<lambda>_. True), mm_pte = f, mm_vma = [0 \<mapsto> fix_vma], mm_order = [0], mm_readers = 0, mm_writer = False\<rparr>"

definition fix_env :: fixup_env where
  "fix_env = \<lparr>mv_kernel = demo_kernel\<lparr>hk_task := (\<lambda>_. Some \<lparr>task_mm = Some 1, task_active_mm = Some 1\<rparr>)\<rparr>,
     mv_symbol = (\<lambda>_. True), mv_mprotect = (\<lambda>mm _ _ _. (0, mm)),
     mv_remap = (\<lambda>mm v a pfn sz prot. (0, mm\<lparr>mm_pte := remapped a pfn sz prot (mm_pte mm)\<rparr>)),
     mv_noncached = id, mv_bar = (\<lambda>_. (0, 0)), fx_kmalloc = (\<lambda>i n. 0x1000 + of_nat (i mod 1000))\<rparr>"

definition fix_state :: fixup_state where
  "fix_state = \<lparr>device_busy = True,
     fx_mms = (\<lambda>i. if i = 0 then fix_mm (\<lambda>p. push_bit 12 (p + 0x500) OR 0x67) else fix_mm (\<lambda>p. push_bit 12 (p + 0x900) OR 0x67)),
     fx_users = (\<lambda>_. 5), fx_entries = [0x77 \<mapsto> [\<lparr>te_pte_val = 0, te_addr = 0x10000, te_pid = 77\<rparr>]], fx_blocks = 0\<rparr>"

definition fix_req :: "u64 \<Rightarrow> fh_fixup_map_t" where
  "fix_req n = \<lparr>fm_src_base_addr = 0x10000, fm_pages_num = n, fm_target_pid = 77, fm_target_pages = 0x5000, fm_handle = 0\<rparr>"

lemmas fix_defs = fix_req_def fix_state_def fix_env_def demo_kernel_def fix_mm_def fix_vma_def demo_level_def

lemma fix_in_vma: "in_vma (fix_mm f) a = (if 0x10000 \<le> a \<and> a < 0x13000 then Some 0 else None)"
  by (auto simp: in_vma_def find_vma_def fix_mm_def fix_vma_def)

lemma fix_malloc: "fx_kmalloc fix_env i n \<noteq> 0"
proof -
  have "unat (of_nat (i mod 1000) :: u64) = i mod 1000" by (simp add: unat_of_nat)
  then have "unat (0x1000 + of_nat (i mod 1000) :: u64) = 0x1000 + i mod 1000" by (simp add: unat_word_ariths)
  then have "(0x1000 + of_nat (i mod 1000) :: u64) \<noteq> 0" by (metis add_is_0 unsigned_0 zero_neq_numeral)
  then show ?thesis by (simp add: fix_env_def)
qed

lemma fix_asks:
  assumes "targets \<noteq> []" "length targets = unat n"
  shows "asks fix_env fix_state (fix_req n) targets 0 0 1"
  using assms fix_malloc
  by (simp add: asks_def) (simp add: fix_req_def fix_state_def fix_env_def demo_kernel_def fixup_get_mm_def find_vma_def fix_mm_def fix_vma_def)

lemma fix_serves: "serves fix_env fix_state (fix_req 2) [0x12000, 0x10000] 0 0 1"
proof -
  have "remap_ok fix_env" "mprotect_ok fix_env" by (simp_all add: remap_ok_def mprotect_ok_def fix_env_def kept_def)
  moreover have "fst (walk_vm (fix_mm f) a) = 0" for f a by (simp add: walk_vm_def fix_mm_def demo_level_def)
  moreover have "fx_mms fix_state 1 = fix_mm (\<lambda>p. push_bit 12 (p + 0x900) OR 0x67)" "\<not> mm_writer (fx_mms fix_state 1)"
    "fx_mms fix_state 0 = fix_mm (\<lambda>p. push_bit 12 (p + 0x500) OR 0x67)" "fx_users fix_state 1 = 5"
    by (simp_all add: fix_state_def fix_mm_def)
  ultimately show ?thesis using fix_asks [of "[0x12000, 0x10000]" 2] by (simp add: serves_def fix_in_vma page_of_def)
qed

lemma fix_area: "mm_vma (fx_mms fix_state 0) 0 = Some fix_vma"
  by (simp add: fix_state_def fix_mm_def)



theorem fixup_unknown_address_locks_witness:
  "\<exists>s'. fops_ioctl fix_env (True, True, True) FH_FIXUP_IOCTL_MAP (fix_req 1) [0x30000] fix_state = Ret (- EFAULT, fix_req 1, s')
    \<and> mm_readers (fx_mms s' 1) = 1
    \<and> fops_ioctl fix_env (True, True, True) FH_FIXUP_IOCTL_UNMAP ((fix_req 1)\<lparr>fm_handle := 0x77\<rparr>) [0x30000] s' = Ub Deadlock"
proof -
  have "asks fix_env fix_state (fix_req 1) [0x30000] 0 0 1" by (rule fix_asks) simp_all
  moreover have "in_vma (fx_mms fix_state 1) (hd [0x30000]) = None" "\<not> mm_writer (fx_mms fix_state 1)"
    "mm_readers (fx_mms fix_state 1) = 0" by (simp_all add: fix_state_def fix_in_vma) (simp_all add: fix_mm_def)
  ultimately show ?thesis
    using fixup_unknown_address_locks [of fix_env fix_state "fix_req 1" "[0x30000]" 0 0 1 "(fix_req 1)\<lparr>fm_handle := 0x77\<rparr>"]
    by (simp add: fix_req_def) (simp add: fix_state_def)
qed

end
