(* ===== verification/Xdma_Thread.thy ===== *)
theory Xdma_Thread
  imports Host_Sgdma
begin

text \<open>
  Polling mode of the host's driver (\<open>xdma/linux-kernel/xdma/xdma_thread.c\<close>, and \<open>engine_service_poll\<close> of \<open>libxdma.c\<close>): threads that
  watch the engines assigned to them. Shown: under any sequence of assignments and removals every engine is in the list
  of the one thread it points to, and the counters are the lengths of the lists; which thread a new engine
  gets; polling ends, with the first count that is sufficient or an error; and a thread that has work for one
  engine reads past the list of an idle one.
\<close>

subsection \<open>State\<close>

text \<open>
  Threads (\<open>struct xdma_kthread\<close>) with the engines of their work list, by number. \<open>cs_threads\<close> is the array, \<open>cmplthp\<close> the thread of an
  engine as an index into it, \<open>orphans\<close> counts threads that run after their array was freed.
\<close>

record xdma_kthread =
  th_cpu :: nat
  th_task :: bool
  th_schedule :: bool
  work_cnt :: u32
  work_list :: "nat list"
  th_fproc :: bool

record thread_state =
  cs_threads :: "xdma_kthread list option"
  thread_cnt :: nat
  cmplthp :: "nat \<Rightarrow> nat option"
  intr_work_cpu :: "nat \<Rightarrow> nat"
  orphans :: nat

definition kthread_zero :: xdma_kthread where
  "kthread_zero = \<lparr>th_cpu = 0, th_task = False, th_schedule = False, work_cnt = 0, work_list = [], th_fproc = False\<rparr>"

subsection \<open>Assigning engines\<close>

text \<open>The loop of \<open>xdma_thread_add_work\<close>: \<open>idx\<close> starts as the number of threads; \<open>v\<close> is only set for the first one.\<close>

fun choose_thread :: "nat \<Rightarrow> xdma_kthread list \<Rightarrow> nat \<Rightarrow> u32 \<Rightarrow> nat \<Rightarrow> nat" where
  "choose_thread n [] i v idx = idx"
| "choose_thread n (t # ts) i v idx =
    (if idx = n then choose_thread n ts (i + 1) (work_cnt t) i
     else if work_cnt t = 0 then i
     else if work_cnt t < v then choose_thread n ts (i + 1) v i
     else choose_thread n ts (i + 1) v idx)"

definition add_item :: "nat \<Rightarrow> xdma_kthread \<Rightarrow> xdma_kthread" where
  "add_item e t = t\<lparr>work_list := work_list t @ [e], work_cnt := work_cnt t + 1\<rparr>"

definition del_item :: "nat \<Rightarrow> xdma_kthread \<Rightarrow> xdma_kthread" where
  "del_item e t = t\<lparr>work_list := remove1 e (work_list t), work_cnt := work_cnt t - 1\<rparr>"

definition xdma_thread_add_work :: "nat \<Rightarrow> thread_state \<Rightarrow> thread_state outcome" where
  "xdma_thread_add_work e s =
    (case cs_threads s of
       None \<Rightarrow> Ub NullDeref
     | Some ths \<Rightarrow>
         let idx = choose_thread (thread_cnt s) (take (thread_cnt s) ths) 0 0 (thread_cnt s)
         in if length ths \<le> idx then Ub OutOfBounds
            else Ret (s\<lparr>cs_threads := Some (ths[idx := add_item e (ths ! idx)]),
                        intr_work_cpu := (intr_work_cpu s)(e := idx), cmplthp := (cmplthp s)(e \<mapsto> idx)\<rparr>))"

text \<open>\<open>xdma_thread_remove_work\<close>; to unlink an entry that is in no list is undefined.\<close>

definition xdma_thread_remove_work :: "nat \<Rightarrow> thread_state \<Rightarrow> thread_state outcome" where
  "xdma_thread_remove_work e s =
    (let s1 = s\<lparr>cmplthp := (cmplthp s)(e := None)\<rparr>
     in case cmplthp s e of
          None \<Rightarrow> Ret s1
        | Some i \<Rightarrow>
            (case cs_threads s of
               None \<Rightarrow> Ub UseAfterFree
             | Some ths \<Rightarrow>
                 if length ths \<le> i \<or> e \<notin> set (work_list (ths ! i)) then Ub UseAfterFree
                 else Ret (s1\<lparr>cs_threads := Some (ths[i := del_item e (ths ! i)])\<rparr>)))"

subsection \<open>Starting and stopping threads\<close>

text \<open>\<open>xdma_kthread_start\<close>; \<open>created\<close> tells whether the kernel can create the task.\<close>

definition xdma_kthread_start :: "bool \<Rightarrow> xdma_kthread \<Rightarrow> int \<times> xdma_kthread" where
  "xdma_kthread_start created t =
    (if th_task t then (- EINVAL, t)
     else let t1 = t\<lparr>work_list := []\<rparr>
       in if \<not> created then (- EFAULT, t1) else (0, t1\<lparr>th_task := True\<rparr>))"

definition xdma_kthread_stop :: "int \<Rightarrow> xdma_kthread \<Rightarrow> int \<times> xdma_kthread" where
  "xdma_kthread_stop stopped t =
    (if \<not> th_task t then (0, t)
     else let t1 = t\<lparr>th_schedule := True\<rparr>
       in if stopped < 0 then (stopped, t1) else (0, t1\<lparr>th_task := False\<rparr>))"

text \<open>
  The loop of \<open>xdma_threads_create\<close> over the processors that are online: an error, or the array; \<open>k\<close> threads are running.
\<close>

fun create_loop :: "(nat \<Rightarrow> bool) \<Rightarrow> nat \<Rightarrow> nat list \<Rightarrow> nat \<Rightarrow> xdma_kthread list \<Rightarrow> (int \<times> nat \<times> xdma_kthread list) outcome" where
  "create_loop created num [] k ths = Ret (0, k, ths)"
| "create_loop created num (cpu # cpus) k ths =
    (if length ths \<le> k then Ub OutOfBounds
     else case xdma_kthread_start (created k) ((ths ! k)\<lparr>th_cpu := cpu, th_fproc := True\<rparr>) of
       (rv, t) \<Rightarrow>
         let ths1 = ths[k := t]
         in if rv < 0 then Ret (rv, k, ths1)
            else if k + 1 = num then Ret (0, k + 1, ths1)
            else create_loop created num cpus (k + 1) ths1)"

definition xdma_threads_create ::
  "bool \<Rightarrow> (nat \<Rightarrow> bool) \<Rightarrow> nat list \<Rightarrow> nat \<Rightarrow> thread_state \<Rightarrow> (int \<times> thread_state) outcome" where
  "xdma_threads_create allocated created cpus num s =
    (if thread_cnt s \<noteq> 0 then Ret (0, s)
     else if \<not> allocated then Ret (- ENOMEM, s\<lparr>cs_threads := None\<rparr>)
     else obind (create_loop created num cpus 0 (replicate num kthread_zero)) (\<lambda>(rv, k, ths).
       if rv < 0 then Ret (rv, s\<lparr>cs_threads := None, thread_cnt := 0, orphans := orphans s + k\<rparr>)
       else Ret (0, s\<lparr>cs_threads := Some ths, thread_cnt := k\<rparr>)))"

text \<open>\<open>xdma_threads_destroy\<close>; \<open>stopped i\<close> is what \<open>kthread_stop\<close> gives for the \<open>i\<close>-th thread.\<close>

definition stop_all :: "(nat \<Rightarrow> int) \<Rightarrow> nat \<Rightarrow> xdma_kthread list \<Rightarrow> xdma_kthread list" where
  "stop_all stopped n ths =
    map (\<lambda>i. let t = ths ! i in if th_fproc t then snd (xdma_kthread_stop (stopped i) t) else t) [0..<n]"

definition xdma_threads_destroy :: "(nat \<Rightarrow> int) \<Rightarrow> thread_state \<Rightarrow> thread_state outcome" where
  "xdma_threads_destroy stopped s =
    (if thread_cnt s = 0 then Ret s
     else case cs_threads s of
       None \<Rightarrow> Ub NullDeref
     | Some ths \<Rightarrow>
         if length ths < thread_cnt s then Ub OutOfBounds
         else Ret (s\<lparr>cs_threads := None, thread_cnt := 0,
           orphans := orphans s + length (filter th_task (stop_all stopped (thread_cnt s) ths))\<rparr>))"

subsection \<open>Polling\<close>

text \<open>
  \<open>engine_service_wb_monitor\<close>: \<open>wb k\<close> is the count the device has written back at the \<open>k\<close>-th look, \<open>late k\<close> whether the time is up then.
  The loop need not end.
\<close>

partial_function (option) wb_loop :: "(nat \<Rightarrow> u32) \<Rightarrow> (nat \<Rightarrow> bool) \<Rightarrow> u32 \<Rightarrow> nat \<Rightarrow> u32 option" where
  "wb_loop wb late expected k =
    (let desc_wb = wb k
     in if desc_wb AND WB_ERR_MASK \<noteq> 0 then Some desc_wb
        else if desc_wb \<ge> expected then Some desc_wb
        else if late k then Some (if desc_wb AND WB_COUNT_MASK > expected then expected OR WB_ERR_MASK else desc_wb)
        else wb_loop wb late expected (k + 1))"

definition engine_service_wb_monitor :: "(nat \<Rightarrow> u32) \<Rightarrow> (nat \<Rightarrow> bool) \<Rightarrow> u32 \<Rightarrow> u32 option" where
  "engine_service_wb_monitor wb late expected = (if expected = 0 then Some 0 else wb_loop wb late expected 0)"

definition engine_service_poll ::
  "xdma_params \<Rightarrow> xdma_hw \<Rightarrow> (nat \<Rightarrow> u32) \<Rightarrow> (nat \<Rightarrow> bool) \<Rightarrow> u32 \<Rightarrow> xdma_engine \<Rightarrow> (int \<times> xdma_engine) option" where
  "engine_service_poll p hw wb late expected e =
    (if magic e \<noteq> MAGIC_ENGINE then Some (- EINVAL, e)
     else case engine_service_wb_monitor wb late expected of
            None \<Rightarrow> None
          | Some desc_wb \<Rightarrow> if desc_wb = 0 then Some (0, e) else Some (run_state (engine_service p hw desc_wb) e))"

subsection \<open>The main loop of a thread\<close>

text \<open>
  \<open>xdma_thread_cmpl_status_proc\<close>: the entry after the head of an empty list is the head, so that the pointer is never null and the
  fields read lie outside of any transfer. \<open>watch\<close> gives the two functions of \<open>engine_service_wb_monitor\<close> for an engine.
\<close>

definition xdma_thread_cmpl_status_pend :: "(nat \<Rightarrow> xdma_engine) \<Rightarrow> nat \<Rightarrow> bool" where
  "xdma_thread_cmpl_status_pend engs e \<longleftrightarrow> transfer_list (engs e) \<noteq> []"

definition xdma_thread_cmpl_status_proc ::
  "xdma_params \<Rightarrow> xdma_hw \<Rightarrow> (nat \<Rightarrow> (nat \<Rightarrow> u32) \<times> (nat \<Rightarrow> bool)) \<Rightarrow> nat \<Rightarrow> (nat \<Rightarrow> xdma_engine)
    \<Rightarrow> (nat \<Rightarrow> xdma_engine) outcome option" where
  "xdma_thread_cmpl_status_proc p hw watch e engs =
    (case transfer_list (engs e) of
       [] \<Rightarrow> Some (Ub OutOfBounds)
     | i # _ \<Rightarrow>
         (case engine_service_poll p hw (fst (watch e)) (snd (watch e)) (of_nat (xf_desc_cmpl_th (xfers (engs e) i))) (engs e) of
            None \<Rightarrow> None
          | Some (_, e1) \<Rightarrow> Some (Ret (engs(e := e1)))))"

definition xthread_work_pending :: "(nat \<Rightarrow> xdma_engine) \<Rightarrow> xdma_kthread \<Rightarrow> bool" where
  "xthread_work_pending engs t \<longleftrightarrow> (\<exists>e \<in> set (work_list t). xdma_thread_cmpl_status_pend engs e)"

fun proc_items ::
  "(nat \<Rightarrow> (nat \<Rightarrow> xdma_engine) \<Rightarrow> (nat \<Rightarrow> xdma_engine) outcome option) \<Rightarrow> nat list \<Rightarrow> (nat \<Rightarrow> xdma_engine)
    \<Rightarrow> (nat \<Rightarrow> xdma_engine) outcome option" where
  "proc_items f [] engs = Some (Ret engs)"
| "proc_items f (e # es) engs =
    (case f e engs of None \<Rightarrow> None | Some (Ub u) \<Rightarrow> Some (Ub u) | Some (Ret engs1) \<Rightarrow> proc_items f es engs1)"

text \<open>One turn of the loop of \<open>xthread_main\<close>. A thread without pending work sleeps first, until \<open>woken_up\<close> has changed the engines.\<close>

definition xthread_turn ::
  "xdma_params \<Rightarrow> xdma_hw \<Rightarrow> (nat \<Rightarrow> (nat \<Rightarrow> u32) \<times> (nat \<Rightarrow> bool)) \<Rightarrow> ((nat \<Rightarrow> xdma_engine) \<Rightarrow> (nat \<Rightarrow> xdma_engine))
    \<Rightarrow> xdma_kthread \<Rightarrow> (nat \<Rightarrow> xdma_engine) \<Rightarrow> (xdma_kthread \<times> (nat \<Rightarrow> xdma_engine)) outcome option" where
  "xthread_turn p hw watch woken_up t engs =
    (let engs1 = (if xthread_work_pending engs t then engs else woken_up engs); t1 = t\<lparr>th_schedule := False\<rparr>
     in if work_cnt t = 0 then Some (Ret (t1, engs1))
        else case proc_items (xdma_thread_cmpl_status_proc p hw watch) (work_list t) engs1 of
               None \<Rightarrow> None
             | Some (Ub u) \<Rightarrow> Some (Ub u)
             | Some (Ret engs2) \<Rightarrow> Some (Ret (t1, engs2)))"

subsection \<open>Which thread an engine gets\<close>

text \<open>The search from the second thread on: the first thread without work, otherwise the last one with less work than the first thread.\<close>

lemma choose_tail:
  assumes "idx < i" "i + length ts \<le> n" "r = choose_thread n ts i v idx"
  shows "if \<exists>t \<in> set ts. work_cnt t = 0 then \<exists>j < length ts. r = i + j \<and> work_cnt (ts ! j) = 0
    else if \<exists>t \<in> set ts. work_cnt t < v
      then \<exists>j < length ts. r = i + j \<and> work_cnt (ts ! j) < v \<and> (\<forall>k < length ts. j < k \<longrightarrow> v \<le> work_cnt (ts ! k))
    else r = idx"
  using assms
proof (induction ts arbitrary: i idx)
  case (Cons t ts)
  have idx: "idx \<noteq> n" using Cons.prems(1,2) by simp
  have all: "(\<forall>k < length (t # ts). Suc j < k \<longrightarrow> v \<le> work_cnt ((t # ts) ! k)) \<longleftrightarrow>
      (\<forall>k < length ts. j < k \<longrightarrow> v \<le> work_cnt (ts ! k))" for j
    by (auto simp: less_Suc_eq_0_disj)
  have all0: "(\<forall>k < length (t # ts). 0 < k \<longrightarrow> v \<le> work_cnt ((t # ts) ! k)) \<longleftrightarrow> (\<forall>x \<in> set ts. v \<le> work_cnt x)"
    by (auto simp: less_Suc_eq_0_disj all_set_conv_all_nth)
  consider (zero) "work_cnt t = 0" | (less) "work_cnt t \<noteq> 0" "work_cnt t < v" | (skip) "work_cnt t \<noteq> 0" "\<not> work_cnt t < v"
    by blast
  then show ?case
  proof cases
    case zero
    then show ?thesis using Cons.prems(3) idx by auto
  next
    case less
    then have r: "r = choose_thread n ts (i + 1) v i" using Cons.prems(3) idx by simp
    note IH = Cons.IH [of i "i + 1", OF _ _ r]
    show ?thesis
      using IH less Cons.prems(2) all all0
      by (auto split: if_splits simp: not_less Suc_le_eq intro: exI [of _ 0] exI [of _ "Suc _"])
  next
    case skip
    then have r: "r = choose_thread n ts (i + 1) v idx" using Cons.prems(3) idx by simp
    note IH = Cons.IH [of idx "i + 1", OF _ _ r]
    show ?thesis
      using IH skip Cons.prems(1,2) all by (auto split: if_splits intro: exI [of _ "Suc _"])
  qed
qed simp

lemma choose_thread_cases:
  assumes "ths \<noteq> []" "r = choose_thread (length ths) ths 0 0 (length ths)"
  shows "r < length ths"
    and "(\<exists>t \<in> set ths. work_cnt t = 0) \<Longrightarrow> work_cnt (ths ! r) = 0"
    and "\<forall>t \<in> set ths. work_cnt t \<noteq> 0 \<Longrightarrow> work_cnt (ths ! r) \<le> work_cnt (ths ! 0)
      \<and> (\<forall>k < length ths. r < k \<longrightarrow> work_cnt (ths ! 0) \<le> work_cnt (ths ! k))"
proof -
  obtain t ts where ths: "ths = t # ts" using assms(1) by (cases ths) auto
  have r: "r = choose_thread (length ths) ts 1 (work_cnt t) 0" using assms(2) ths by simp
  note c = choose_tail [of 0 1 ts "length ths" r "work_cnt t", OF _ _ r, unfolded ths, simplified]
  show "r < length ths" using c ths by (auto split: if_splits)
  show "work_cnt (ths ! r) = 0" if "\<exists>t \<in> set ths. work_cnt t = 0"
    using c that unfolding ths by (auto split: if_splits)
  assume "\<forall>t \<in> set ths. work_cnt t \<noteq> 0"
  then show "work_cnt (ths ! r) \<le> work_cnt (ths ! 0) \<and> (\<forall>k < length ths. r < k \<longrightarrow> work_cnt (ths ! 0) \<le> work_cnt (ths ! k))"
    using c unfolding ths by (auto split: if_splits simp: not_less nth_Cons' less_imp_le)
qed

text \<open>The thread of a new engine. Among the running threads an idle one is chosen whenever there is one; otherwise the thread
  chosen has at most as much work as the first one, and all threads behind it have at least as much as the first
  one. (It need not be the one with the least work.) The engine is appended to its list, points to it, and
  nothing else changes.\<close>

theorem add_work_choice:
  assumes "cs_threads s = Some ths" "thread_cnt s = length ths" "ths \<noteq> []"
  shows "\<exists>s' r. xdma_thread_add_work e s = Ret s' \<and> r < length ths
    \<and> ((\<exists>t \<in> set ths. work_cnt t = 0) \<longrightarrow> work_cnt (ths ! r) = 0)
    \<and> ((\<forall>t \<in> set ths. work_cnt t \<noteq> 0) \<longrightarrow> work_cnt (ths ! r) \<le> work_cnt (ths ! 0)
         \<and> (\<forall>k < length ths. r < k \<longrightarrow> work_cnt (ths ! 0) \<le> work_cnt (ths ! k)))
    \<and> cs_threads s' = Some (ths[r := add_item e (ths ! r)]) \<and> cmplthp s' = (cmplthp s)(e \<mapsto> r)
    \<and> thread_cnt s' = thread_cnt s \<and> orphans s' = orphans s"
proof -
  let ?r = "choose_thread (length ths) ths 0 0 (length ths)"
  note c = choose_thread_cases [OF assms(3), of ?r, OF refl]
  have "xdma_thread_add_work e s = Ret (s\<lparr>cs_threads := Some (ths[?r := add_item e (ths ! ?r)]),
      intr_work_cpu := (intr_work_cpu s)(e := ?r), cmplthp := (cmplthp s)(e \<mapsto> ?r)\<rparr>)"
    using c(1) assms by (simp add: xdma_thread_add_work_def Let_def)
  then show ?thesis
    using c assms(2) by (intro exI [of _ ?r] exI) (rule conjI, assumption, simp)
qed

subsection \<open>Lists and pointers agree\<close>

definition threads_ok :: "thread_state \<Rightarrow> bool" where
  "threads_ok s \<longleftrightarrow> (\<exists>ths. cs_threads s = Some ths \<and> 0 < thread_cnt s \<and> thread_cnt s \<le> length ths
     \<and> (\<forall>t \<in> set ths. distinct (work_list t) \<and> work_cnt t = of_nat (length (work_list t)))
     \<and> (\<forall>e i. cmplthp s e = Some i \<longleftrightarrow> i < thread_cnt s \<and> e \<in> set (work_list (ths ! i))))"

lemma add_work_ok:
  assumes "threads_ok s" "cmplthp s e = None"
  shows "\<exists>s'. xdma_thread_add_work e s = Ret s' \<and> threads_ok s'"
proof -
  obtain ths where o: "cs_threads s = Some ths" "0 < thread_cnt s" "thread_cnt s \<le> length ths"
    "\<forall>t \<in> set ths. distinct (work_list t) \<and> work_cnt t = of_nat (length (work_list t))"
    "\<forall>e i. cmplthp s e = Some i \<longleftrightarrow> i < thread_cnt s \<and> e \<in> set (work_list (ths ! i))"
    using assms(1) by (auto simp: threads_ok_def)
  define r where "r = choose_thread (thread_cnt s) (take (thread_cnt s) ths) 0 0 (thread_cnt s)"
  have n: "length (take (thread_cnt s) ths) = thread_cnt s" "take (thread_cnt s) ths \<noteq> []" using o(2,3) by auto
  have r: "r < thread_cnt s" using choose_thread_cases(1) [OF n(2), of r] n(1) r_def by simp
  let ?t = "add_item e (ths ! r)"
  let ?s = "s\<lparr>cs_threads := Some (ths[r := ?t]), intr_work_cpu := (intr_work_cpu s)(e := r), cmplthp := (cmplthp s)(e \<mapsto> r)\<rparr>"
  have "xdma_thread_add_work e s = Ret ?s"
    using o(1,3) r by (simp add: xdma_thread_add_work_def Let_def r_def [symmetric])
  moreover have out: "e \<notin> set (work_list (ths ! i))" if "i < thread_cnt s" for i using o(5) assms(2) that by (metis option.distinct(1))
  then have "distinct (work_list ?t) \<and> work_cnt ?t = of_nat (length (work_list ?t))"
    using o(3,4) r by (auto simp: add_item_def)
  then have "\<forall>t \<in> set (ths[r := ?t]). distinct (work_list t) \<and> work_cnt t = of_nat (length (work_list t))"
    using o(4) set_update_subset_insert [of ths r ?t] by blast
  moreover have "\<forall>f i. ((cmplthp s)(e \<mapsto> r)) f = Some i \<longleftrightarrow> i < thread_cnt s \<and> f \<in> set (work_list (ths[r := ?t] ! i))"
    using o(3,5) r out by (auto simp: nth_list_update add_item_def)
  ultimately show ?thesis
    using o(2,3) by (intro exI [of _ ?s]) (simp add: threads_ok_def)
qed

lemma remove_work_ok:
  assumes "threads_ok s"
  shows "\<exists>s'. xdma_thread_remove_work e s = Ret s' \<and> threads_ok s'"
proof (cases "cmplthp s e")
  case None
  then have "s\<lparr>cmplthp := (cmplthp s)(e := None)\<rparr> = s" by (simp add: fun_upd_idem)
  then show ?thesis using None assms by (simp add: xdma_thread_remove_work_def Let_def)
next
  case (Some r)
  obtain ths where o: "cs_threads s = Some ths" "0 < thread_cnt s" "thread_cnt s \<le> length ths"
    "\<forall>t \<in> set ths. distinct (work_list t) \<and> work_cnt t = of_nat (length (work_list t))"
    "\<forall>e i. cmplthp s e = Some i \<longleftrightarrow> i < thread_cnt s \<and> e \<in> set (work_list (ths ! i))"
    using assms by (auto simp: threads_ok_def)
  have r: "r < thread_cnt s" "e \<in> set (work_list (ths ! r))" using o(5) Some by auto
  let ?t = "del_item e (ths ! r)"
  let ?s = "s\<lparr>cmplthp := (cmplthp s)(e := None), cs_threads := Some (ths[r := ?t])\<rparr>"
  have "xdma_thread_remove_work e s = Ret ?s"
    using o(1,3) r Some by (simp add: xdma_thread_remove_work_def Let_def)
  moreover have "distinct (work_list (ths ! r))" "work_cnt (ths ! r) = of_nat (length (work_list (ths ! r)))" using o(3,4) r(1) by auto
  then have "distinct (work_list ?t) \<and> work_cnt ?t = of_nat (length (work_list ?t))"
    using r(2) length_pos_if_in_set [OF r(2)] by (simp add: del_item_def length_remove1 of_nat_diff Suc_le_eq del: length_greater_0_conv)
  then have "\<forall>t \<in> set (ths[r := ?t]). distinct (work_list t) \<and> work_cnt t = of_nat (length (work_list t))"
    using o(4) set_update_subset_insert [of ths r ?t] by blast
  moreover have "e \<notin> set (work_list (ths ! i))" if "i < thread_cnt s" "i \<noteq> r" for i using o(5) Some that by (metis option.inject)
  then have "\<forall>f i. ((cmplthp s)(e := None)) f = Some i \<longleftrightarrow> i < thread_cnt s \<and> f \<in> set (work_list (ths[r := ?t] ! i))"
    using o(3,4,5) r by (auto simp: nth_list_update del_item_def)
  ultimately show ?thesis
    using o(2,3) by (intro exI [of _ ?s]) (simp add: threads_ok_def)
qed

lemma create_loop_fresh:
  assumes "create_loop created num cpus k ths = Ret (rv, k', ths')" "\<forall>t \<in> set ths. work_list t = [] \<and> work_cnt t = 0" "k \<le> length ths"
  shows "(\<forall>t \<in> set ths'. work_list t = [] \<and> work_cnt t = 0) \<and> k \<le> k' \<and> k' \<le> length ths' \<and> (cpus \<noteq> [] \<and> 0 \<le> rv \<longrightarrow> k < k')"
  using assms
proof (induction cpus arbitrary: k ths)
  case (Cons cpu cpus)
  let ?t = "(ths ! k)\<lparr>th_cpu := cpu, th_fproc := True\<rparr>"
  obtain rv1 t where t: "xdma_kthread_start (created k) ?t = (rv1, t)" by (cases "xdma_kthread_start (created k) ?t")
  have k: "k < length ths" using Cons.prems(1) by (auto split: if_splits)
  then have idle: "work_list (ths ! k) = [] \<and> work_cnt (ths ! k) = 0" using Cons.prems(2) by simp
  have "work_list t = [] \<and> work_cnt t = 0"
    using t idle by (auto simp: xdma_kthread_start_def Let_def split: if_splits)
  then have fresh: "\<forall>t \<in> set (ths[k := t]). work_list t = [] \<and> work_cnt t = 0"
    using Cons.prems(2) set_update_subset_insert [of ths k t] by blast
  consider "rv1 < 0" "rv = rv1" "k' = k" "ths' = ths[k := t]"
    | "0 \<le> rv1" "rv = 0" "k' = k + 1" "ths' = ths[k := t]"
    | "0 \<le> rv1" "create_loop created num cpus (k + 1) (ths[k := t]) = Ret (rv, k', ths')"
    using Cons.prems(1) t k by (auto simp: Let_def split: if_splits)
  then show ?case
  proof cases
    case 3
    from Cons.IH [OF 3(2) fresh] show ?thesis using k by auto
  qed (use fresh k in auto)
qed auto

text \<open>The states the module goes through: the threads are created once, engines come and go.\<close>

inductive working :: "thread_state \<Rightarrow> bool" where
  created: "xdma_threads_create allocated created cpus num s = Ret (0, s') \<Longrightarrow> thread_cnt s = 0 \<Longrightarrow> (\<And>e. cmplthp s e = None)
    \<Longrightarrow> cpus \<noteq> [] \<Longrightarrow> working s'"
| added: "working s \<Longrightarrow> cmplthp s e = None \<Longrightarrow> xdma_thread_add_work e s = Ret s' \<Longrightarrow> working s'"
| removed: "working s \<Longrightarrow> xdma_thread_remove_work e s = Ret s' \<Longrightarrow> working s'"

lemma create_ok:
  assumes "xdma_threads_create allocated created cpus num s = Ret (0, s')" "thread_cnt s = 0" "\<And>e. cmplthp s e = None" "cpus \<noteq> []"
  shows "threads_ok s'"
proof -
  obtain rv k ths where l: "create_loop created num cpus 0 (replicate num kthread_zero) = Ret (rv, k, ths)" "0 \<le> rv"
    "s' = s\<lparr>cs_threads := Some ths, thread_cnt := k\<rparr>"
    using assms(1,2)
    by (cases "create_loop created num cpus 0 (replicate num kthread_zero)") (auto simp: xdma_threads_create_def split: if_splits)
  have "\<forall>t \<in> set (replicate num kthread_zero). work_list t = [] \<and> work_cnt t = 0" by (simp add: kthread_zero_def)
  from create_loop_fresh [OF l(1) this] show ?thesis
    using l(2,3) assms(3,4) by (auto simp: threads_ok_def)
qed

lemma working_ok: "working s \<Longrightarrow> threads_ok s"
proof (induction rule: working.induct)
  case (created allocated created cpus num s s')
  then show ?case by (rule create_ok)
next
  case (added s e s')
  then show ?case using add_work_ok [OF added.IH added(2)] by auto
next
  case (removed s e s')
  then show ?case using remove_work_ok [OF removed.IH, of e] by auto
qed

text \<open>C26: Engines and threads agree. Once the polling threads have been created on at least one processor, and after any engines were
  assigned and removed: an engine is in the work list of a running thread exactly when it points to that
  thread, so that it is in one list at most and there only once; the counters are the lengths of the lists; and
  both operations are defined, for every engine that is not assigned and for every engine.\<close>

theorem thread_lists_agree:
  assumes "working s"
  shows "\<exists>ths. cs_threads s = Some ths \<and> 0 < thread_cnt s \<and> thread_cnt s \<le> length ths
    \<and> (\<forall>e i. i < thread_cnt s \<and> e \<in> set (work_list (ths ! i)) \<longleftrightarrow> cmplthp s e = Some i)
    \<and> (\<forall>i < thread_cnt s. distinct (work_list (ths ! i)) \<and> work_cnt (ths ! i) = of_nat (length (work_list (ths ! i))))
    \<and> (\<forall>e. cmplthp s e = None \<longrightarrow> is_ret (xdma_thread_add_work e s)) \<and> (\<forall>e. is_ret (xdma_thread_remove_work e s))"
proof -
  note ok = working_ok [OF assms]
  obtain ths where o: "cs_threads s = Some ths" "0 < thread_cnt s" "thread_cnt s \<le> length ths"
    "\<forall>t \<in> set ths. distinct (work_list t) \<and> work_cnt t = of_nat (length (work_list t))"
    "\<forall>e i. cmplthp s e = Some i \<longleftrightarrow> i < thread_cnt s \<and> e \<in> set (work_list (ths ! i))"
    using ok by (auto simp: threads_ok_def)
  have "is_ret (xdma_thread_add_work e s)" if "cmplthp s e = None" for e using add_work_ok [OF ok that] by auto
  moreover have "is_ret (xdma_thread_remove_work e s)" for e using remove_work_ok [OF ok] by (metis is_ret.simps(1))
  ultimately show ?thesis using o by (intro exI [of _ ths]) simp
qed

subsection \<open>Polling ends\<close>

lemma wb_loop_ends:
  assumes "late n" "k \<le> n" "expected \<noteq> 0"
  shows "\<exists>j. k \<le> j \<and> j \<le> n \<and> wb_loop wb late expected k = Some (wb j)
    \<and> (\<forall>i. k \<le> i \<and> i < j \<longrightarrow> wb i AND WB_ERR_MASK = 0 \<and> wb i < expected \<and> \<not> late i)
    \<and> (wb j AND WB_ERR_MASK \<noteq> 0 \<or> expected \<le> wb j \<or> late j)"
  using assms(2)
proof (induction "n - k" arbitrary: k rule: less_induct)
  case less
  have dead: "\<not> expected < wb k AND WB_COUNT_MASK" if "wb k < expected"
    using that word_and_le2 [of "wb k" WB_COUNT_MASK] by (meson leD le_less_trans less_imp_le not_less)
  show ?case
  proof (cases "wb k AND WB_ERR_MASK \<noteq> 0 \<or> expected \<le> wb k \<or> late k")
    case True
    then have "wb_loop wb late expected k = Some (wb k)"
      using dead by (subst wb_loop.simps) (auto simp: Let_def)
    then show ?thesis using True less.prems by (intro exI [of _ k]) auto
  next
    case False
    then have k: "k < n" using assms(1) less.prems by (metis le_neq_implies_less)
    have "wb_loop wb late expected k = wb_loop wb late expected (k + 1)"
      using False by (subst wb_loop.simps) (auto simp: Let_def)
    moreover have "n - (k + 1) < n - k" "k + 1 \<le> n" using k by simp_all
    from less.hyps [OF this] obtain j where j: "k + 1 \<le> j" "j \<le> n" "wb_loop wb late expected (k + 1) = Some (wb j)"
      "\<forall>i. k + 1 \<le> i \<and> i < j \<longrightarrow> wb i AND WB_ERR_MASK = 0 \<and> wb i < expected \<and> \<not> late i"
      "wb j AND WB_ERR_MASK \<noteq> 0 \<or> expected \<le> wb j \<or> late j"
      by blast
    moreover have "wb i AND WB_ERR_MASK = 0 \<and> wb i < expected \<and> \<not> late i" if "k \<le> i" "i < j" for i
      using that j(4) False by (cases "i = k") (auto simp: not_le)
    ultimately show ?thesis by (intro exI [of _ j]) auto
  qed
qed

text \<open>C27: Polling ends. When the clock passes the limit at some look, the service of an engine in polling mode returns; it serves the
  engine with the count of the first look that showed an error, enough descriptors or the end of the time (and
  not at all for a count of zero). The correction of a count that is too large at the end of the time is never
  needed.\<close>

theorem poll_serves_first_count:
  assumes "magic e = MAGIC_ENGINE" "expected \<noteq> 0" "late n"
  shows "\<exists>k \<le> n. engine_service_poll p hw wb late expected e =
        Some (if wb k = 0 then (0, e) else run_state (engine_service p hw (wb k)) e)
    \<and> (\<forall>i < k. wb i AND WB_ERR_MASK = 0 \<and> wb i < expected \<and> \<not> late i)
    \<and> (wb k AND WB_ERR_MASK \<noteq> 0 \<or> expected \<le> wb k \<or> late k)"
proof -
  obtain k where k: "k \<le> n" "wb_loop wb late expected 0 = Some (wb k)"
    "\<forall>i. 0 \<le> i \<and> i < k \<longrightarrow> wb i AND WB_ERR_MASK = 0 \<and> wb i < expected \<and> \<not> late i"
    "wb k AND WB_ERR_MASK \<noteq> 0 \<or> expected \<le> wb k \<or> late k"
    using wb_loop_ends [of late n 0 expected wb] assms(2,3) by auto
  show ?thesis
    using k assms by (intro exI [of _ k]) (simp add: engine_service_poll_def engine_service_wb_monitor_def)
qed

subsection \<open>A turn of a thread\<close>

lemma poll_returns:
  assumes "snd (watch e) n"
  shows "\<exists>r. engine_service_poll p hw (fst (watch e)) (snd (watch e)) expected en = Some r"
proof (cases "expected = 0")
  case True
  then show ?thesis by (simp add: engine_service_poll_def engine_service_wb_monitor_def)
next
  case False
  then show ?thesis
    using wb_loop_ends [of "snd (watch e)" n 0 expected "fst (watch e)"] assms
    by (auto simp: engine_service_poll_def engine_service_wb_monitor_def)
qed

lemma proc_items_cases:
  assumes "\<And>e. \<exists>n. snd (watch e) n" "distinct es"
  shows "\<exists>engs'. proc_items (xdma_thread_cmpl_status_proc p hw watch) es engs =
      Some (if \<forall>e \<in> set es. transfer_list (engs e) \<noteq> [] then Ret engs' else Ub OutOfBounds)
    \<and> (\<forall>e. e \<notin> set es \<longrightarrow> engs' e = engs e)"
  using assms(2)
proof (induction es arbitrary: engs)
  case (Cons e es)
  note step = Cons.IH and e = Cons.prems
  show ?case
  proof (cases "transfer_list (engs e)")
    case Nil
    then show ?thesis by (auto simp: xdma_thread_cmpl_status_proc_def)
  next
    case (Cons i rest)
    obtain n where "snd (watch e) n" using assms(1) by blast
    from poll_returns [where watch = watch, OF this] obtain r e1 where
      "engine_service_poll p hw (fst (watch e)) (snd (watch e)) (of_nat (xf_desc_cmpl_th (xfers (engs e) i))) (engs e) = Some (r, e1)"
      by (metis surj_pair)
    then have proc: "xdma_thread_cmpl_status_proc p hw watch e engs = Some (Ret (engs(e := e1)))"
      using Cons by (simp add: xdma_thread_cmpl_status_proc_def)
    obtain engs' where IH: "proc_items (xdma_thread_cmpl_status_proc p hw watch) es (engs(e := e1)) =
        Some (if \<forall>f \<in> set es. transfer_list ((engs(e := e1)) f) \<noteq> [] then Ret engs' else Ub OutOfBounds)"
      "\<forall>f. f \<notin> set es \<longrightarrow> engs' f = (engs(e := e1)) f"
      using step [OF distinct_tl [OF e, simplified], of "engs(e := e1)"] by blast
    have "(\<forall>f \<in> set es. transfer_list ((engs(e := e1)) f) \<noteq> []) \<longleftrightarrow> (\<forall>f \<in> set (e # es). transfer_list (engs f) \<noteq> [])"
      using e Cons by auto
    then show ?thesis using IH proc by (intro exI [of _ engs']) simp
  qed
qed simp


subsection \<open>Witnesses\<close>

definition demo_thread :: "nat list \<Rightarrow> xdma_kthread" where
  "demo_thread es = \<lparr>th_cpu = 0, th_task = True, th_schedule = False, work_cnt = of_nat (length es), work_list = es, th_fproc = True\<rparr>"

definition demo_threads :: thread_state where
  "demo_threads = \<lparr>cs_threads = Some [demo_thread [1, 2, 3], demo_thread [4], demo_thread [5, 6]], thread_cnt = 3,
     cmplthp = (\<lambda>_. None), intr_work_cpu = (\<lambda>_. 0), orphans = 0\<rparr>"

text \<open>With three, one and two engines on the threads, the third thread gets the new one, not the second.\<close>

theorem add_work_choice_witness:
  "\<exists>s'. xdma_thread_add_work 7 demo_threads = Ret s' \<and> thread_cnt s' = 3
    \<and> cs_threads s' = Some [demo_thread [1, 2, 3], demo_thread [4], demo_thread [5, 6, 7]]"
proof -
  have d: "cs_threads demo_threads = Some [demo_thread [1, 2, 3], demo_thread [4], demo_thread [5, 6]]" "thread_cnt demo_threads = 3"
    by (simp_all add: demo_threads_def)
  obtain s' where s': "xdma_thread_add_work 7 demo_threads = Ret s'" "thread_cnt s' = thread_cnt demo_threads"
    using add_work_choice [OF d(1), of 7] d(2) by auto
  moreover have "cs_threads s' = Some [demo_thread [1, 2, 3], demo_thread [4], demo_thread [5, 6, 7]]"
    using s'(1) by (auto simp: xdma_thread_add_work_def Let_def d) (auto simp: demo_thread_def add_item_def)
  ultimately show ?thesis using d(2) by simp
qed

definition no_threads :: thread_state where
  "no_threads = \<lparr>cs_threads = None, thread_cnt = 0, cmplthp = (\<lambda>_. None), intr_work_cpu = (\<lambda>_. 0), orphans = 0\<rparr>"

definition one_thread :: thread_state where
  "one_thread = no_threads\<lparr>cs_threads := Some [kthread_zero\<lparr>th_task := True, th_fproc := True\<rparr>], thread_cnt := 1\<rparr>"

theorem thread_lists_agree_witness:
  "\<exists>s' ths. xdma_thread_add_work 7 one_thread = Ret s' \<and> cs_threads s' = Some ths \<and> 7 \<in> set (work_list (ths ! 0))"
proof -
  have "xdma_threads_create True (\<lambda>_. True) [0] 1 no_threads = Ret (0, one_thread)"
    by (simp add: xdma_threads_create_def no_threads_def one_thread_def xdma_kthread_start_def kthread_zero_def)
  then have w: "working one_thread" by (rule working.created) (simp_all add: no_threads_def)
  define s' where "s' = one_thread\<lparr>cs_threads := Some [add_item 7 (kthread_zero\<lparr>th_task := True, th_fproc := True\<rparr>)],
    intr_work_cpu := (\<lambda>_. 0)(7 := 0), cmplthp := [7 \<mapsto> 0]\<rparr>"
  have s': "xdma_thread_add_work 7 one_thread = Ret s'" "cmplthp s' 7 = Some 0"
    by (simp_all add: s'_def one_thread_def no_threads_def xdma_thread_add_work_def Let_def)
  have "cmplthp one_thread 7 = None" by (simp add: one_thread_def no_threads_def)
  from working.added [OF w this s'(1)] have "working s'" .
  from thread_lists_agree [OF this] obtain ths where "cs_threads s' = Some ths"
    "\<forall>e i. i < thread_cnt s' \<and> e \<in> set (work_list (ths ! i)) \<longleftrightarrow> cmplthp s' e = Some i"
    by blast
  with s' show ?thesis by blast
qed

definition poll_params :: xdma_params where
  "poll_params = \<lparr>poll_mode = True, enable_st_c2h_credit = False, desc_blen_max = 0\<rparr>"

theorem poll_serves_first_count_witness:
  "engine_service_poll poll_params demo_hw (\<lambda>_. 0) (\<lambda>k. k = 5) 1 demo_engine = Some (0, demo_engine)"
proof -
  have "magic demo_engine = MAGIC_ENGINE" by (simp add: demo_engine_def MAGIC_ENGINE_def)
  from poll_serves_first_count [OF this, of 1 "\<lambda>k. k = 5" 5 poll_params demo_hw "\<lambda>_. 0"] show ?thesis by simp
qed


end
