(* ===== verification/Char_Devs.thy ===== *)
theory Char_Devs
  imports Remote_Map
begin

text \<open>
  The remaining character devices of the host's driver (\<open>xdma/linux-kernel/xdma/xdma_cdev.c\<close>, \<open>cdev_bypass.c\<close>, \<open>cdev_events.c\<close>,
  \<open>cdev_xvc.c\<close>). Shown: reading the bypass device yields the descriptors of the queue, as many as fit; writing it
  passes every word on in order; an event is delivered once; the JTAG port shifts the user's bit vectors word by word, with the right lengths, and
  returns the device's bits, but reads outside of its buffer for lengths that overflow the rounding to bytes.
\<close>

abbreviation ENODEV :: int where "ENODEV \<equiv> 19"
abbreviation ETIMEDOUT :: int where "ETIMEDOUT \<equiv> 110"
abbreviation ENOIOCTLCMD :: int where "ENOIOCTLCMD \<equiv> 515"

subsection \<open>Opening and closing\<close>

definition char_open :: "xdma_cdev \<Rightarrow> int \<times> xdma_cdev option" where
  "char_open xcdev = (if cd_magic xcdev \<noteq> MAGIC_CHAR then (- EINVAL, None) else (0, Some xcdev))"

definition char_close :: "xdma_cdev option \<Rightarrow> int" where
  "char_close private_data =
    (case private_data of
       None \<Rightarrow> - EINVAL
     | Some xcdev \<Rightarrow>
         if cd_magic xcdev \<noteq> MAGIC_CHAR then - EINVAL
         else case cd_dev_magic xcdev of None \<Rightarrow> - EINVAL | Some m \<Rightarrow> if m \<noteq> MAGIC_DEVICE then - EINVAL else 0)"

subsection \<open>The bypass device\<close>

text \<open>
  \<open>copy_desc_data\<close>: offset, the descriptors copied so far with their offsets, and the value; \<open>copied off\<close> tells whether the copy to that
  offset works. The loop goes on after a failure.
\<close>

fun copy_desc_data ::
  "(u64 \<Rightarrow> bool) \<Rightarrow> u64 \<Rightarrow> xdma_desc list \<Rightarrow> u64 \<times> (u64 \<times> xdma_desc) list \<times> int \<Rightarrow> u64 \<times> (u64 \<times> xdma_desc) list \<times> int" where
  "copy_desc_data copied lim [] (off, out, rc) = (off, out, rc)"
| "copy_desc_data copied lim (d # ds) (off, out, rc) =
    copy_desc_data copied lim ds
      (if off + 32 \<le> lim
       then (if \<not> copied off then (lim, out, - EINVAL) else (off + 32, out @ [(off, d)], rc))
       else (off, out, - ENOMEM))"

definition xfer_descs :: "xdma_engine \<Rightarrow> nat \<Rightarrow> xdma_desc list" where
  "xfer_descs e i = take (xf_desc_num (xfers e i)) (drop (xf_desc_index (xfers e i)) (desc e))"

fun bypass_walk ::
  "(u64 \<Rightarrow> bool) \<Rightarrow> u64 \<Rightarrow> xdma_desc list list \<Rightarrow> u64 \<times> (u64 \<times> xdma_desc) list \<times> int \<Rightarrow> u64 \<times> (u64 \<times> xdma_desc) list \<times> int" where
  "bypass_walk copied lim [] acc = acc"
| "bypass_walk copied lim (ds # dss) (off, out, rc) = bypass_walk copied lim dss (copy_desc_data copied lim ds (off, out, 0))"

definition char_bypass_read ::
  "xdma_dev \<Rightarrow> xdma_cdev \<Rightarrow> int \<Rightarrow> (u64 \<Rightarrow> bool) \<Rightarrow> bool \<Rightarrow> u64 \<Rightarrow> xdma_engine \<Rightarrow> int \<times> (u64 \<times> xdma_desc) list" where
  "char_bypass_read xdev xcdev bypass_bar_idx copied buf count e =
    (let rc = xcdev_check xdev xcdev True
     in if rc < 0 then (rc, [])
     else if count AND 3 \<noteq> 0 then (- EINVAL, [])
     else if \<not> buf then (- EINVAL, [])
     else if bypass_bar_idx < 0 then (- ENODEV, [])
     else case bypass_walk copied count (map (xfer_descs e) (transfer_list e)) (0, [], rc) of
            (off, out, rc) \<Rightarrow> (if rc < 0 then rc else int (unat off), out))"

text \<open>\<open>char_bypass_write\<close>: \<open>words off\<close> is the user's word at an offset, \<open>None\<close> if it cannot be read. All words go to one address.\<close>

function bypass_loop :: "(nat \<Rightarrow> u32 option) \<Rightarrow> nat \<Rightarrow> nat \<Rightarrow> int \<Rightarrow> u32 list \<Rightarrow> int \<times> u32 list" where
  "bypass_loop user count off rc ws =
    (if off < count
     then (case user off of
             None \<Rightarrow> (- EINVAL, ws)
           | Some w \<Rightarrow> bypass_loop user count (off + 4) (to_int (int (off + 4))) (ws @ [w]))
     else (rc, ws))"
  by auto
termination by (relation "measure (\<lambda>(_, count, off, _, _). count - off)") auto

declare bypass_loop.simps [simp del]

definition char_bypass_write ::
  "xdma_dev \<Rightarrow> xdma_cdev \<Rightarrow> int \<Rightarrow> u64 \<Rightarrow> u32 \<Rightarrow> (nat \<Rightarrow> u32 option) \<Rightarrow> bool \<Rightarrow> u64 \<Rightarrow> int \<times> (u64 \<times> u32) list" where
  "char_bypass_write xdev xcdev bypass_bar_idx bar bypass_offset user buf count =
    (let rc = xcdev_check xdev xcdev True
     in if rc < 0 then (rc, [])
     else if count AND 3 \<noteq> 0 then (- EINVAL, [])
     else if \<not> buf then (- EINVAL, [])
     else if bypass_bar_idx < 0 then (- ENODEV, [])
     else case bypass_loop user (unat count) 0 rc [] of
            (rc, ws) \<Rightarrow> (rc, map (Pair (bar + 4 * ucast bypass_offset)) ws))"

subsection \<open>Events\<close>

text \<open>
  An interrupt of the user's logic (\<open>user_irq_service\<close> without a handler of its own) and the two operations of the device. \<open>waited\<close> is what
  the wait returns, with the flag as it is then.
\<close>

definition user_irq_service :: "u8 \<Rightarrow> bool \<times> u8" where
  "user_irq_service events_irq = (if events_irq = 0 then (True, 1) else (False, events_irq))"

definition char_events_read ::
  "xdma_dev \<Rightarrow> xdma_cdev \<Rightarrow> bool \<Rightarrow> u64 \<Rightarrow> u64 \<Rightarrow> (u8 \<Rightarrow> int \<times> u8) \<Rightarrow> u8 \<Rightarrow> int \<times> u32 option \<times> u8" where
  "char_events_read xdev xcdev user_irq count pos waited events_irq =
    (let rv = xcdev_check xdev xcdev False
     in if rv < 0 then (rv, None, events_irq)
     else if \<not> user_irq then (- EINVAL, None, events_irq)
     else if count \<noteq> 4 then (- EPROTO, None, events_irq)
     else if pos AND 3 \<noteq> 0 then (- EPROTO, None, events_irq)
     else case waited events_irq of
            (rv, ev) \<Rightarrow> if rv = - ERESTARTSYS then (- ERESTARTSYS, None, ev) else (4, Some (ucast ev), 0))"

definition char_events_poll :: "xdma_dev \<Rightarrow> xdma_cdev \<Rightarrow> bool \<Rightarrow> u8 \<Rightarrow> int" where
  "char_events_poll xdev xcdev user_irq events_irq =
    (let rv = xcdev_check xdev xcdev False
     in if rv < 0 then rv else if \<not> user_irq then - EINVAL else if events_irq \<noteq> 0 then 0x41 else 0)"

subsection \<open>The JTAG port\<close>

text \<open>The registers, and what is done with them; the device answers a read depending on everything before it.\<close>

datatype xvc_reg = XVC_BAR_LENGTH_REG | XVC_BAR_TMS_REG | XVC_BAR_TDI_REG | XVC_BAR_TDO_REG | XVC_BAR_CTRL_REG

datatype xvc_event = XvcWrite xvc_reg u32 | XvcRead xvc_reg

type_synonym xvc_dev = "xvc_event list \<Rightarrow> xvc_reg \<Rightarrow> u32"

definition COMPLETION_LOOP_MAX :: nat where "COMPLETION_LOOP_MAX = 100"

fun xvc_poll :: "xvc_dev \<Rightarrow> nat \<Rightarrow> xvc_event list \<Rightarrow> bool \<times> xvc_event list" where
  "xvc_poll dev 0 log = (False, log)"
| "xvc_poll dev (Suc n) log =
    (let log1 = log @ [XvcRead XVC_BAR_CTRL_REG]
     in if dev log XVC_BAR_CTRL_REG AND 1 = 0 then (True, log1) else xvc_poll dev n log1)"

definition xvc_shift_bits :: "xvc_dev \<Rightarrow> u32 \<Rightarrow> u32 \<Rightarrow> xvc_event list \<Rightarrow> int \<times> u32 \<times> xvc_event list" where
  "xvc_shift_bits dev tms_bits tdi_bits log =
    (let log1 = log @ [XvcWrite XVC_BAR_TMS_REG tms_bits, XvcWrite XVC_BAR_TDI_REG tdi_bits, XvcWrite XVC_BAR_CTRL_REG 1]
     in case xvc_poll dev COMPLETION_LOOP_MAX log1 of
          (done, log2) \<Rightarrow> if \<not> done then (- ETIMEDOUT, 0, log2)
            else (0, dev log2 XVC_BAR_TDO_REG, log2 @ [XvcRead XVC_BAR_TDO_REG]))"

text \<open>
  The loop over the bits. \<open>buf\<close> is the one allocation of \<open>3 * tb\<close> bytes with the three vectors one after the other. The counters are 32 bits
  wide, and the loop need not end.
\<close>

partial_function (option) xvc_loop ::
  "xvc_dev \<Rightarrow> u32 \<Rightarrow> nat \<Rightarrow> mem \<Rightarrow> u32 \<Rightarrow> u32 \<Rightarrow> xvc_event list \<Rightarrow> (int \<times> mem \<times> xvc_event list) outcome option" where
  "xvc_loop dev total_bits tb buf bits bits_left log =
    (if \<not> bits < total_bits then Some (Ret (0, buf, log))
     else let at = unat (drop_bit 3 bits);
              shift_bytes = (if bits_left < 32 then unat (drop_bit 3 (bits_left + 7)) else 4);
              log1 = (if bits_left < 32 then log @ [XvcWrite XVC_BAR_LENGTH_REG bits_left] else log)
       in if 3 * tb < tb + at + shift_bytes then Some (Ub OutOfBounds)
       else case xvc_shift_bits dev (ucast (ld shift_bytes buf at)) (ucast (ld shift_bytes buf (tb + at))) log1 of
         (rv, tdo, log2) \<Rightarrow>
           if rv < 0 then Some (Ret (rv, buf, log2))
           else if 3 * tb < 2 * tb + at + shift_bytes then Some (Ub OutOfBounds)
           else xvc_loop dev total_bits tb (st shift_bytes buf (2 * tb + at) (ucast tdo)) (bits + 32) (bits_left - 32) log2)"

text \<open>
  The request, with the user's vectors; \<open>copied\<close> gives the bytes that the copies of request, TMS, TDI and result leave uncopied, \<open>junk\<close>
  is the content of the fresh allocation.
\<close>

record xvc_ioc =
  xvc_opcode :: u32
  xvc_length :: u32
  xvc_tms :: bytes
  xvc_tdi :: bytes

definition xvc_ioctl ::
  "xvc_dev \<Rightarrow> xdma_dev \<Rightarrow> xdma_cdev \<Rightarrow> bool \<Rightarrow> nat \<times> nat \<times> nat \<times> nat \<Rightarrow> (u32 \<Rightarrow> bool) \<Rightarrow> mem \<Rightarrow> xvc_ioc
    \<Rightarrow> (int \<times> bytes option \<times> xvc_event list) outcome option" where
  "xvc_ioctl dev xdev xcdev known copied kmalloc_ok junk ioc =
    (let rv = xcdev_check xdev xcdev False;
         total_bits = xvc_length ioc; total_bytes = drop_bit 3 (total_bits + 7); tb = unat total_bytes
     in if rv < 0 then Some (Ret (rv, None, []))
     else if \<not> known then Some (Ret (- ENOIOCTLCMD, None, []))
     else if fst copied \<noteq> 0 then Some (Ret (int (fst copied), None, []))
     else if xvc_opcode ioc \<noteq> 1 \<and> xvc_opcode ioc \<noteq> 2 then Some (Ret (- EINVAL, None, []))
     else if \<not> kmalloc_ok (total_bytes * 3) then Some (Ret (- ENOMEM, None, []))
     else if fst (snd copied) \<noteq> 0 then Some (Ret (int (fst (snd copied)), None, []))
     else if fst (snd (snd copied)) \<noteq> 0 then Some (Ret (int (fst (snd (snd copied))), None, []))
     else let buf = st_bytes (st_bytes junk 0 (take tb (xvc_tms ioc))) tb (take tb (xvc_tdi ioc));
              log = (if total_bits \<ge> 32 then [XvcWrite XVC_BAR_LENGTH_REG 0x20] else [])
       in case xvc_loop dev total_bits tb buf 0 total_bits log of
            None \<Rightarrow> None
          | Some (Ub u) \<Rightarrow> Some (Ub u)
          | Some (Ret (rv, buf1, log1)) \<Rightarrow>
              if rv < 0 then Some (Ret (rv, None, log1))
              else let tdo = ld_bytes buf1 (if xvc_opcode ioc = 2 then tb else 2 * tb) tb
                in Some (Ret (int (snd (snd (snd copied))), Some tdo, log1)))"

subsection \<open>The bypass device shows the queue\<close>

text \<open>The state of the copy after the first \<open>n\<close> descriptors of \<open>ds\<close>.\<close>

definition copied_upto :: "xdma_desc list \<Rightarrow> nat \<Rightarrow> int \<Rightarrow> u64 \<times> (u64 \<times> xdma_desc) list \<times> int" where
  "copied_upto ds n rc = (of_nat (32 * n), map (\<lambda>k. (of_nat (32 * k), ds ! k)) [0..<n], rc)"

lemma copy_desc_data_upto:
  assumes "\<And>off. copied off" "unat lim + 32 < 2 ^ 64" "room = unat lim div 32" "all = pre @ ds @ post"
  shows "copy_desc_data copied lim ds (copied_upto all (min (length pre) room) rc) =
    copied_upto all (min (length pre + length ds) room) (if ds = [] \<or> length pre + length ds \<le> room then rc else - ENOMEM)"
  using assms(4)
proof (induction ds arbitrary: pre rc)
  case (Cons d ds)
  let ?n = "min (length pre) room"
  have room: "32 * ?n \<le> unat lim" using assms(3) by simp
  have w: "unat (of_nat (32 * ?n) + 32 :: u64) = 32 * ?n + 32"
    using room assms(2) by (simp add: unat_word_ariths unat_of_nat)
  have fits: "of_nat (32 * ?n) + 32 \<le> lim \<longleftrightarrow> length pre < room"
    unfolding word_le_nat_alt w using assms(3) by auto
  have "copy_desc_data copied lim (d # ds) (copied_upto all ?n rc) =
      copy_desc_data copied lim ds (copied_upto all (min (length (pre @ [d])) room) (if length pre < room then rc else - ENOMEM))"
  proof (cases "length pre < room")
    case True
    then have "copied_upto all (min (length (pre @ [d])) room) rc =
        (of_nat (32 * ?n) + 32, map (\<lambda>k. (of_nat (32 * k), all ! k)) [0..<?n] @ [(of_nat (32 * ?n), d)], rc)"
      using Cons.prems by (simp add: copied_upto_def nth_append algebra_simps)
    then show ?thesis using True fits assms(1) by (simp add: copied_upto_def add.commute)
  next
    case False
    then have "min (length (pre @ [d])) room = ?n" by simp
    then show ?thesis using False fits unfolding copied_upto_def by (simp only: copy_desc_data.simps if_False)
  qed
  also have "\<dots> = copied_upto all (min (length (pre @ [d]) + length ds) room)
      (if ds = [] \<or> length (pre @ [d]) + length ds \<le> room then (if length pre < room then rc else - ENOMEM) else - ENOMEM)"
    using Cons.IH [of "pre @ [d]"] Cons.prems by simp
  finally show ?case by (auto simp: Suc_le_eq)
qed (simp add: copied_upto_def)

lemma bypass_walk_upto:
  assumes "\<And>off. copied off" "unat lim + 32 < 2 ^ 64" "room = unat lim div 32" "all = pre @ concat dss"
    and "\<forall>ds \<in> set dss. ds \<noteq> []" "dss \<noteq> []"
  shows "bypass_walk copied lim dss (copied_upto all (min (length pre) room) rc) =
    copied_upto all (min (length all) room) (if length all \<le> room then 0 else - ENOMEM)"
  using assms(4-)
proof (induction dss arbitrary: pre rc)
  case (Cons ds dss)
  have step: "bypass_walk copied lim (ds # dss) (copied_upto all (min (length pre) room) rc) =
      bypass_walk copied lim dss (copied_upto all (min (length (pre @ ds)) room) (if length pre + length ds \<le> room then 0 else - ENOMEM))"
    using copy_desc_data_upto [where rc = 0, OF assms(1-3), of all pre ds "concat dss"] Cons.prems
    by (simp add: copied_upto_def)
  show ?case
  proof (cases "dss = []")
    case True
    then show ?thesis using step Cons.prems(1) by simp
  next
    case False
    then show ?thesis using step Cons.IH [of "pre @ ds"] Cons.prems by simp
  qed
qed simp

text \<open>Reading the bypass device. When the transfers in the engine's queue have descriptors and the user's buffer can be written, the
  read copies the descriptors of all queued transfers in order, one after the other, as many as fit into the buffer; it returns the
  number of bytes when all of them fit and \<open>-ENOMEM\<close> otherwise.\<close>

theorem bypass_read_shows_queue:
  assumes "xcdev_check xdev xcdev True = 0" "count AND 3 = 0" "0 \<le> bar" "\<And>off. copied off" "unat count + 32 < 2 ^ 64"
    and "transfer_list e \<noteq> []" "\<forall>i \<in> set (transfer_list e). xfer_descs e i \<noteq> []" "ds = concat (map (xfer_descs e) (transfer_list e))"
  shows "char_bypass_read xdev xcdev bar copied True count e =
    (if 32 * length ds \<le> unat count then 32 * int (length ds) else - ENOMEM,
     map (\<lambda>k. (of_nat (32 * k), ds ! k)) [0..<min (length ds) (unat count div 32)])"
proof -
  have "bypass_walk copied count (map (xfer_descs e) (transfer_list e)) (copied_upto ds (min (length []) (unat count div 32)) 0) =
      copied_upto ds (min (length ds) (unat count div 32)) (if length ds \<le> unat count div 32 then 0 else - ENOMEM)"
    using bypass_walk_upto [where pre = "[]" and rc = 0, OF assms(4,5) refl, of ds "map (xfer_descs e) (transfer_list e)"] assms(6-8)
    by simp
  moreover have "length ds \<le> unat count div 32 \<longleftrightarrow> 32 * length ds \<le> unat count" by auto
  moreover have "unat (of_nat (32 * length ds) :: u64) = 32 * length ds" if "32 * length ds \<le> unat count"
    using that assms(5) by (simp add: unat_of_nat del: of_nat_mult)
  ultimately show ?thesis
    using assms(1-3) by (simp add: char_bypass_read_def copied_upto_def Let_def)
qed

lemma bypass_loop_all:
  assumes "\<And>k. k < n \<Longrightarrow> user (4 * k) = Some (f k)" "j \<le> n"
  shows "bypass_loop user (4 * n) (4 * j) rc (map f [0..<j]) = (if j < n then to_int (int (4 * n)) else rc, map f [0..<n])"
  using assms(2)
proof (induction "n - j" arbitrary: j rc rule: less_induct)
  case less
  show ?case
  proof (cases "j < n")
    case True
    then have "bypass_loop user (4 * n) (4 * j) rc (map f [0..<j]) =
        bypass_loop user (4 * n) (4 * (j + 1)) (to_int (int (4 * (j + 1)))) (map f [0..<j + 1])"
      using assms(1) by (subst bypass_loop.simps) (simp add: algebra_simps)
    also have "\<dots> = (if j + 1 < n then to_int (int (4 * n)) else to_int (int (4 * (j + 1))), map f [0..<n])"
      using True by (intro less.hyps) auto
    finally show ?thesis using True by (auto simp: not_less le_Suc_eq)
  next
    case False
    then show ?thesis using less.prems by (subst bypass_loop.simps) simp
  qed
qed

text \<open>Writing the bypass device passes all words of the buffer on, in order.\<close>

theorem bypass_write_passes_words:
  assumes "xcdev_check xdev xcdev True = 0" "unat count = 4 * n" "0 \<le> idx" "\<And>k. k < n \<Longrightarrow> user (4 * k) = Some (f k)"
  shows "char_bypass_write xdev xcdev idx bar off user True count =
    (to_int (int (4 * n)), map (\<lambda>k. (bar + 4 * ucast off, f k)) [0..<n])"
proof -
  have "count AND 3 = take_bit 2 count" by (simp add: take_bit_eq_mask mask_eq_decr_exp)
  moreover have "unat (take_bit 2 count) = unat count mod 4" by (simp only: unsigned_take_bit_eq) (simp add: take_bit_eq_mod)
  then have "take_bit 2 count = 0" using assms(2) by (simp add: unat_eq_zero)
  ultimately show ?thesis
    using assms(1,3) bypass_loop_all [of n user f 0 0, OF assms(4)] 
    by (simp add: char_bypass_write_def Let_def assms(2) to_int_def)
qed

text \<open>An interrupt while nobody reads is kept, further ones are not counted, and the next read takes it and clears it.\<close>

lemma event_delivered_once:
  assumes "xcdev_check xdev xcdev False = 0" "pos AND 3 = 0" "\<And>ev. ev \<noteq> 0 \<Longrightarrow> waited ev = (0, ev)"
  shows "char_events_read xdev xcdev True 4 pos waited (snd (user_irq_service (snd (user_irq_service 0)))) = (4, Some 1, 0)"
  using assms by (simp add: char_events_read_def user_irq_service_def Let_def)

subsection \<open>The JTAG port shifts the vectors\<close>

text \<open>What the device is told to shift, read off the register writes: length, TMS word and TDI word at each start.\<close>

fun shifts :: "u32 \<Rightarrow> u32 \<Rightarrow> u32 \<Rightarrow> xvc_event list \<Rightarrow> (u32 \<times> u32 \<times> u32) list" where
  "shifts l m d [] = []"
| "shifts l m d (XvcRead r # es) = shifts l m d es"
| "shifts l m d (XvcWrite r v # es) =
    (case r of
       XVC_BAR_LENGTH_REG \<Rightarrow> shifts v m d es
     | XVC_BAR_TMS_REG \<Rightarrow> shifts l v d es
     | XVC_BAR_TDI_REG \<Rightarrow> shifts l m v es
     | XVC_BAR_CTRL_REG \<Rightarrow> (l, m, d) # shifts l m d es
     | XVC_BAR_TDO_REG \<Rightarrow> shifts l m d es)"

text \<open>The bits the device has answered, in order.\<close>

fun answers :: "xvc_dev \<Rightarrow> xvc_event list \<Rightarrow> xvc_event list \<Rightarrow> u32 list" where
  "answers dev log [] = []"
| "answers dev log (ev # es) =
    (if ev = XvcRead XVC_BAR_TDO_REG then [dev log XVC_BAR_TDO_REG] else []) @ answers dev (log @ [ev]) es"

definition xvc_ready :: "xvc_dev \<Rightarrow> bool" where
  "xvc_ready dev \<longleftrightarrow> (\<forall>log. fst (xvc_poll dev COMPLETION_LOOP_MAX log))"

lemma xvc_poll_log:
  "\<exists>k. snd (xvc_poll dev n log) = log @ replicate k (XvcRead XVC_BAR_CTRL_REG)"
proof (induction n arbitrary: log)
  case (Suc n)
  obtain k where "snd (xvc_poll dev n (log @ [XvcRead XVC_BAR_CTRL_REG])) =
      log @ [XvcRead XVC_BAR_CTRL_REG] @ replicate k (XvcRead XVC_BAR_CTRL_REG)"
    using Suc [of "log @ [XvcRead XVC_BAR_CTRL_REG]"] by auto
  then show ?case
    by (cases "dev log XVC_BAR_CTRL_REG AND 1 = 0") (auto simp: Let_def intro: exI [of _ 1] exI [of _ "Suc k"])
qed (auto intro: exI [of _ 0])

lemma shifts_reads [simp]: "shifts l m d (replicate k (XvcRead r) @ es) = shifts l m d es"
  by (induction k) simp_all

lemma answers_append: "answers dev log (es @ fs) = answers dev log es @ answers dev (log @ es) fs"
  by (induction es arbitrary: log) simp_all

lemma answers_reads [simp]: "r \<noteq> XVC_BAR_TDO_REG \<Longrightarrow> answers dev log (replicate k (XvcRead r)) = []"
  by (induction k arbitrary: log) simp_all

text \<open>One word: the device sees one shift, and its answer is the word returned.\<close>

lemma xvc_shift_bits_ready:
  assumes "xvc_ready dev"
  shows "\<exists>es tdo. xvc_shift_bits dev m d log = (0, tdo, log @ es) \<and> answers dev log es = [tdo]
    \<and> (\<forall>l m' d' fs. shifts l m' d' (es @ fs) = (l, m, d) # shifts l m d fs)"
proof -
  let ?w = "[XvcWrite XVC_BAR_TMS_REG m, XvcWrite XVC_BAR_TDI_REG d, XvcWrite XVC_BAR_CTRL_REG 1]"
  obtain k where k: "snd (xvc_poll dev COMPLETION_LOOP_MAX (log @ ?w)) = (log @ ?w) @ replicate k (XvcRead XVC_BAR_CTRL_REG)"
    using xvc_poll_log by blast
  moreover have "fst (xvc_poll dev COMPLETION_LOOP_MAX (log @ ?w))" using assms by (simp add: xvc_ready_def)
  ultimately have "xvc_poll dev COMPLETION_LOOP_MAX (log @ ?w) = (True, (log @ ?w) @ replicate k (XvcRead XVC_BAR_CTRL_REG))"
    by (metis prod.collapse)
  then show ?thesis
    by (intro exI [of _ "?w @ replicate k (XvcRead XVC_BAR_CTRL_REG) @ [XvcRead XVC_BAR_TDO_REG]"] exI)
       (auto simp: xvc_shift_bits_def answers_append)
qed

text \<open>The words of a vector of \<open>nb\<close> bits: their lengths in bits and bytes, and what is to be shifted.\<close>

definition xvc_len :: "nat \<Rightarrow> nat \<Rightarrow> nat" where
  "xvc_len nb k = min 32 (nb - 32 * k)"

definition xvc_size :: "nat \<Rightarrow> nat \<Rightarrow> nat" where
  "xvc_size nb k = (xvc_len nb k + 7) div 8"

definition xvc_word :: "nat \<Rightarrow> nat \<Rightarrow> mem \<Rightarrow> nat \<Rightarrow> u32 \<times> u32 \<times> u32" where
  "xvc_word nb tb buf k = (of_nat (xvc_len nb k), ucast (ld (xvc_size nb k) buf (4 * k)),
     ucast (ld (xvc_size nb k) buf (tb + 4 * k)))"

definition xvc_bytes :: "nat \<Rightarrow> u32 \<Rightarrow> bytes" where
  "xvc_bytes n w = map (\<lambda>j. ucast (drop_bit (8 * j) w)) [0..<n]"

lemma ld_bytes_st_word:
  assumes "n \<le> 4"
  shows "ld_bytes (st n buf a (ucast (w :: u32))) a n = xvc_bytes n w"
proof -
  have "(ucast (drop_bit (8 * j) (ucast w :: u64)) :: u8) = ucast (drop_bit (8 * j) w)" if "j < 4" for j
    using that by (intro bit_word_eqI) (auto simp: bit_simps)
  then show ?thesis using assms by (intro nth_equalityI) (auto simp: xvc_bytes_def st_def)
qed

lemma xvc_size_bound:
  assumes "32 * k < nb"
  shows "4 * k + xvc_size nb k \<le> (nb + 7) div 8" "xvc_size nb k \<le> 4"
    "nb \<le> 32 * (k + 1) \<Longrightarrow> 4 * k + xvc_size nb k = (nb + 7) div 8" "32 * (k + 1) \<le> nb \<Longrightarrow> xvc_size nb k = 4"
  using assms by (auto simp: xvc_size_def xvc_len_def)

lemma xvc_counters:
  assumes "32 * k < nb" "nb \<le> 2 ^ 32 - 32"
  shows "(of_nat (32 * k) :: u32) < of_nat nb" "unat (drop_bit 3 (of_nat (32 * k) :: u32)) = 4 * k"
    "(of_nat (nb - 32 * k) :: u32) < 32 \<longleftrightarrow> nb - 32 * k < 32"
    "nb - 32 * k < 32 \<Longrightarrow> unat (drop_bit 3 ((of_nat (nb - 32 * k) :: u32) + 7)) = xvc_size nb k"
proof -
  have u: "unat (of_nat (32 * k) :: u32) = 32 * k" "unat (of_nat nb :: u32) = nb" "unat (of_nat (nb - 32 * k) :: u32) = nb - 32 * k"
    using assms by (simp_all add: unat_of_nat del: of_nat_mult of_nat_diff)
  show "(of_nat (32 * k) :: u32) < of_nat nb" unfolding word_less_nat_alt u using assms(1) .
  show "unat (drop_bit 3 (of_nat (32 * k) :: u32)) = 4 * k"
    unfolding unat_drop_bit_eq u by (simp add: drop_bit_eq_div)
  show "(of_nat (nb - 32 * k) :: u32) < 32 \<longleftrightarrow> nb - 32 * k < 32" unfolding word_less_nat_alt u by simp
  assume l: "nb - 32 * k < 32"
  then have "unat ((of_nat (nb - 32 * k) :: u32) + 7) = nb - 32 * k + 7"
    by (subst unat_word_ariths(1)) (simp only: u, simp)
  then show "unat (drop_bit 3 ((of_nat (nb - 32 * k) :: u32) + 7)) = xvc_size nb k"
    unfolding unat_drop_bit_eq using l by (simp add: drop_bit_eq_div xvc_size_def xvc_len_def)
qed

text \<open>One round of the loop.\<close>

lemma xvc_loop_round:
  assumes "xvc_ready dev" "32 * k < nb" "nb \<le> 2 ^ 32 - 32" "tb = (nb + 7) div 8" "left = of_nat (nb - 32 * k)"
    and "l = 32 \<or> nb - 32 * k < 32" "n = xvc_size nb k"
  shows "\<exists>es tdo l' m' d'. xvc_loop dev (of_nat nb) tb buf (of_nat (32 * k)) left log =
      xvc_loop dev (of_nat nb) tb (st n buf (2 * tb + 4 * k) (ucast tdo)) (of_nat (32 * (k + 1))) (left - 32) (log @ es)
    \<and> answers dev log es = [tdo]
    \<and> (\<forall>m d fs. shifts l m d (es @ fs) = xvc_word nb tb buf k # shifts l' m' d' fs) \<and> (32 \<le> nb - 32 * k \<longrightarrow> l' = 32)"
proof -
  note c = xvc_counters [OF assms(2,3)] and b = xvc_size_bound [OF assms(2)]
  let ?short = "nb - 32 * k < 32"
  let ?pre = "if ?short then [XvcWrite XVC_BAR_LENGTH_REG left] else []"
  obtain w_len w_tms w_tdi where w: "xvc_word nb tb buf k = (w_len, w_tms, w_tdi)" by (cases "xvc_word nb tb buf k")
  have w': "w_len = of_nat (xvc_len nb k)" "w_tms = ucast (ld n buf (4 * k))" "w_tdi = ucast (ld n buf (tb + 4 * k))"
    using w assms(7) by (simp_all add: xvc_word_def)
  obtain es tdo where s: "xvc_shift_bits dev w_tms w_tdi (log @ ?pre) = (0, tdo, (log @ ?pre) @ es)"
    "answers dev (log @ ?pre) es = [tdo]" "\<forall>l m' d' fs. shifts l m' d' (es @ fs) = (l, w_tms, w_tdi) # shifts l w_tms w_tdi fs"
    using xvc_shift_bits_ready [OF assms(1)] by blast
  have n: "(if left < 32 then unat (drop_bit 3 (left + 7)) else 4) = n"
    using c(3,4) b(4) assms(5,7) by (auto simp: not_less)
  have log1: "(if left < 32 then log @ [XvcWrite XVC_BAR_LENGTH_REG left] else log) = log @ ?pre" using c(3) assms(5) by simp
  have fit: "\<not> 3 * tb < tb + 4 * k + n" "\<not> 3 * tb < 2 * tb + 4 * k + n" using b(1) assms(4,7) by simp_all
  have step: "of_nat (32 * k) + 32 = (of_nat (32 * (k + 1)) :: u32)" by simp
  have "xvc_loop dev (of_nat nb) tb buf (of_nat (32 * k)) left log =
      xvc_loop dev (of_nat nb) tb (st n buf (2 * tb + 4 * k) (ucast tdo)) (of_nat (32 * (k + 1))) (left - 32) ((log @ ?pre) @ es)"
    using c(1) fit
    by (subst xvc_loop.simps) (simp only: Let_def n log1 c(2) w'(2,3) [symmetric] s(1) step prod.case if_False not_True_eq_False simp_thms less_irrefl)
  moreover have "answers dev log (?pre @ es) = [tdo]" using s(2) by (simp add: answers_append)
  moreover have "shifts l m d ((?pre @ es) @ fs) = xvc_word nb tb buf k # shifts (if ?short then left else l) w_tms w_tdi fs" for m d fs
    using s(3) w w'(1) assms(5,6) by (cases ?short) (auto simp: xvc_len_def)
  moreover have "32 \<le> nb - 32 * k \<longrightarrow> (if ?short then left else l) = 32" using assms(6) by auto
  ultimately show ?thesis by (intro exI [of _ "?pre @ es"] exI [of _ tdo] exI [of _ "if ?short then left else l"] exI [of _ w_tms] exI [of _ w_tdi]) (simp only: append_assoc simp_thms)
qed

text \<open>The whole loop, from the \<open>k\<close>-th word on.\<close>

definition word_run :: "xvc_dev \<Rightarrow> nat \<Rightarrow> nat \<Rightarrow> nat \<Rightarrow> mem \<Rightarrow> xvc_event list \<Rightarrow> mem \<Rightarrow> xvc_event list \<Rightarrow> bool" where
  "word_run dev nb tb k buf log buf' es \<longleftrightarrow> length (answers dev log es) = (nb + 31) div 32 - k
     \<and> (\<forall>a < 2 * tb + 4 * k. buf' a = buf a)
     \<and> ld_bytes buf' (2 * tb + 4 * k) (tb - 4 * k) =
         concat (map2 (\<lambda>i w. xvc_bytes (xvc_size nb i) w) [k..<(nb + 31) div 32] (answers dev log es))"

lemma word_run_end:
  assumes "tb = (nb + 7) div 8"
  shows "word_run dev nb tb ((nb + 31) div 32) buf log buf []"
proof -
  have "tb - 4 * ((nb + 31) div 32) = 0" using assms by simp
  then show ?thesis by (simp add: word_run_def)
qed

lemma word_run_step:
  assumes "32 * k < nb" "tb = (nb + 7) div 8" "n = xvc_size nb k" "answers dev log es = [tdo]"
    and "word_run dev nb tb (k + 1) (st n buf (2 * tb + 4 * k) (ucast tdo)) (log @ es) buf' fs"
  shows "word_run dev nb tb k buf log buf' (es @ fs)"
proof -
  note b = xvc_size_bound [OF assms(1), folded assms(3)] and r = assms(5) [unfolded word_run_def]
  let ?wn = "(nb + 31) div 32" and ?buf = "st n buf (2 * tb + 4 * k) (ucast tdo)"
  have k: "k < ?wn" using assms(1) by simp
  have same: "buf' a = ?buf a" if "a < 2 * tb + 4 * k + n" for a using r that b(2) by simp
  have "ld_bytes buf' (2 * tb + 4 * k) n = ld_bytes ?buf (2 * tb + 4 * k) n"
    by (rule nth_equalityI) (simp_all add: same)
  then have first: "ld_bytes buf' (2 * tb + 4 * k) n = xvc_bytes n tdo" using ld_bytes_st_word b(2) by simp
  have rest: "ld_bytes buf' (2 * tb + 4 * k + n) (tb - 4 * k - n) =
      concat (map2 (\<lambda>i w. xvc_bytes (xvc_size nb i) w) [k + 1..<?wn] (answers dev (log @ es) fs))"
  proof (cases "32 * (k + 1) \<le> nb")
    case True
    then show ?thesis using r b(4) by (simp add: algebra_simps)
  next
    case False
    then have "tb - 4 * k - n = 0" "[k + 1..<?wn] = []" using b(3) assms(2) by simp_all
    then show ?thesis by (simp only: ld_bytes_0) simp
  qed
  have split: "tb - 4 * k = n + (tb - 4 * k - n)" using b(1) assms(2) by simp
  have "ld_bytes buf' (2 * tb + 4 * k) (tb - 4 * k) = xvc_bytes n tdo @ ld_bytes buf' (2 * tb + 4 * k + n) (tb - 4 * k - n)"
    by (subst split) (simp only: ld_bytes_append first)
  moreover have "[k..<?wn] = k # [k + 1..<?wn]" using k by (simp add: upt_conv_Cons)
  moreover have "answers dev log (es @ fs) = tdo # answers dev (log @ es) fs" using assms(4) by (simp add: answers_append)
  ultimately have "ld_bytes buf' (2 * tb + 4 * k) (tb - 4 * k) =
      concat (map2 (\<lambda>i w. xvc_bytes (xvc_size nb i) w) [k..<?wn] (answers dev log (es @ fs)))"
    using rest assms(3) by simp
  moreover have "\<forall>a < 2 * tb + 4 * k. buf' a = buf a" using same by (simp add: st_outside)
  moreover have "length (answers dev log (es @ fs)) = ?wn - k" using r k assms(4) by (simp add: answers_append)
  ultimately show ?thesis by (simp add: word_run_def)
qed

lemma xvc_loop_words:
  assumes "xvc_ready dev" "nb \<le> 2 ^ 32 - 32" "tb = (nb + 7) div 8" "k \<le> (nb + 31) div 32"
    and "32 * k < nb \<longrightarrow> left = of_nat (nb - 32 * k) \<and> (l = 32 \<or> nb - 32 * k < 32)"
  shows "\<exists>buf' es. xvc_loop dev (of_nat nb) tb buf (of_nat (32 * k)) left log = Some (Ret (0, buf', log @ es))
    \<and> shifts l m d es = map (xvc_word nb tb buf) [k..<(nb + 31) div 32] \<and> word_run dev nb tb k buf log buf' es"
  using assms(4,5)
proof (induction "(nb + 31) div 32 - k" arbitrary: k buf left l m d log rule: less_induct)
  case less
  let ?wn = "(nb + 31) div 32"
  show ?case
  proof (cases "32 * k < nb")
    case False
    then have k: "k = ?wn" using less.prems(1) by simp
    then have lt: "32 * k < 2 ^ 32" using assms(2) by simp
    have "unat (of_nat (32 * k) :: u32) = 32 * k" using lt by (simp add: unat_of_nat del: of_nat_mult)
    moreover have "unat (of_nat nb :: u32) = nb" using assms(2) by (simp add: unat_of_nat)
    ultimately have "\<not> (of_nat (32 * k) :: u32) < of_nat nb" unfolding word_less_nat_alt using False by simp
    then have "xvc_loop dev (of_nat nb) tb buf (of_nat (32 * k)) left log = Some (Ret (0, buf, log))"
      by (subst xvc_loop.simps) simp
    then show ?thesis using word_run_end [OF assms(3), of dev buf log] k by (intro exI [of _ buf] exI [of _ "[]"]) simp
  next
    case True
    define n where "n = xvc_size nb k"
    obtain es tdo l' m' d' where
      r: "xvc_loop dev (of_nat nb) tb buf (of_nat (32 * k)) left log =
        xvc_loop dev (of_nat nb) tb (st n buf (2 * tb + 4 * k) (ucast tdo)) (of_nat (32 * (k + 1))) (left - 32) (log @ es)"
      "answers dev log es = [tdo]" "\<forall>m d fs. shifts l m d (es @ fs) = xvc_word nb tb buf k # shifts l' m' d' fs"
      "32 \<le> nb - 32 * k \<longrightarrow> l' = 32"
      using xvc_loop_round [OF assms(1) True assms(2,3), of left l n buf log] less.prems(2) True n_def by blast
    let ?buf = "st n buf (2 * tb + 4 * k) (ucast tdo)"
    have k: "k < ?wn" using True by simp
    have go: "32 * (k + 1) < nb \<longrightarrow> left - 32 = of_nat (nb - 32 * (k + 1)) \<and> (l' = 32 \<or> nb - 32 * (k + 1) < 32)"
      using less.prems(2) r(4) by (auto simp: of_nat_diff)
    have "?wn - (k + 1) < ?wn - k" "k + 1 \<le> ?wn" using k by linarith+
    from less.hyps [OF this go] obtain buf' fs where i: "xvc_loop dev (of_nat nb) tb ?buf (of_nat (32 * (k + 1))) (left - 32) (log @ es) = Some (Ret (0, buf', (log @ es) @ fs))"
      "shifts l' m' d' fs = map (xvc_word nb tb ?buf) [k + 1..<?wn]" "word_run dev nb tb (k + 1) ?buf (log @ es) buf' fs"
      by blast
    have "xvc_word nb tb ?buf j = xvc_word nb tb buf j" if "j < ?wn" for j
    proof -
      have "4 * j + xvc_size nb j \<le> tb" using xvc_size_bound(1) [of j nb] that assms(3) by simp
      then show ?thesis by (simp add: xvc_word_def ld_st_other)
    qed
    then have "map (xvc_word nb tb ?buf) [k + 1..<?wn] = map (xvc_word nb tb buf) [k + 1..<?wn]" by simp
    moreover have "[k..<?wn] = k # [k + 1..<?wn]" using k by (simp add: upt_conv_Cons)
    ultimately have "shifts l m d (es @ fs) = map (xvc_word nb tb buf) [k..<?wn]" using r(3) i(2) by simp
    moreover have "word_run dev nb tb k buf log buf' (es @ fs)" by (rule word_run_step [OF True assms(3) n_def r(2) i(3)])
    ultimately show ?thesis using r(1) i(1) by (intro exI [of _ buf'] exI [of _ "es @ fs"]) simp
  qed
qed

text \<open>What is to be shifted, in terms of the user's vectors.\<close>

definition vector_word :: "nat \<Rightarrow> bytes \<Rightarrow> bytes \<Rightarrow> nat \<Rightarrow> u32 \<times> u32 \<times> u32" where
  "vector_word nb tms tdi k = (of_nat (xvc_len nb k), ucast (ld (xvc_size nb k) (\<lambda>i. tms ! i) (4 * k)),
     ucast (ld (xvc_size nb k) (\<lambda>i. tdi ! i) (4 * k)))"

lemma vector_word_buf:
  assumes "length tms = tb" "length tdi = tb" "tb = (nb + 7) div 8" "k < (nb + 31) div 32"
  shows "xvc_word nb tb (st_bytes (st_bytes junk 0 tms) tb tdi) k = vector_word nb tms tdi k"
proof -
  let ?buf = "st_bytes (st_bytes junk 0 tms) tb tdi"
  have n: "4 * k + xvc_size nb k \<le> tb" using xvc_size_bound(1) [of k nb] assms(3,4) by simp
  have "ld (xvc_size nb k) ?buf (4 * k) = ld (xvc_size nb k) (\<lambda>i. tms ! i) (4 * k)"
    using n assms(1) by (intro ld_cong) (auto simp: st_bytes_def)
  moreover have "ld (xvc_size nb k) ?buf (tb + 4 * k) = ld (xvc_size nb k) (\<lambda>i. tdi ! i) (4 * k)"
    using n assms(2) by (intro ld_cong_shift) (auto simp: st_bytes_def)
  ultimately show ?thesis by (simp add: xvc_word_def vector_word_def)
qed

text \<open>C29: The JTAG port shifts the user's vectors. For a request whose length in bits is at most \<open>2^32 - 32\<close>, with memory and a device that
  completes every shift within a hundred looks, the ioctl ends and returns 0. The device was started once for every 32 bits, in order, each
  time with the length and the next bits of the two vectors, where the last word is shorter; the user gets the words
  the device answered, byte by byte and cut to the length of the vector, or for the loop-back operation the vector
  that was sent.\<close>

theorem xvc_shifts_vectors:
  assumes "xcdev_check xdev xcdev False = 0" "xvc_opcode ioc = 1 \<or> xvc_opcode ioc = 2" "nb = unat (xvc_length ioc)"
    and "nb \<le> 2 ^ 32 - 32" "tb = (nb + 7) div 8" "kmalloc_ok (of_nat (3 * tb))"
    and "length (xvc_tms ioc) = tb" "length (xvc_tdi ioc) = tb" "xvc_ready dev"
  shows "\<exists>out log. xvc_ioctl dev xdev xcdev True (0, 0, 0, 0) kmalloc_ok junk ioc = Some (Ret (0, Some out, log))
    \<and> shifts l m d log = map (vector_word nb (xvc_tms ioc) (xvc_tdi ioc)) [0..<(nb + 31) div 32]
    \<and> out = (if xvc_opcode ioc = 2 then xvc_tdi ioc
         else concat (map2 (\<lambda>k w. xvc_bytes (xvc_size nb k) w) [0..<(nb + 31) div 32] (answers dev [] log)))
    \<and> length out = tb \<and> length (answers dev [] log) = (nb + 31) div 32"
proof -
  let ?buf = "st_bytes (st_bytes junk 0 (xvc_tms ioc)) tb (xvc_tdi ioc)"
  let ?pre = "if 32 \<le> nb then [XvcWrite XVC_BAR_LENGTH_REG 32] else []"
  have nb: "of_nat nb = xvc_length ioc" using assms(3) by simp
  have "unat (xvc_length ioc + 7) = nb + 7" using assms(3,4) by (simp add: unat_word_ariths)
  then have tb: "unat (drop_bit 3 (xvc_length ioc + 7)) = tb"
    unfolding unat_drop_bit_eq using assms(5) by (simp add: drop_bit_eq_div)
  have km: "drop_bit 3 (xvc_length ioc + 7) * 3 = of_nat (3 * tb)"
    by (subst word_arith_nat_mult) (simp add: tb mult.commute)
  have big: "32 \<le> xvc_length ioc \<longleftrightarrow> 32 \<le> nb" using assms(3) by (simp add: word_le_nat_alt)
  have start: "32 * 0 < nb \<longrightarrow> xvc_length ioc = of_nat (nb - 32 * 0) \<and> ((if 32 \<le> nb then 32 else l) = 32 \<or> nb - 32 * 0 < 32)"
    using nb by auto
  obtain buf' es where r: "xvc_loop dev (xvc_length ioc) tb ?buf 0 (xvc_length ioc) ?pre = Some (Ret (0, buf', ?pre @ es))"
    "shifts (if 32 \<le> nb then 32 else l) m d es = map (xvc_word nb tb ?buf) [0..<(nb + 31) div 32]" "word_run dev nb tb 0 ?buf ?pre buf' es"
    using xvc_loop_words [OF assms(9,4,5) le0 start, of ?buf ?pre m d] unfolding nb mult_0_right semiring_1_class.of_nat_0 by blast
  have "map (xvc_word nb tb ?buf) [0..<(nb + 31) div 32] = map (vector_word nb (xvc_tms ioc) (xvc_tdi ioc)) [0..<(nb + 31) div 32]"
    using vector_word_buf [OF assms(7,8,5)] by simp
  then have "shifts l m d (?pre @ es) = map (vector_word nb (xvc_tms ioc) (xvc_tdi ioc)) [0..<(nb + 31) div 32]"
    using r(2) by (cases "32 \<le> nb") simp_all
  moreover have "answers dev [] (?pre @ es) = answers dev ?pre es" by simp
  moreover have "ld_bytes buf' tb tb = xvc_tdi ioc"
    using r(3) assms(8) by (intro nth_equalityI) (auto simp: word_run_def st_bytes_def)
  moreover have "ld_bytes buf' (2 * tb) tb =
      concat (map2 (\<lambda>k w. xvc_bytes (xvc_size nb k) w) [0..<(nb + 31) div 32] (answers dev ?pre es))"
    "length (answers dev ?pre es) = (nb + 31) div 32"
    using r(3) by (simp_all add: word_run_def)
  moreover have "xvc_ioctl dev xdev xcdev True (0, 0, 0, 0) kmalloc_ok junk ioc =
      Some (Ret (0, Some (ld_bytes buf' (if xvc_opcode ioc = 2 then tb else 2 * tb) tb), ?pre @ es))"
    using assms(1,2,6-8) r(1) unfolding xvc_ioctl_def Let_def tb km big by auto
  ultimately show ?thesis
    by (intro exI [of _ "ld_bytes buf' (if xvc_opcode ioc = 2 then tb else 2 * tb) tb"] exI [of _ "?pre @ es"]) (simp split del: if_split, simp)
qed

text \<open>A length above \<open>2^32 - 8\<close> overflows when it is rounded up to bytes: an empty buffer is allocated, and the first access is outside.\<close>

theorem xvc_length_overflow:
  assumes "xcdev_check xdev xcdev False = 0" "xvc_opcode ioc = 1 \<or> xvc_opcode ioc = 2" "2 ^ 32 - 8 < unat (xvc_length ioc)" "kmalloc_ok 0"
  shows "xvc_ioctl dev xdev xcdev True (0, 0, 0, n) kmalloc_ok junk ioc = Some (Ub OutOfBounds)"
proof -
  have "unat (xvc_length ioc) < 2 ^ 32" using unsigned_less [of "xvc_length ioc", where ?'a = nat] by simp
  then have "unat (xvc_length ioc + 7) = unat (xvc_length ioc) + 7 - 2 ^ 32"
    using assms(3) by (simp add: unat_word_ariths mod_if)
  then have "unat (drop_bit 3 (xvc_length ioc + 7)) = 0"
    unfolding unat_drop_bit_eq using assms(3) \<open>unat (xvc_length ioc) < 2 ^ 32\<close> by (simp add: drop_bit_eq_div)
  then have tb: "drop_bit 3 (xvc_length ioc + 7) = 0" by (simp add: unat_eq_zero)
  have "0 < xvc_length ioc" "\<not> xvc_length ioc < 32" using assms(3) by (simp_all add: word_less_nat_alt)
  then have "xvc_loop dev (xvc_length ioc) 0 buf 0 (xvc_length ioc) log = Some (Ub OutOfBounds)" for buf log
    by (subst xvc_loop.simps) simp
  then show ?thesis using assms(1,2,4) by (auto simp: xvc_ioctl_def Let_def tb)
qed

subsection \<open>Witnesses\<close>

definition demo_queue :: xdma_engine where
  "demo_queue = demo_engine\<lparr>transfer_list := [1, 2],
     xfers := (\<lambda>i. (xfers demo_engine i)\<lparr>xf_desc_num := 1, xf_desc_index := i\<rparr>)\<rparr>"

theorem bypass_read_shows_queue_witness:
  "char_bypass_read demo_dev demo_cdev 2 (\<lambda>_. True) True 48 demo_queue = (- ENOMEM, [(0, desc_zero)])"
proof -
  have d: "desc demo_queue = replicate 4 desc_zero" "transfer_list demo_queue = [1, 2]"
    "\<And>i. xf_desc_num (xfers demo_queue i) = 1" "\<And>i. xf_desc_index (xfers demo_queue i) = i"
    by (simp_all add: demo_queue_def demo_engine_def)
  have x: "xfer_descs demo_queue 1 = [desc_zero]" "xfer_descs demo_queue 2 = [desc_zero]"
    by (simp_all add: xfer_descs_def d numeral_eq_Suc)
  have "xcdev_check demo_dev demo_cdev True = 0"
    using demo_dma_facts(2,5) by (simp add: file_ok_def xcdev_check_def)
  from bypass_read_shows_queue [OF this, of 48 2 "\<lambda>_. True" demo_queue] show ?thesis using x(1) by (simp add: d(2) x(2))
qed

text \<open>Forty bits, shifted through a device that is never busy and answers 0xA5.\<close>

definition demo_jtag :: xvc_dev where
  "demo_jtag log r = (if r = XVC_BAR_TDO_REG then 0xA5 else 0)"

definition demo_xvc :: xvc_ioc where
  "demo_xvc = \<lparr>xvc_opcode = 1, xvc_length = 40, xvc_tms = [1, 2, 3, 4, 5], xvc_tdi = [6, 7, 8, 9, 10]\<rparr>"

theorem xvc_shifts_vectors_witness:
  "\<exists>out log. xvc_ioctl demo_jtag demo_dev demo_cdev True (0, 0, 0, 0) (\<lambda>_. True) (\<lambda>_. 0) demo_xvc = Some (Ret (0, Some out, log))
    \<and> shifts 0 0 0 log = [(32, 0x04030201, 0x09080706), (8, 5, 10)] \<and> length out = 5"
proof -
  have "fst (xvc_poll demo_jtag COMPLETION_LOOP_MAX log)" for log
    by (simp add: COMPLETION_LOOP_MAX_def numeral_eq_Suc demo_jtag_def Let_def)
  then have r: "xvc_ready demo_jtag" by (simp add: xvc_ready_def)
  have f: "xvc_opcode demo_xvc = 1" "unat (xvc_length demo_xvc) = 40" "xvc_tms demo_xvc = [1, 2, 3, 4, 5]" "xvc_tdi demo_xvc = [6, 7, 8, 9, 10]"
    by (simp_all add: demo_xvc_def)
  have v: "vector_word 40 [1, 2, 3, 4, 5] [6, 7, 8, 9, 10] 0 = (32, 0x04030201, 0x09080706)"
    "vector_word 40 [1, 2, 3, 4, 5] [6, 7, 8, 9, 10] (Suc 0) = (8, 5, 10)"
    by code_simp+
  show ?thesis
    using xvc_shifts_vectors [OF demo_map_facts(8) _ refl _ refl _ _ _ r, of demo_xvc "\<lambda>_. True" "\<lambda>_. 0" 0 0 0]
    unfolding f by (auto simp: v upt_conv_Cons)
qed

end
