(* ===== verification/Dma_Path.thy ===== *)
theory Dma_Path
  imports Escape_Link Host_Sgdma
begin

text \<open>
  The path of a DMA request from the manager to the device: the request the manager issues for a
  buffer of the guest satisfies what the host's driver expects of a request, so that the driver's lemmas
  apply to it.
\<close>

text \<open>The host's driver behind the system call of the manager: the value of the ioctl.\<close>

definition driver_ioctl :: "submit_env \<Rightarrow> host_kernel \<Rightarrow> xdma_dev \<Rightarrow> xdma_cdev \<Rightarrow> fh_host_ioctl_dma \<Rightarrow> int \<times> int" where
  "driver_ioctl env hk xdev xcdev dma =
    (case fh_handle_ioctl env hk xdev xcdev FH_HOST_IOCTL_DMA (0, 0) dma of
       Ret r \<Rightarrow> (rw_ret r, 0)
     | Ub _ \<Rightarrow> (- 1, 0))"

text \<open>The page of the host behind a frame of the guest.\<close>

definition host_page :: "host_kernel \<Rightarrow> nat \<Rightarrow> ctx_struct \<Rightarrow> u64 \<Rightarrow> u64" where
  "host_page hk mm ctx pfn = snd (hk_gup_remote hk mm (vaddr_of ctx pfn))"

lemma sum_page_pieces: "sum_list (map snd (page_pieces a len)) = len"
proof -
  have "length (concat (map (\<lambda>(a, n). [a..<a + n]) (page_pieces a len))) = len"
    by (simp add: page_pieces_concat)
  then show ?thesis by (simp add: length_concat comp_def split_def)
qed

lemma request_dma_ok:
  assumes "pins_all k buf count pfns" "0 < count" "unat count < 2 ^ 31" "unat buf + unat count + 4095 < 2 ^ 64"
  shows "dma_ok (request_dma pid ctx pos wr ap buf count pfns)"
    "length (dma_chunks (request_dma pid ctx pos wr ap buf count pfns)) = length pfns"
    "map addr (dma_chunks (request_dma pid ctx pos wr ap buf count pfns)) = map (vaddr_of ctx) pfns"
    "map2 (\<lambda>c p. byte_addrs (b p + offset c) (unat (nbytes c))) (dma_chunks (request_dma pid ctx pos wr ap buf count pfns)) qs =
     map2 (\<lambda>q p. byte_addrs (b p + of_nat (fst q mod 4096)) (snd q)) (page_pieces (unat buf) (unat count)) qs"
proof -
  let ?qs = "page_pieces (unat buf) (unat count)"
  let ?cs = "dma_chunks (request_dma pid ctx pos wr ap buf count pfns)"
  have c32: "unat count < 2 ^ 32" using assms(3) by simp
  note pc = pinned_chunks [OF assms(1,2) c32 assms(4)]
  have len: "length pfns = length ?qs"
    using assms(1) page_count_pieces [OF assms(2,4)] by (simp add: pins_all_def)
  then show l: "length ?cs = length pfns" by (simp add: request_dma_def)
  show "map addr ?cs = map (vaddr_of ctx) pfns"
    using len by (intro nth_equalityI) (simp_all add: request_dma_def)
  have inpage: "fst q mod 4096 + snd q \<le> 4096" if "q \<in> set ?qs" for q
    using page_pieces_in_page [of "fst q" "snd q"] that by simp
  have at: "unat (offset (?cs ! i)) = fst (?qs ! i) mod 4096" "unat (nbytes (?cs ! i)) = snd (?qs ! i)"
    "offset (?cs ! i) = of_nat (fst (?qs ! i) mod 4096)" if "i < length ?qs" for i
  proof -
    have "fst (?qs ! i) mod 4096 + snd (?qs ! i) \<le> 4096" by (rule inpage) (simp add: that)
    then show "unat (offset (?cs ! i)) = fst (?qs ! i) mod 4096" "unat (nbytes (?cs ! i)) = snd (?qs ! i)"
      "offset (?cs ! i) = of_nat (fst (?qs ! i) mod 4096)"
      using that len by (simp_all add: request_dma_def piece_chunk_def unat_of_nat)
  qed
  have nb: "map (\<lambda>c. unat (nbytes c)) ?cs = map snd ?qs"
    using l len at(2) by (intro nth_equalityI) simp_all
  have "unat (offset c) + unat (nbytes c) \<le> 4096" if "c \<in> set ?cs" for c
    using that l len at inpage by (metis in_set_conv_nth nth_mem)
  moreover have "?cs \<noteq> []" using pc(1,3) l by auto
  ultimately show "dma_ok (request_dma pid ctx pos wr ap buf count pfns)"
    using nb l pc(4) assms(3) sum_page_pieces [of "unat buf" "unat count"]
    by (simp add: dma_ok_def) (simp add: request_dma_def)
  show "map2 (\<lambda>c p. byte_addrs (b p + offset c) (unat (nbytes c))) ?cs qs =
     map2 (\<lambda>q p. byte_addrs (b p + of_nat (fst q mod 4096)) (snd q)) ?qs qs"
    using l len at by (intro nth_equalityI) simp_all
qed

lemma driver_serves_guest:
  fixes hk mm ctx pfns
  defines "ps \<equiv> map (host_page hk mm ctx) pfns"
  assumes "pins_all k buf count pfns" "0 < count" "unat count < 2 ^ 31" "unat buf + unat count + 4095 < 2 ^ 64"
    and "file_ok xdev xcdev wr chan" "dma_ready env xdev wr chan" "e = engine_of xdev wr chan"
    and "check_transfer_align e buf count pos True = 0" "get_mm hk (scast pid) = Some mm"
    and "\<forall>p \<in> set pfns. fst (hk_gup_remote hk mm (vaddr_of ctx p)) = 1" "\<not> has_duplicates ps"
    and "\<And>n. hk_sg_alloc hk n" "\<And>n. hk_kcalloc hk n" "\<And>n. hk_kmalloc hk n" "maps_pages hk bus"
    and "sv_hdr env + length pfns * 16 < 2 ^ 32"
  shows "\<exists>r ops. fh_handle_ioctl env hk xdev xcdev FH_HOST_IOCTL_DMA (0, 0) (request_dma pid ctx pos wr ap buf count pfns) = Ret r
    \<and> rw_ret r = int (unat count) \<and> rw_put r = map (\<lambda>p. (p, \<not> wr)) ps
    \<and> idle (engine_of (rw_dev r) wr chan) \<and> ops_run (engine_of (rw_dev r) wr chan) = ops_run e @ ops
    \<and> host_bytes ops = concat (map2 (\<lambda>q p. byte_addrs (bus p + of_nat (fst q mod 4096)) (snd q))
        (page_pieces (unat buf) (unat count)) ps)
    \<and> (\<not> non_incr_addr e \<longrightarrow> device_bytes ops = byte_addrs pos (unat count))"
proof -
  let ?dma = "request_dma pid ctx pos wr ap buf count pfns"
  note ok = request_dma_ok [OF assms(2-5), where pid = pid and ctx = ctx and pos = pos and wr = wr and ap = ap]
  have f: "dma_do_write ?dma = of_bool wr" "dma_user_buf ?dma = buf" "dma_len ?dma = count" "dma_phy_addr ?dma = pos"
    "dma_pid ?dma = pid" by (simp_all add: request_dma_def)
  have gup: "\<forall>c \<in> set (dma_chunks ?dma). fst (hk_gup_remote hk mm (addr c)) = 1"
  proof
    fix c
    assume "c \<in> set (dma_chunks ?dma)"
    then have "addr c \<in> set (map (vaddr_of ctx) pfns)" using ok(3) by (metis image_eqI set_map)
    then show "fst (hk_gup_remote hk mm (addr c)) = 1" using assms(11) by auto
  qed
  have "pages_of hk mm (dma_chunks ?dma) = map (\<lambda>a. snd (hk_gup_remote hk mm a)) (map addr (dma_chunks ?dma))"
    by (simp add: pages_of_def)
  then have ps: "pages_of hk mm (dma_chunks ?dma) = ps" by (simp add: ok(3) ps_def host_page_def)
  have "\<exists>r ops. fh_handle_dma env hk xdev xcdev (0, 0) ?dma = Ret r \<and> rw_ret r = int (unat (dma_len ?dma))
    \<and> rw_got r = ps \<and> rw_put r = map (\<lambda>p. (p, \<not> wr)) ps
    \<and> idle (engine_of (rw_dev r) wr chan) \<and> ops_run (engine_of (rw_dev r) wr chan) = ops_run e @ ops
    \<and> host_bytes ops = concat (map2 (\<lambda>c p. byte_addrs (bus p + offset c) (unat (nbytes c))) (dma_chunks ?dma) ps)
    \<and> (\<not> non_incr_addr e \<longrightarrow> device_bytes ops = byte_addrs (dma_phy_addr ?dma) (unat (dma_len ?dma)))"
    unfolding ps [symmetric] using assms gup ok(1,2) f ps by (intro fh_handle_dma_completes) simp_all
  then show ?thesis
    unfolding f ok(4) by (simp add: fh_handle_ioctl_def) blast
qed

end
