(* ===== verification/Spec2Isabelle.thy ===== *)
theory Spec2Isabelle
  imports Gpu_Comm Manager_Main Escape_Link Devmem Libhook Fh_Fixup Xdma_Thread Char_Devs Dma_Path
begin

text \<open>
  ACAI lets a confidential virtual machine on an Arm FVP simulator use an FPGA that is plugged into
  the host. This development models the C code of that path (\<open>src/src/fpga_driver\<close>) and of its variant for a GPU (\<open>src/src/gpu_driver\<close>) and proves
  what makes each part of it correct, and what the parts guarantee together.

  \<^bold>\<open>The program.\<close> Inside the simulator a stub of the XDMA driver (\<open>xdma_stub\<close>) runs in the guest. It pins
  the pages of a user's buffer, tells the interception module (\<open>devmem_intercept\<close>) which pages leave the
  realm, and writes requests into an \<^emph>\<open>escape page\<close>. A write to that page is a fault that the host
  observes: the user-space manager (\<open>fpga_escape_libhook\<close>, linked with \<open>fh_host\<close> and the page-table editor
  \<open>ptedit_header.h\<close>) is called, translates guest frame numbers into addresses of the simulator process
  with a table it built when it started, and passes the request to the host's XDMA driver (\<open>xdma\<close>), which
  programs the DMA engine. \<open>libhook\<close> is preloaded into the simulator so that its memory lies in one
  known mapping.

  \<^bold>\<open>Theories.\<close>
  \<^item> \<open>Acai_Prelude\<close>: machine words, outcomes of C functions (a value, or the undefined behaviour or abort
    that was met), byte memory with little-endian loads and stores, the page-stepping loop.
  \<^item> \<open>Ptedit\<close> (\<open>fh_host/ptedit_header.h\<close>): page walk and entry updates over physical memory. Frame numbers,
    bits and memory types read back as written and nothing else changes.
  \<^item> \<open>Fh_Host\<close> (\<open>fh_host/fh_host.c\<close>): mapping target pages into the manager by rewriting its page tables,
    the faulthook, the listener loop. Mapping a region makes every host page translate to the target's
    frame and unmapping restores physical memory; the listener loop serves events in order and ends at the
    first failure.
  \<^item> \<open>Usr_Manager\<close>, \<open>Hex_Text\<close>, \<open>Manager_Files\<close>, \<open>Manager_Main\<close> (\<open>fpga_escape_libhook/usr_manager.c\<close>): the
    table from guest frames to simulator addresses, the scans that fill it, the files that keep
    it over a restart, start and end of the program. The table is complete after the scans; a restart
    restores it; \<open>main\<close> releases what it took.
  \<^item> \<open>Fh_Protocol\<close>, \<open>Fpga_Comm\<close> (\<open>fpga_usr_manager.h\<close>, \<open>fpga_comm.c\<close>): the messages in the escape page and the
    handler \<open>on_fault\<close> with every action. Under the buffer invariant no transfer leaves the buffer; a
    DMA request is translated entry by entry or not issued at all.
  \<^item> \<open>Guest_Escape\<close>, \<open>Sgdma_Stub\<close> (\<open>xdma_stub/.../fvp_escape.c\<close>, \<open>cdev_sgdma.c\<close>): the guest's side; pinning
    equals a reference decomposition of the buffer into page pieces, every operation releases the lock.
  \<^item> \<open>Escape_Link\<close>: the guest's faulthook against the manager's handler, as one function of the guest's
    page; the locale of a receiver of chunked data is interpreted on it.
  \<^item> \<open>Devmem\<close> (\<open>devmem_intercept\<close>): delegation of pages through the monitor, and its undoing.
  \<^item> \<open>Libhook\<close> (\<open>libhook/hook.c\<close>): the allocation hook and the calls that re-enter it.
  \<^item> \<open>Xdma_Request\<close> (\<open>xdma/.../libxdma.c\<close>): the scatter list of a request, cut into descriptors, and the chain of
    descriptors the DMA engine is given. The chain, read as the device follows it, is the next part of the
    request.
  \<^item> \<open>Xdma_Engine\<close> (\<open>libxdma.c\<close>): one DMA engine with its registers and its queue of transfers, as a state monad:
    starting, stopping, queueing, aborting, and the service after an interrupt, which retires transfers in order.
  \<^item> \<open>Xdma_Submit\<close> (\<open>libxdma.c\<close>): \<open>xdma_xfer_submit\<close>, against a device that is a function of the engine's state. A
    request is run completely; however it ends, what was taken is released, but for one path.
  \<^item> \<open>Host_Sgdma\<close> (\<open>xdma/.../cdev_sgdma.c\<close>, \<open>fvp_escape.c\<close>): the driver's files and the ioctl of the escape.
  \<^item> \<open>Remote_Map\<close> (\<open>xdma/.../fvp_escape.c\<close>, \<open>cdev_ctrl.c\<close>): the mapping of a page of the device into the simulator. A page the guest
    maps becomes the requested page of the BAR; offsets behind the BAR are granted as well.
  \<^item> \<open>Xdma_Thread\<close> (\<open>xdma/.../xdma_thread.c\<close>, \<open>libxdma.c\<close>): polling mode. Work lists and pointers agree, polling ends, an idle engine
    is read past its list.
  \<^item> \<open>Char_Devs\<close> (\<open>xdma/.../cdev_bypass.c\<close>, \<open>cdev_events.c\<close>, \<open>cdev_xvc.c\<close>, \<open>xdma_cdev.c\<close>): the remaining character devices. The bypass
    device shows the queue and passes words on, events are delivered once, the JTAG port shifts vectors word by word.
  \<^item> \<open>Dma_Path\<close>: the request the manager issues for the guest satisfies what the driver's lemmas ask for.
  \<^item> \<open>Gpu_Comm\<close> (\<open>gpu_driver/gpu_gdev_usr_manager/gpu_comm.c\<close>): the handler of the GPU variant of the manager, with the gdev
    library as a parameter. Data survives a copy to the GPU and back; under any requests the library only
    sees open handles.
  \<^item> \<open>Fh_Fixup\<close> (\<open>gpu_driver/fh_fixup\<close>): the module that puts pages of one process in the place of another's, and its library. Every
    target page becomes the frame of its source page; unmapping restores nothing; one error path keeps a lock.
  \<^item> This theory: properties across components, from the guest's buffer to the device.

  \<^bold>\<open>Code outside the sources.\<close> The operating systems (system calls, \<open>get_user_pages\<close>, allocation), the monitor,
  the device and the C library are parameters of the definitions: functions that are given the
  history of calls so far or the arguments, so that nothing is assumed about them beyond what a theorem
  names as a hypothesis.

  \<^bold>\<open>Loops.\<close> Loops over pages that may wrap around or wait for an event are \<open>partial_function (option)\<close> or
  \<open>while_option\<close>, and where the code returns this is proved as a \<open>Some\<close> result. Nested calls of the
  allocation hook carry a depth; five levels are proved to be enough.

  \<^bold>\<open>Not modelled.\<close> The probing, interrupt set-up and power management of the XDMA driver
  (pure register and PCI set-up), asynchronous requests, performance and aperture ioctls, the version and power commands of \<open>cdev_ctrl\<close> (single register accesses on
  behalf of a user), module registration, the kernel-module interface of \<open>ptedit_header.h\<close>, benchmark and test programs, vendored headers,
  and messages, hex dumps and tracing everywhere.
\<close>

section \<open>Properties that span components\<close>

text \<open>C2: Data sent by the guest arrives at the host. For any data that fits the escape page, the
  guest's chunked transfer against the manager's handler ends; it succeeds exactly when the
  manager can allocate the buffer, and then the manager's buffer holds the data, byte for byte,
  under the purpose the guest gave. No system call is made on the way.\<close>

theorem transfer_round_trip:
  assumes "receiving log (host g)" "data \<noteq> []" "length data < 2 ^ 32"
    and "40 + length data \<le> unat (fvp_escape_size g)"
  shows "\<exists>r g'. transfer_chunk_to_host (fpga_serve os pid ctx e) data info_ctx g = Some (Ret (r, g'))
    \<and> r = (if sys_malloc os (of_nat (length data)) \<noteq> None then 0 else - ENXIO)
    \<and> (r = 0 \<longrightarrow> receiving log (host g') \<and> fpga_pending (comm (host g')) = Some (info_ctx, length data, data))"
  using fpga_recv.transfer_chunk_to_host_sends [OF assms, of os pid ctx e info_ctx]
  by (auto simp: fpga_accepts_def)

text \<open>C1: A DMA transfer, end to end. A process in the guest writes or reads a buffer whose pages are
  pinned and known to the manager. Then the call ends, the host's device driver gets exactly
  one DMA request, for the same device file, device address, direction and length, whose chunks are
  the pieces of the buffer page by page with every guest frame replaced by the simulator's
  address of that frame; the guest gets the driver's value, the pages are unpinned, the lock is free and
  the manager's buffer is released.\<close>

theorem dma_end_to_end:
  assumes "addr_map_ok ctx" "receiving log (host g)" "\<not> faultdata_lock g"
    and "pins_all (kernel_pin.truncate k) buf count pfns" "0 < count" "unat count < 2 ^ 32"
    and "unat buf + unat count + 4095 < 2 ^ 64"
    and "40 + 24 * length pfns \<le> vmalloc_bytes (8 + fh_get_page_count buf count * 24)"
    and "56 + 24 * length pfns \<le> unat (fvp_escape_size g)"
    and "\<forall>p \<in> set pfns. vaddr_of ctx p \<noteq> 0" "sys_malloc os (of_nat (24 * length pfns)) \<noteq> None"
    and "- (2 ^ 31) \<le> fd" "fd < 2 ^ 31"
    and "\<And>dma. sys_call os log (IocDma fd dma) = (ret, errno)" "0 \<le> ret" "ret < 2 ^ 31"
  shows "\<exists>res g' dma. char_sgdma_read_write (fpga_serve os pid ctx e) k fd buf count pos wr ap g = Some (Ret (res, g'))
    \<and> dr_ret res = ret \<and> dr_put res = pfns \<and> \<not> faultdata_lock g'
    \<and> receiving (log @ [IocDma fd dma]) (host g') \<and> fpga_pending (comm (host g')) = None
    \<and> dma_pid dma = pid \<and> dma_phy_addr dma = pos
    \<and> dma_do_write dma = of_bool wr \<and> dma_do_aperture dma = of_bool ap \<and> dma_len dma = count
    \<and> dma_chunks dma = map2 (\<lambda>p q. (piece_chunk p q)\<lparr>addr := vaddr_of ctx p\<rparr>) pfns
        (page_pieces (unat buf) (unat count))"
proof -
  note reach = pinned_request_served [OF assms(1-9,11-13) assms(14) _ assms(16) refl, of pid e pos wr ap]
  obtain g3 dma where g3: "receiving (log @ [IocDma fd dma]) (host g3)" "fpga_pending (comm (host g3)) = None"
    "\<exists>sgl. char_sgdma_read_write (fpga_serve os pid ctx e) k fd buf count pos wr ap g =
      Some (Ret (\<lparr>dr_ret = ret, dr_sgl = sgl, dr_put = pfns\<rparr>, fd_data_unlock g3))"
    "dma = request_dma pid ctx pos wr ap buf count pfns"
    using reach assms(10,15) by (auto simp: receiving_def)
  obtain sgl where "char_sgdma_read_write (fpga_serve os pid ctx e) k fd buf count pos wr ap g =
      Some (Ret (\<lparr>dr_ret = ret, dr_sgl = sgl, dr_put = pfns\<rparr>, fd_data_unlock g3))"
    using g3(3) by blast
  then show ?thesis
    using g3(1,2) by (intro exI [of _ "\<lparr>dr_ret = ret, dr_sgl = sgl, dr_put = pfns\<rparr>"]
        exI [of _ "fd_data_unlock g3"] exI [of _ dma]) (simp add: g3(4) request_dma_def fd_data_unlock_def)
qed


text \<open>C30: A failing DMA request ends the manager. When one frame of the buffer has no mapping, or the
  driver reports an error, the guest's call ends with \<open>-ENXIO\<close> instead of the error, the pages are
  unpinned, and the manager's listener loop has ended: from then on every request of the guest
  fails with \<open>-ENXIO\<close> and changes nothing at the host.\<close>

theorem dma_failure_ends_manager:
  assumes "addr_map_ok ctx" "receiving log (host g)" "\<not> faultdata_lock g"
    and "pins_all (kernel_pin.truncate k) buf count pfns" "0 < count" "unat count < 2 ^ 32"
    and "unat buf + unat count + 4095 < 2 ^ 64"
    and "40 + 24 * length pfns \<le> vmalloc_bytes (8 + fh_get_page_count buf count * 24)"
    and "56 + 24 * length pfns \<le> unat (fvp_escape_size g)"
    and "sys_malloc os (of_nat (24 * length pfns)) \<noteq> None" "- (2 ^ 31) \<le> fd" "fd < 2 ^ 31"
    and "\<And>dma. sys_call os log (IocDma fd dma) = (ret, errno)" "- (2 ^ 31) \<le> ret" "ret < 2 ^ 31"
    and "(\<exists>p \<in> set pfns. vaddr_of ctx p = 0) \<or> ret < 0"
  shows "\<exists>res g'. char_sgdma_read_write (fpga_serve os pid ctx e) k fd buf count pos wr ap g = Some (Ret (res, g'))
    \<and> dr_ret res = - ENXIO \<and> dr_put res = pfns \<and> \<not> faultdata_lock g' \<and> \<not> listening (host g')
    \<and> (\<forall>action. \<exists>g''. fh_do_faulthook (fpga_serve os pid ctx e) action g' = Ret (- ENXIO, g'') \<and> host g'' = host g')"
proof -
  note reach = pinned_request_served [OF assms(1-15) refl, of pid e pos wr ap]
  have "((\<forall>p \<in> set pfns. vaddr_of ctx p \<noteq> 0) \<and> 0 \<le> ret) = False" using assms(16) by auto
  from reach [unfolded this if_False] obtain g3 where g3: "\<not> listening (host g3)"
    "\<exists>sgl. char_sgdma_read_write (fpga_serve os pid ctx e) k fd buf count pos wr ap g =
      Some (Ret (\<lparr>dr_ret = - ENXIO, dr_sgl = sgl, dr_put = pfns\<rparr>, fd_data_unlock g3))"
    by blast
  have "\<not> listening (host (fd_data_unlock g3))" using g3(1) by (simp add: fd_data_unlock_def)
  then show ?thesis using g3(2) fpga_deaf by fastforce
qed

section \<open>Device memory of a DMA buffer\<close>

text \<open>
  The scatter list \<open>simulate_pci_dma\<close> builds, as the probe on \<open>dma_map_sg\<close> sees it:
  \<open>sg_set_page\<close> keeps page, length and offset.
\<close>

definition announced :: "(u64 \<times> u64 \<times> u64) list \<Rightarrow> scatterlist list" where
  "announced = map (\<lambda>(pfn, len, off). \<lparr>sg_phys = push_bit PAGE_SHIFT pfn, sg_offset = ucast off, sg_length = ucast len\<rparr>)"

lemma announced_granules:
  assumes "\<forall>q\<in>set qs. 0 < snd q \<and> snd q \<le> 4096" "length pfns = length qs"
  shows "concat (map sg_granules (announced (map (\<lambda>c. (addr c, nbytes c, offset c)) (map2 piece_chunk pfns qs))))
      = map (push_bit PAGE_SHIFT) pfns"
    and "\<forall>x\<in>set (announced (map (\<lambda>c. (addr c, nbytes c, offset c)) (map2 piece_chunk pfns qs))). unat (sg_length x) \<le> 4096"
proof -
  have one: "pages_of_len (ucast (of_nat n :: u64)) = 1" "unat (ucast (of_nat n :: u64) :: u32) = n"
    if "0 < n" "n \<le> 4096" for n :: nat
    using that by (auto simp: pages_of_len_def unsigned_ucast_eq unsigned_of_nat take_bit_nat_eq_self)
  show "concat (map sg_granules (announced (map (\<lambda>c. (addr c, nbytes c, offset c)) (map2 piece_chunk pfns qs))))
      = map (push_bit PAGE_SHIFT) pfns"
    using assms by (induction pfns qs rule: list_induct2') (auto simp: announced_def piece_chunk_def one granules_def)
  show "\<forall>x\<in>set (announced (map (\<lambda>c. (addr c, nbytes c, offset c)) (map2 piece_chunk pfns qs))). unat (sg_length x) \<le> 4096"
    using assms(1) by (auto simp: announced_def piece_chunk_def one dest!: set_zip_rightD)
qed

text \<open>C33: A DMA buffer is made device memory before the device is asked to access it. The pages that
  \<open>fh_pin_pages\<close> pins and \<open>simulate_pci_dma\<close> announces reach the interception module, whose calls to
  the monitor name exactly the pinned frames, each once per piece of the buffer and in order.\<close>

theorem pinned_pages_delegated:
  assumes "pins_all k buf count pfns" "0 < count" "unat count < 2 ^ 32"
    and "unat buf + unat count + 4095 < 2 ^ 64"
    and "40 + 24 * length pfns \<le> vmalloc_bytes (8 + fh_get_page_count buf count * 24)"
    and "\<not> no_delegate P" "length pfns < 2 ^ 32"
  shows "\<exists>p p' sgl new. fh_pin_pages k buf count = Ret (0, Some p, [])
    \<and> simulate_pci_dma True True True p = (0, p', Some sgl)
    \<and> pre_dma_map_sg_attrs fw P (announced sgl) log = Some (0, log @ new)
    \<and> assigned_pages True new = map (push_bit PAGE_SHIFT) pfns"
proof -
  let ?qs = "page_pieces (unat buf) (unat count)"
  obtain p where p: "fh_pin_pages k buf count = Ret (0, Some p, [])" "page_chunks p = map2 piece_chunk pfns ?qs"
    using fh_pin_pages_ok [OF assms(1-5)] by blast
  let ?sgl = "announced (map (\<lambda>c. (addr c, nbytes c, offset c)) (page_chunks p))"
  have len: "length pfns = length ?qs"
    using assms(1) page_count_pieces [OF assms(2,4)] by (simp add: pins_all_def)
  have qs: "\<forall>q\<in>set ?qs. 0 < snd q \<and> snd q \<le> 4096"
    using page_pieces_in_page by fastforce
  have small: "\<forall>x\<in>set ?sgl. unat (sg_length x) \<le> 4096"
    unfolding p(2) by (rule announced_granules(2) [OF qs len])
  then have "\<forall>x\<in>set ?sgl. unat (sg_length x) \<le> 2 ^ 32 - 4096" by force
  moreover have "sgl_total ?sgl < 2 ^ 64"
  proof -
    have "sgl_total ?sgl \<le> length ?sgl" by (rule sgl_total_le [OF small])
    also have "\<dots> < 2 ^ 64" using assms(7) len by (simp add: p(2) announced_def)
    finally show ?thesis .
  qed
  ultimately obtain new where "devmem_delegate_mem_range_sgl fw P ?sgl True log = Some (0, log @ new)"
    "assigned_pages True new = map (push_bit PAGE_SHIFT) pfns"
    using sgl_effect [of P True ?sgl fw log] assms(6) announced_granules(1) [OF qs len] p(2) by auto
  then show ?thesis
    using p(1) by (simp add: simulate_pci_dma_def pre_dma_map_sg_attrs_def Let_def)
qed

section \<open>The range of the simulator's memory\<close>

text \<open>The manager finds the memory the hook maps. What the hook writes when it has set up its mapping
  at a non-zero address is read by \<open>read_stat_file\<close> as exactly the first and the last address of the
  mapping.\<close>

theorem stat_file_round_trip:
  assumes "hook_stat_file env s = Ret s'" "map_start s \<noteq> 0" "unat (map_start s) + unat map_size < 2 ^ 64"
  shows "\<exists>t. stat_text s' = Some t \<and> read_stat_file (Some t) = Ret (map_start s, map_start s + map_size)"
proof -
  let ?to = "map_start s + map_size"
  have "\<not> is_hex CHR ''-''" "\<not> is_hex CHR '';''" by code_simp+
  then have scan: "scan_hex (hex_nat (unat (map_start s)) @ ''-0x'' @ hex_nat (unat ?to) @ '';'' @ own_pid env)
      = Some (map_start s, ''-0x'' @ hex_nat (unat ?to) @ '';'' @ own_pid env)"
    "scan_hex (hex_nat (unat ?to) @ '';'' @ own_pid env) = Some (?to, '';'' @ own_pid env)"
    by (intro scan_hex_nat; simp)+
  have "unat ?to = unat (map_start s) + unat map_size" using assms(3) by (simp add: unat_word_ariths)
  moreover have "0 < unat map_size" by (simp add: map_size_def)
  ultimately have "map_start s < ?to" unfolding word_less_nat_alt by simp
  moreover from this have "?to \<noteq> 0" by (metis word_not_simps(1))
  ultimately show ?thesis
    using assms(1,2) scan
    by (auto simp: hook_stat_file_def range_text_def read_stat_file_def strip_def split: if_splits)
qed

section \<open>Witnesses\<close>

text \<open>
  A guest whose user buffer of 32 bytes straddles two pages, and a manager that knows the
  frames 5 and 7.
\<close>

definition run_os :: host_os where
  "run_os = \<lparr>sys_malloc = (\<lambda>_. Some (\<lambda>_. 0)), sys_call = (\<lambda>_ _. (32, 0))\<rparr>"

definition run_kernel :: "u64 list \<Rightarrow> kernel_dma" where
  "run_kernel pfns = \<lparr>vmalloc1_ok = True, vmalloc2_ok = True,
     get_user_pages_fast = (\<lambda>_ _. (int (length pfns), pfns)), sgt_ok = True, sg_table_ok = True, dev_ok = True\<rparr>"

definition run_guest :: "manager guest_state" where
  "run_guest = \<lparr>fd_data = (\<lambda>_. 0), fvp_escape_size = 0x10000, fh_nonce = 0, faultdata_lock = False,
     host = \<lparr>listening = True, comm = \<lparr>page = (\<lambda>_. 0), action_transfer_data_ptr = None,
       action_transfer_data_size = 0, action_transfer_data_info_ctx = 0, action_transfer_data_chunk = 0,
       issued = []\<rparr>\<rparr>\<rparr>"

lemma run_receiving: "receiving [] (host run_guest)"
  by (simp add: receiving_def run_guest_def buffer_ok_def)

lemma run_guest_fields: "\<not> faultdata_lock run_guest" "fvp_escape_size run_guest = 0x10000"
  by (simp_all add: run_guest_def)

lemma run_pins:
  assumes "pfns = [5, 7] \<or> pfns = [5, 6]"
  shows "pins_all (kernel_pin.truncate (run_kernel pfns)) 0x10FF0 0x20 pfns"
    and "40 + 24 * length pfns \<le> vmalloc_bytes (8 + fh_get_page_count 0x10FF0 0x20 * 24)"
proof -
  have "fh_get_page_count 0x10FF0 0x20 = 2" by code_simp
  then show "pins_all (kernel_pin.truncate (run_kernel pfns)) 0x10FF0 0x20 pfns"
    "40 + 24 * length pfns \<le> vmalloc_bytes (8 + fh_get_page_count 0x10FF0 0x20 * 24)"
    using assms by (auto simp: pins_all_def run_kernel_def kernel_pin.truncate_def adjacent_dup_def vmalloc_bytes_def)
qed

lemma run_os_sel [simp]: "sys_malloc run_os n \<noteq> None" "sys_call run_os log c = (32, 0)"
  by (simp_all add: run_os_def)

theorem transfer_round_trip_witness:
  "\<exists>g'. transfer_chunk_to_host (fpga_serve run_os 77 demo_table 0) [1, 2, 3] 23 run_guest = Some (Ret (0, g'))
    \<and> fpga_pending (comm (host g')) = Some (23, 3, [1, 2, 3])"
  using transfer_round_trip [OF run_receiving, of "[1, 2, 3]" run_os 77 demo_table 0 23] run_guest_fields(2)
  by auto

theorem dma_end_to_end_witness:
  "\<exists>res g' dma. char_sgdma_read_write (fpga_serve run_os 77 demo_table 0) (run_kernel [5, 7]) 3 0x10FF0 0x20 0x8000 True False
      run_guest = Some (Ret (res, g'))
    \<and> dr_ret res = 32 \<and> receiving [IocDma 3 dma] (host g')
    \<and> dma_chunks dma = [\<lparr>addr = 0x10000, offset = 0xFF0, nbytes = 16\<rparr>, \<lparr>addr = 0x12000, offset = 0, nbytes = 16\<rparr>]"
proof -
  have "page_pieces 0x10FF0 0x20 = [(0x10FF0, 16), (0x11000, 16)]" by (simp add: page_pieces.simps)
  then show ?thesis
    using dma_end_to_end [OF demo_table_ok run_receiving run_guest_fields(1) run_pins(1) _ _ _ run_pins(2),
        of "[5, 7]" run_os 3 32 0 77 0 "0x8000" True False] run_guest_fields(2)
    by (simp add: demo_vaddr piece_chunk_def) blast
qed

text \<open>A manager whose system call is served by the host's driver with an ideal device.\<close>

definition path_os :: host_os where
  "path_os = \<lparr>sys_malloc = (\<lambda>_. Some (\<lambda>_. 0)),
     sys_call = (\<lambda>_ c. case c of IocDma _ dma \<Rightarrow> driver_ioctl (demo_env ideal_hw 1) demo_kernel demo_dev demo_cdev dma | _ \<Rightarrow> (0, 0))\<rparr>"

lemma path_os_sel [simp]: "sys_malloc path_os n \<noteq> None"
  "sys_call path_os log (IocDma fd dma) = driver_ioctl (demo_env ideal_hw 1) demo_kernel demo_dev demo_cdev dma"
  by (simp_all add: path_os_def)


theorem dma_failure_ends_manager_witness:
  "\<exists>res g'. char_sgdma_read_write (fpga_serve run_os 77 demo_table 0) (run_kernel [5, 6]) 3 0x10FF0 0x20 0x8000 True False
      run_guest = Some (Ret (res, g'))
    \<and> dr_ret res = - ENXIO \<and> \<not> listening (host g')"
  using dma_failure_ends_manager [OF demo_table_ok run_receiving run_guest_fields(1) run_pins(1) _ _ _ run_pins(2),
      of "[5, 6]" run_os 3 32 0 77 0 "0x8000" True False] run_guest_fields(2)
  by (auto simp: demo_vaddr)

theorem pinned_pages_delegated_witness:
  "\<exists>p p' sgl new. fh_pin_pages (kernel_pin.truncate (run_kernel [5, 7])) 0x10FF0 0x20 = Ret (0, Some p, [])
    \<and> simulate_pci_dma True True True p = (0, p', Some sgl)
    \<and> pre_dma_map_sg_attrs (\<lambda>_ _. 0) demo_params (announced sgl) [] = Some (0, new)
    \<and> assigned_pages True new = [0x5000, 0x7000]"
  using pinned_pages_delegated [OF run_pins(1) _ _ _ run_pins(2), of "[5, 7]" demo_params "\<lambda>_ _. 0" "[]"]
  by (simp add: demo_params_def push_bit_eq_mult)

theorem stat_file_round_trip_witness:
  "\<exists>t. stat_text (demo_state\<lparr>stat_text := Some t\<rparr>) = Some t
    \<and> read_stat_file (Some t) = Ret (0x7f0000000000, 0x7f00C0000000)"
proof -
  obtain s' where s': "hook_stat_file demo_hook demo_state = Ret s'"
    by (simp add: hook_stat_file_def demo_hook_def)
  show ?thesis
    using stat_file_round_trip [OF s'] by (auto simp: demo_state_def hook_init_def map_size_def)
qed

end
